(* ===== verification/Prelude.thy ===== *)
theory Prelude
  imports Complex_Main "HOL-Library.Word" "HOL-Library.AList" "HOL-Library.Monad_Syntax"
    "HOL-Library.Multiset"
begin

text \<open>
  Shared vocabulary of the development: the machine types of the C++ code, the status codes
  of \<^verbatim>\<open>rocksdb::Status\<close>, the association-list model of \<^verbatim>\<open>std::unordered_map\<close>, the generic
  lemmas on lists, maps and words the components share, and the collections of rewrite
  rules the proofs draw on.
\<close>

unbundle bit_operations_syntax

named_theorems codec_simps \<open>rewrite rules that run a decoder over encoded bytes\<close>
named_theorems meta_simps \<open>field equations of the blob file meta operations\<close>
named_theorems storage_simps \<open>field equations of the blob storage operations\<close>

section \<open>Machine types\<close>

type_synonym u8 = "8 word"
type_synonym u32 = "32 word"
type_synonym u64 = "64 word"
type_synonym bytes = "u8 list"

section \<open>Status codes\<close>

text \<open>
  The codes of \<^verbatim>\<open>rocksdb::Status\<close> that the modelled code produces or tests. Messages are not
  modelled: no modelled function branches on one. \<open>Undefined\<close> is not a code of the program:
  it is the outcome of a run that leaves the defined behaviour of C++ (a read past the end of
  a slice, a null or dangling pointer), so that each such run is a branch of the model.
\<close>

datatype Status =
    OK
  | NotFound
  | Corruption
  | InvalidArgument
  | IOError
  | Incomplete
  | ShutdownInProgress
  | Aborted
  | Busy
  | Undefined

definition ok :: "Status \<Rightarrow> bool" where
  "ok s \<longleftrightarrow> s = OK"

lemma ok_simps [simp]:
  "ok OK" "\<not> ok NotFound" "\<not> ok Corruption" "\<not> ok InvalidArgument" "\<not> ok IOError"
  "\<not> ok Incomplete" "\<not> ok ShutdownInProgress" "\<not> ok Aborted" "\<not> ok Busy"
  "\<not> ok Undefined"
  by (simp_all add: ok_def)

lemma ok_iff: "ok s \<longleftrightarrow> s = OK"
  by (fact ok_def)

text \<open>A failing or succeeding decoder seen as an option.\<close>

fun opt_of :: "'e + 'a \<Rightarrow> 'a option" where
  "opt_of (Inl e) = None"
| "opt_of (Inr x) = Some x"

lemma opt_of_eq_Some [simp]: "opt_of r = Some x \<longleftrightarrow> r = Inr x"
  by (cases r) auto

text \<open>\<^verbatim>\<open>if (!Get...(...)) return Status::...\<close>: an absent result becomes the given status.\<close>

fun or_status :: "Status \<Rightarrow> 'a option \<Rightarrow> Status + 'a" where
  "or_status s None = Inl s"
| "or_status s (Some x) = Inr x"

lemma opt_of_or_status [simp]: "opt_of (or_status s r) = r"
  by (cases r) auto

lemma or_status_eq_Inr [simp]: "or_status s r = Inr x \<longleftrightarrow> r = Some x"
  by (cases r) auto

lemma or_status_eq_Inl: "or_status s r = Inl e \<longleftrightarrow> r = None \<and> e = s"
  by (cases r) auto

section \<open>Hash maps as association lists\<close>

text \<open>
  \<^verbatim>\<open>std::unordered_map\<close> is a list of key/value pairs with distinct keys; the list order stands
  for the iteration order. \<^verbatim>\<open>emplace\<close> leaves an existing entry alone, \<^verbatim>\<open>operator[]\<close> assignment
  is \<^const>\<open>AList.update\<close>, \<^verbatim>\<open>erase\<close> is \<^const>\<open>AList.delete\<close>, \<^verbatim>\<open>find\<close> is \<^const>\<open>map_of\<close>.
\<close>

definition emplace :: "'k \<Rightarrow> 'v \<Rightarrow> ('k \<times> 'v) list \<Rightarrow> ('k \<times> 'v) list" where
  "emplace k v m = (case map_of m k of None \<Rightarrow> m @ [(k, v)] | Some _ \<Rightarrow> m)"

definition alter :: "'k \<Rightarrow> ('v \<Rightarrow> 'v) \<Rightarrow> ('k \<times> 'v) list \<Rightarrow> ('k \<times> 'v) list" where
  "alter k f m = map (\<lambda>(k', v). (k', if k' = k then f v else v)) m"

abbreviation keys :: "('k \<times> 'v) list \<Rightarrow> 'k list" where
  "keys m \<equiv> map fst m"

lemma map_of_emplace:
  "map_of (emplace k v m) = (case map_of m k of None \<Rightarrow> (map_of m)(k \<mapsto> v) | Some _ \<Rightarrow> map_of m)"
  by (auto simp: emplace_def map_add_def split: option.splits)

lemma map_of_emplace_new [simp]: "map_of m k = None \<Longrightarrow> map_of (emplace k v m) = (map_of m)(k \<mapsto> v)"
  by (simp add: map_of_emplace)

lemma distinct_emplace [simp]: "distinct (keys m) \<Longrightarrow> distinct (keys (emplace k v m))"
  by (auto simp: emplace_def map_of_eq_None_iff split: option.splits)

lemma set_keys_emplace [simp]: "set (keys (emplace k v m)) = insert k (set (keys m))"
proof (cases "map_of m k")
  case None
  then show ?thesis by (simp add: emplace_def)
next
  case (Some a)
  then have "k \<in> set (keys m)" by (metis map_of_eq_None_iff option.discI set_map)
  with Some show ?thesis by (auto simp: emplace_def)
qed

lemma map_of_alter: "map_of (alter k f m) k' = (if k' = k then map_option f (map_of m k) else map_of m k')"
  by (induction m) (auto simp: alter_def)

lemma keys_alter [simp]: "keys (alter k f m) = keys m"
  by (auto simp: alter_def)

lemma map_of_alter_same [simp]: "map_of (alter k f m) k = map_option f (map_of m k)"
  by (simp add: map_of_alter)

lemma map_of_alter_other [simp]: "k' \<noteq> k \<Longrightarrow> map_of (alter k f m) k' = map_of m k'"
  by (simp add: map_of_alter)

lemma alter_absent: "k \<notin> set (keys m) \<Longrightarrow> alter k f m = m"
  by (induction m) (auto simp: alter_def)

lemma length_alter [simp]: "length (alter k f m) = length m"
  by (simp add: alter_def)

lemma map_of_delete_same [simp]: "map_of (AList.delete k m) k = None"
  by (simp add: AList.delete_conv)

lemma map_of_in_set: "map_of m k = Some v \<Longrightarrow> (k, v) \<in> set m"
  by (fact map_of_SomeD)

text \<open>The total weight of the entries, in any commutative group: machine counters included.\<close>

definition wsum :: "('v \<Rightarrow> 'a::ab_group_add) \<Rightarrow> ('k \<times> 'v) list \<Rightarrow> 'a" where
  "wsum g m = sum_list (map (g \<circ> snd) m)"

lemma wsum_Nil [simp]: "wsum g [] = 0"
  by (simp add: wsum_def)

lemma wsum_Cons [simp]: "wsum g (p # m) = g (snd p) + wsum g m"
  by (simp add: wsum_def)

lemma wsum_append [simp]: "wsum g (m @ m') = wsum g m + wsum g m'"
  by (simp add: wsum_def)

lemma wsum_emplace_new: "k \<notin> set (keys m) \<Longrightarrow> wsum g (emplace k v m) = wsum g m + g v"
  by (simp add: emplace_def map_of_eq_None_iff [THEN iffD2])

lemma wsum_alter:
  assumes "distinct (keys m)" "map_of m k = Some v"
  shows "wsum g (alter k f m) = wsum g m - g v + g (f v)"
  using assms
proof (induction m)
  case (Cons p m)
  then show ?case
  proof (cases "fst p = k")
    case True
    with Cons.prems have "k \<notin> set (keys m)" "snd p = v" by (auto split: if_splits)
    then show ?thesis using True alter_absent [of k m f] by (cases p) (simp add: alter_def)
  next
    case False
    then have "wsum g (alter k f m) = wsum g m - g v + g (f v)" using Cons by (cases p) auto
    then show ?thesis using False by (cases p) (simp add: alter_def algebra_simps)
  qed
qed simp

lemma wsum_alter_same:
  assumes "\<And>v. g (f v) = g v"
  shows "wsum g (alter k f m) = wsum g m"
  using assms by (induction m) (auto simp: alter_def)

lemma wsum_delete:
  assumes "distinct (keys m)" "map_of m k = Some v"
  shows "wsum g (AList.delete k m) = wsum g m - g v"
  using assms
proof (induction m)
  case (Cons p m)
  then show ?case
  proof (cases "fst p = k")
    case True
    with Cons.prems have "k \<notin> set (keys m)" "snd p = v" by (auto split: if_splits)
    then show ?thesis using True by (cases p) (simp add: AList.delete_idem image_iff)
  qed (auto split: if_splits)
qed simp

section \<open>Sorting\<close>

text \<open>
  \<^verbatim>\<open>std::sort\<close> with a strict comparison. The library leaves the order of equivalent elements
  open; insertion sort is one of its results, and the lemmas used about it only say that the
  result is an ordered permutation.
\<close>

fun insort_by :: "('a \<Rightarrow> 'a \<Rightarrow> bool) \<Rightarrow> 'a \<Rightarrow> 'a list \<Rightarrow> 'a list" where
  "insort_by lt x [] = [x]"
| "insort_by lt x (y # ys) = (if lt y x then y # insort_by lt x ys else x # y # ys)"

definition sort_by :: "('a \<Rightarrow> 'a \<Rightarrow> bool) \<Rightarrow> 'a list \<Rightarrow> 'a list" where
  "sort_by lt xs = foldr (insort_by lt) xs []"

lemma mset_insort_by [simp]: "mset (insort_by lt x ys) = add_mset x (mset ys)"
  by (induction ys) auto

lemma mset_sort_by [simp]: "mset (sort_by lt xs) = mset xs"
  by (induction xs) (simp_all add: sort_by_def)

lemma set_sort_by [simp]: "set (sort_by lt xs) = set xs"
  by (metis mset_sort_by set_mset_mset)

lemma length_sort_by [simp]: "length (sort_by lt xs) = length xs"
  by (metis mset_sort_by size_mset)

lemma set_insort_by [simp]: "set (insort_by lt x ys) = insert x (set ys)"
  by (induction ys) auto

lemma sorted_insort_by:
  assumes trans: "\<And>x y z. le x y \<Longrightarrow> le y z \<Longrightarrow> le x z"
    and ge: "\<And>x y. \<not> lt y x \<Longrightarrow> le x y" and lt: "\<And>x y. lt x y \<Longrightarrow> le x y"
    and "sorted_wrt le ys"
  shows "sorted_wrt le (insort_by lt x ys)"
  using \<open>sorted_wrt le ys\<close>
proof (induction ys)
  case (Cons y ys)
  show ?case
  proof (cases "lt y x")
    case True
    then show ?thesis using Cons lt by simp
  next
    case False
    then have "le x y" by (rule ge)
    moreover have "\<forall>z \<in> set ys. le x z" using Cons.prems trans [OF \<open>le x y\<close>] by simp
    ultimately show ?thesis using False Cons.prems by simp
  qed
qed simp

lemma sorted_sort_by:
  assumes "\<And>x y z. le x y \<Longrightarrow> le y z \<Longrightarrow> le x z"
    and "\<And>x y. \<not> lt y x \<Longrightarrow> le x y" and "\<And>x y. lt x y \<Longrightarrow> le x y"
  shows "sorted_wrt le (sort_by lt xs)"
proof (induction xs)
  case (Cons x xs)
  show ?case using sorted_insort_by [OF assms Cons] by (simp add: sort_by_def)
qed (simp add: sort_by_def)

section \<open>Words\<close>

lemma word_split_bits:
  fixes v :: "'a::len word"
  shows "(v AND mask n) OR push_bit n (drop_bit n v) = v"
proof (rule bit_word_eqI)
  fix k assume "k < LENGTH('a)"
  then show "bit ((v AND mask n) OR push_bit n (drop_bit n v)) k \<longleftrightarrow> bit v k"
    by (cases "k < n") (auto simp: bit_simps)
qed

lemma unat_drop_bit:
  fixes v :: "'a::len word"
  shows "unat (drop_bit n v) = unat v div 2 ^ n"
  unfolding unat_drop_bit_eq by (rule drop_bit_eq_div)

lemma unat_drop_bit_7_less:
  fixes v :: "'a::len word"
  shows "128 \<le> unat v \<Longrightarrow> unat (drop_bit 7 v) < unat v"
  by (simp add: unat_drop_bit)

lemma bit_128:
  assumes "8 \<le> LENGTH('a::len)"
  shows "bit (128 :: 'a word) k \<longleftrightarrow> k = 7"
proof -
  have "bit (2 ^ 7 :: 'a word) k \<longleftrightarrow> k = 7"
    unfolding bit_exp_iff using assms by auto
  then show ?thesis by simp
qed

end
