(* ===== verification/Coding.thy ===== *)
theory Coding
  imports Prelude
begin

text \<open>
  The byte-level coding layer (\<^verbatim>\<open>util/coding.h\<close>, \<^verbatim>\<open>util/coding.cc\<close> of the bundled RocksDB): little
  endian fixed-width integers, varints and length-prefixed slices. A \<^verbatim>\<open>Slice*\<close> that a
  \<^verbatim>\<open>Get...\<close> function advances is the pair of the decoded value and the bytes left over;
  its \<^verbatim>\<open>false\<close> result is \<^const>\<open>None\<close>. The locale \<^verbatim>\<open>codec\<close> is the contract the record formats
  above this layer rely on.
\<close>

section \<open>The contract of a decoder and its encoder\<close>

locale codec =
  fixes put :: "'a \<Rightarrow> bytes"
    and get :: "bytes \<Rightarrow> ('a \<times> bytes) option"
    and valid :: "'a \<Rightarrow> bool"
  assumes get_put: "valid x \<Longrightarrow> get (put x @ rest) = Some (x, rest)"
    and get_consumes: "get bs = Some (x, rest) \<Longrightarrow> length rest < length bs"
begin

lemma get_put_nil: "valid x \<Longrightarrow> get (put x) = Some (x, [])"
  using get_put [of x "[]"] by simp

lemma put_nonempty: "valid x \<Longrightarrow> put x \<noteq> []"
proof -
  assume "valid x"
  then have "length ([] :: bytes) < length (put x)"
    by (rule get_consumes [OF get_put_nil])
  then show ?thesis by simp
qed

lemma put_prefix_free:
  assumes "valid x" and "valid y" and "put x @ r = put y @ s"
  shows "x = y \<and> r = s"
proof -
  have "Some (x, r) = get (put x @ r)"
    by (rule get_put [OF assms(1), symmetric])
  also have "\<dots> = get (put y @ s)"
    by (simp only: assms(3))
  also have "\<dots> = Some (y, s)"
    by (rule get_put [OF assms(2)])
  finally show ?thesis by simp
qed

lemma put_inj: "valid x \<Longrightarrow> valid y \<Longrightarrow> put x = put y \<Longrightarrow> x = y"
  using put_prefix_free [of x y "[]" "[]"] by simp

end

section \<open>Fixed-width integers\<close>

definition EncodeFixed32 :: "u32 \<Rightarrow> bytes" where
  "EncodeFixed32 v =
     [ucast (v AND 0xff), ucast (drop_bit 8 v AND 0xff),
      ucast (drop_bit 16 v AND 0xff), ucast (drop_bit 24 v AND 0xff)]"

definition EncodeFixed64 :: "u64 \<Rightarrow> bytes" where
  "EncodeFixed64 v =
     [ucast (v AND 0xff), ucast (drop_bit 8 v AND 0xff),
      ucast (drop_bit 16 v AND 0xff), ucast (drop_bit 24 v AND 0xff),
      ucast (drop_bit 32 v AND 0xff), ucast (drop_bit 40 v AND 0xff),
      ucast (drop_bit 48 v AND 0xff), ucast (drop_bit 56 v AND 0xff)]"

definition PutFixed32 :: "bytes \<Rightarrow> u32 \<Rightarrow> bytes" where
  "PutFixed32 dst v = dst @ EncodeFixed32 v"

definition PutFixed64 :: "bytes \<Rightarrow> u64 \<Rightarrow> bytes" where
  "PutFixed64 dst v = dst @ EncodeFixed64 v"

text \<open>
  The decoders read a buffer whose length the caller has checked; a shorter buffer is
  padded with zeros here, which no caller can observe.
\<close>

definition byte_at :: "bytes \<Rightarrow> nat \<Rightarrow> u8" where
  "byte_at p i = (if i < length p then p ! i else 0)"

definition DecodeFixed32 :: "bytes \<Rightarrow> u32" where
  "DecodeFixed32 p =
     ucast (byte_at p 0) OR push_bit 8 (ucast (byte_at p 1))
     OR push_bit 16 (ucast (byte_at p 2)) OR push_bit 24 (ucast (byte_at p 3))"

definition DecodeFixed64 :: "bytes \<Rightarrow> u64" where
  "DecodeFixed64 p =
     (let lo = ucast (DecodeFixed32 p) :: u64;
          hi = ucast (DecodeFixed32 (drop 4 p)) :: u64
      in push_bit 32 hi OR lo)"

definition GetFixed32 :: "bytes \<Rightarrow> (u32 \<times> bytes) option" where
  "GetFixed32 input =
     (if length input < 4 then None else Some (DecodeFixed32 input, drop 4 input))"

definition GetFixed64 :: "bytes \<Rightarrow> (u64 \<times> bytes) option" where
  "GetFixed64 input =
     (if length input < 8 then None else Some (DecodeFixed64 input, drop 8 input))"

lemma length_EncodeFixed32 [simp]: "length (EncodeFixed32 v) = 4"
  by (simp add: EncodeFixed32_def)

lemma length_EncodeFixed64 [simp]: "length (EncodeFixed64 v) = 8"
  by (simp add: EncodeFixed64_def)

lemma mask_ff: "(0xff :: 'a::len word) = mask 8"
  by (simp add: mask_eq_exp_minus_1)

lemma DecodeFixed32_EncodeFixed32 [codec_simps]: "DecodeFixed32 (EncodeFixed32 v @ r) = v"
proof (rule bit_word_eqI)
  fix k assume k: "k < LENGTH(32)"
  then have "k < 8 \<or> 8 \<le> k \<and> k < 16 \<or> 16 \<le> k \<and> k < 24 \<or> 24 \<le> k \<and> k < 32" by auto
  then show "bit (DecodeFixed32 (EncodeFixed32 v @ r)) k \<longleftrightarrow> bit v k"
    unfolding DecodeFixed32_def EncodeFixed32_def byte_at_def mask_ff
    by (elim disjE) (auto simp: bit_simps nth_append)
qed

lemma EncodeFixed64_split:
  "EncodeFixed64 v = EncodeFixed32 (ucast v) @ EncodeFixed32 (ucast (drop_bit 32 v))"
  unfolding EncodeFixed64_def EncodeFixed32_def mask_ff
  by (auto intro!: bit_word_eqI simp: bit_simps add.commute add.left_commute)

lemma DecodeFixed64_EncodeFixed64 [codec_simps]: "DecodeFixed64 (EncodeFixed64 v @ r) = v"
proof -
  have "DecodeFixed64 (EncodeFixed64 v @ r) =
    push_bit 32 (ucast (ucast (drop_bit 32 v) :: u32) :: u64) OR ucast (ucast v :: u32)"
    by (simp add: DecodeFixed64_def EncodeFixed64_split codec_simps)
  also have "\<dots> = v"
  proof (rule bit_word_eqI)
    fix k assume "k < LENGTH(64)"
    then show "bit (push_bit 32 (ucast (ucast (drop_bit 32 v) :: u32) :: u64) OR ucast (ucast v :: u32)) k
        \<longleftrightarrow> bit v k"
      by (cases "k < 32") (auto simp: bit_simps)
  qed
  finally show ?thesis .
qed

interpretation fixed32: codec EncodeFixed32 GetFixed32 "\<lambda>_. True"
  by unfold_locales (auto simp: GetFixed32_def codec_simps split: if_splits)

interpretation fixed64: codec EncodeFixed64 GetFixed64 "\<lambda>_. True"
  by unfold_locales (auto simp: GetFixed64_def codec_simps split: if_splits)

section \<open>Varints\<close>

text \<open>
  The reference encoding: seven bits per byte, least significant first, the high bit set on
  every byte but the last. The code has one loop for 64 bits, an unrolled encoder for 32 bits
  and two decoders with their own shift limits; each is proved equal to this reference.
\<close>

function leb128_put :: "'a::len word \<Rightarrow> bytes" where
  "leb128_put v =
     (if 128 \<le> unat v then ucast ((v AND 127) OR 128) # leb128_put (drop_bit 7 v)
      else [ucast v])"
  by pat_completeness auto
termination
  by (relation "measure unat") (auto simp: unat_drop_bit_7_less)

declare leb128_put.simps [simp del]

fun leb128_get :: "nat \<Rightarrow> bytes \<Rightarrow> nat \<Rightarrow> 'a::len word \<Rightarrow> ('a word \<times> bytes) option" where
  "leb128_get maxshift [] shift result = None"
| "leb128_get maxshift (b # p) shift result =
     (if maxshift < shift then None
      else if b AND 128 \<noteq> 0
      then leb128_get maxshift p (shift + 7) (result OR push_bit shift (ucast b AND 127))
      else Some (result OR push_bit shift (ucast b), p))"

definition EncodeVarint32 :: "u32 \<Rightarrow> bytes" where
  "EncodeVarint32 v =
     (let B = 128 in
      if v < push_bit 7 1 then [ucast v]
      else if v < push_bit 14 1 then [ucast (v OR B), ucast (drop_bit 7 v)]
      else if v < push_bit 21 1 then
        [ucast (v OR B), ucast (drop_bit 7 v OR B), ucast (drop_bit 14 v)]
      else if v < push_bit 28 1 then
        [ucast (v OR B), ucast (drop_bit 7 v OR B), ucast (drop_bit 14 v OR B),
         ucast (drop_bit 21 v)]
      else
        [ucast (v OR B), ucast (drop_bit 7 v OR B), ucast (drop_bit 14 v OR B),
         ucast (drop_bit 21 v OR B), ucast (drop_bit 28 v)])"

function EncodeVarint64 :: "u64 \<Rightarrow> bytes" where
  "EncodeVarint64 v =
     (if v \<ge> 128 then ucast ((v AND (128 - 1)) OR 128) # EncodeVarint64 (drop_bit 7 v)
      else [ucast v])"
  by pat_completeness auto
termination
  by (relation "measure unat") (auto simp: unat_drop_bit_7_less word_le_nat_alt)

declare EncodeVarint64.simps [simp del]

function VarintLength :: "u64 \<Rightarrow> nat" where
  "VarintLength v = (if v \<ge> 128 then VarintLength (drop_bit 7 v) + 1 else 1)"
  by pat_completeness auto
termination
  by (relation "measure unat") (auto simp: unat_drop_bit_7_less word_le_nat_alt)

declare VarintLength.simps [simp del]

definition PutVarint32 :: "bytes \<Rightarrow> u32 \<Rightarrow> bytes" where
  "PutVarint32 dst v = dst @ EncodeVarint32 v"

definition PutVarint64 :: "bytes \<Rightarrow> u64 \<Rightarrow> bytes" where
  "PutVarint64 dst v = dst @ EncodeVarint64 v"

definition PutVarint32Varint32 :: "bytes \<Rightarrow> u32 \<Rightarrow> u32 \<Rightarrow> bytes" where
  "PutVarint32Varint32 dst v1 v2 = dst @ EncodeVarint32 v1 @ EncodeVarint32 v2"

definition PutVarint32Varint64 :: "bytes \<Rightarrow> u32 \<Rightarrow> u64 \<Rightarrow> bytes" where
  "PutVarint32Varint64 dst v1 v2 = dst @ EncodeVarint32 v1 @ EncodeVarint64 v2"

definition PutVarint64Varint64 :: "bytes \<Rightarrow> u64 \<Rightarrow> u64 \<Rightarrow> bytes" where
  "PutVarint64Varint64 dst v1 v2 = dst @ EncodeVarint64 v1 @ EncodeVarint64 v2"

fun GetVarint32PtrFallback :: "bytes \<Rightarrow> nat \<Rightarrow> u32 \<Rightarrow> (u32 \<times> bytes) option" where
  "GetVarint32PtrFallback [] shift result = None"
| "GetVarint32PtrFallback (b # p) shift result =
     (if shift \<le> 28
      then (if ucast b AND (128 :: u32) \<noteq> 0
            then GetVarint32PtrFallback p (shift + 7)
                   (result OR push_bit shift (ucast b AND 127))
            else Some (result OR push_bit shift (ucast b), p))
      else None)"

definition GetVarint32 :: "bytes \<Rightarrow> (u32 \<times> bytes) option" where
  "GetVarint32 input =
     (case input of
        b # p \<Rightarrow> (if ucast b AND (128 :: u32) = 0 then Some (ucast b, p)
                  else GetVarint32PtrFallback input 0 0)
      | [] \<Rightarrow> GetVarint32PtrFallback input 0 0)"

fun GetVarint64Ptr :: "bytes \<Rightarrow> nat \<Rightarrow> u64 \<Rightarrow> (u64 \<times> bytes) option" where
  "GetVarint64Ptr [] shift result = None"
| "GetVarint64Ptr (b # p) shift result =
     (if shift \<le> 63
      then (if ucast b AND (128 :: u64) \<noteq> 0
            then GetVarint64Ptr p (shift + 7) (result OR push_bit shift (ucast b AND 127))
            else Some (result OR push_bit shift (ucast b), p))
      else None)"

definition GetVarint64 :: "bytes \<Rightarrow> (u64 \<times> bytes) option" where
  "GetVarint64 input = GetVarint64Ptr input 0 0"

subsection \<open>The code's routines compute the reference\<close>

lemma mask_7f: "(0x7f :: 'a::len word) = mask 7"
  by (simp add: mask_eq_exp_minus_1)

lemma and_128_eq_0_iff: "(w :: 'a::len word) AND 128 = 0 \<longleftrightarrow> \<not> bit w 7"
  using and_exp_eq_0_iff_not_bit [of w 7] by simp

lemma high_bit_iff: "b AND (128 :: u8) = 0 \<longleftrightarrow> \<not> bit b 7"
  by (rule and_128_eq_0_iff)

lemma high_bit_ucast_iff:
  "8 \<le> LENGTH('a::len) \<Longrightarrow> ucast (b :: u8) AND (128 :: 'a word) = 0 \<longleftrightarrow> \<not> bit b 7"
  unfolding and_128_eq_0_iff by (simp only: bit_ucast_iff) simp

lemma EncodeVarint64_eq_leb128: "EncodeVarint64 v = leb128_put v"
proof (induction v rule: EncodeVarint64.induct)
  case (1 v)
  then show ?case
    by (simp add: EncodeVarint64.simps [of v] leb128_put.simps [of v] word_le_nat_alt)
qed

lemma leb128_put_small: "unat v < 128 \<Longrightarrow> leb128_put v = [ucast v]"
  by (subst leb128_put.simps) simp

lemma leb128_put_big:
  "128 \<le> unat v \<Longrightarrow> leb128_put v = ucast ((v AND 127) OR 128) # leb128_put (drop_bit 7 v)"
  by (subst leb128_put.simps) simp

lemma ucast_low7: "ucast ((v AND 127) OR 128 :: u32) = (ucast (v OR 128) :: u8)"
proof (rule bit_word_eqI)
  fix n assume n: "n < LENGTH(8)"
  then have "n < 7 \<or> n = 7" by auto
  with n show "bit (ucast ((v AND 127) OR 128 :: u32) :: u8) n = bit (ucast (v OR 128) :: u8) n"
    unfolding mask_7f by (auto simp: bit_ucast_iff bit_or_iff bit_and_iff bit_mask_iff bit_128)
qed

lemma EncodeVarint32_eq_leb128: "EncodeVarint32 v = leb128_put v"
proof -
  have sh: "push_bit 7 1 = (128 :: u32)" "push_bit 14 1 = (16384 :: u32)"
    "push_bit 21 1 = (2097152 :: u32)" "push_bit 28 1 = (268435456 :: u32)"
    by (simp_all add: push_bit_eq_mult)
  have d: "unat (drop_bit n v) = unat v div 2 ^ n" for n
    by (rule unat_drop_bit)
  have dd: "drop_bit 7 (drop_bit n v) = drop_bit (n + 7) v" for n
    by (simp add: add.commute)
  have step: "leb128_put (drop_bit n v) = (if unat v < 128 * 2 ^ n then [ucast (drop_bit n v)]
      else ucast (drop_bit n v OR 128) # leb128_put (drop_bit (n + 7) v))" for n
  proof (cases "unat v < 128 * 2 ^ n")
    case True
    then show ?thesis
      using leb128_put_small [of "drop_bit n v"] by (simp add: d div_less_iff_less_mult)
  next
    case False
    then have "128 \<le> unat v div 2 ^ n" by (simp add: less_eq_div_iff_mult_less_eq)
    with False show ?thesis
      using leb128_put_big [of "drop_bit n v"] by (simp add: d dd ucast_low7 add.commute)
  qed
  have last: "unat v < 128 * 2 ^ 28"
  proof -
    have "unat v < 2 ^ LENGTH(32)" by (rule unsigned_less)
    then show ?thesis by simp
  qed
  show ?thesis
    using step [of 0] step [of 7] step [of 14] step [of 21] step [of 28] last
    by (simp only: EncodeVarint32_def sh word_less_nat_alt) simp
qed

lemma GetVarint32PtrFallback_eq_leb128: "GetVarint32PtrFallback p shift r = leb128_get 28 p shift r"
  by (induction p arbitrary: shift r) (simp_all add: high_bit_iff high_bit_ucast_iff not_le)

lemma GetVarint64Ptr_eq_leb128: "GetVarint64Ptr p shift r = leb128_get 63 p shift r"
  by (induction p arbitrary: shift r) (simp_all add: high_bit_iff high_bit_ucast_iff not_le)

lemma GetVarint32_eq_leb128: "GetVarint32 input = leb128_get 28 input 0 0"
  by (simp add: GetVarint32_def GetVarint32PtrFallback_eq_leb128 high_bit_iff high_bit_ucast_iff
      split: list.split)

lemma GetVarint64_eq_leb128: "GetVarint64 input = leb128_get 63 input 0 0"
  by (simp add: GetVarint64_def GetVarint64Ptr_eq_leb128)

subsection \<open>Round trips\<close>

lemma leb128_low_byte:
  assumes "8 \<le> LENGTH('a::len)"
  shows "ucast (ucast ((v AND 127) OR 128 :: 'a word) :: u8) AND (127 :: 'a word) = v AND mask 7"
proof (rule bit_word_eqI)
  fix n
  show "bit (ucast (ucast ((v AND 127) OR 128 :: 'a word) :: u8) AND (127 :: 'a word)) n
    = bit (v AND mask 7) n"
    using bit_128 [OF assms, of n] assms unfolding mask_7f
    by (auto simp: bit_ucast_iff bit_or_iff bit_and_iff bit_mask_iff)
qed

lemma leb128_cont_byte:
  assumes "8 \<le> LENGTH('a::len)"
  shows "(ucast ((v AND 127) OR 128 :: 'a word) :: u8) AND 128 \<noteq> 0"
  using assms by (simp add: high_bit_iff bit_ucast_iff bit_or_iff bit_128)

lemma leb128_last_byte:
  assumes "8 \<le> LENGTH('a::len)" "unat (v :: 'a word) < 128"
  shows "(ucast v :: u8) AND 128 = 0" "ucast (ucast v :: u8) = v"
proof -
  have v: "take_bit 7 v = v"
    using assms(2) by (simp add: word_unat_eq_iff unsigned_take_bit_eq take_bit_nat_eq_self)
  show "(ucast v :: u8) AND 128 = 0"
    by (subst v [symmetric]) (simp add: high_bit_iff bit_ucast_iff bit_take_bit_iff)
  show "ucast (ucast v :: u8) = v"
    by (subst (1 2) v [symmetric], rule bit_word_eqI)
      (use assms(1) in \<open>auto simp: bit_ucast_iff bit_take_bit_iff\<close>)
qed

lemma leb128_get_put:
  fixes v :: "'a::len word"
  assumes "8 \<le> LENGTH('a)" "maxshift = 7 * ((LENGTH('a) - 1) div 7)" "shift = 7 * k" "shift \<le> maxshift"
    and "unat v < 2 ^ (LENGTH('a) - shift)"
  shows "leb128_get maxshift (leb128_put v @ rest) shift r = Some (r OR push_bit shift v, rest)"
  using assms(3-)
proof (induction v arbitrary: shift k r rule: leb128_put.induct)
  case (1 v)
  show ?case
  proof (cases "128 \<le> unat v")
    case False
    then show ?thesis
      using 1 assms by (simp add: leb128_put_small leb128_last_byte)
  next
    case True
    have "(2 :: nat) ^ 7 < 2 ^ (LENGTH('a) - shift)" using True 1(4) by simp
    then have L: "7 < LENGTH('a) - shift" by (rule power_less_imp_less_exp [rotated]) simp
    then have "k + 1 \<le> (LENGTH('a) - 1) div 7"
      using 1(2) by (simp add: less_eq_div_iff_mult_less_eq)
    then have le: "shift + 7 \<le> maxshift" using 1(2) assms(2) by simp
    have b: "unat (drop_bit 7 v) < 2 ^ (LENGTH('a) - (shift + 7))"
    proof -
      have "(2 :: nat) ^ (LENGTH('a) - shift) = 2 ^ (LENGTH('a) - (shift + 7)) * 2 ^ 7"
        using L by (simp only: flip: power_add) simp
      then show ?thesis using 1(4) by (simp add: unat_drop_bit less_mult_imp_div_less)
    qed
    have v: "(v AND mask 7) OR push_bit 7 (drop_bit 7 v) = v"
      by (rule word_split_bits)
    have "push_bit shift (v AND mask 7) OR push_bit (shift + 7) (drop_bit 7 v) = push_bit shift v"
      by (subst (3) v [symmetric]) (simp add: push_bit_or)
    then show ?thesis
      using 1(1) [OF True, of "shift + 7" "k + 1"] 1(2,3) le b assms(1)
      by (simp add: leb128_put_big [OF True] leb128_cont_byte leb128_low_byte or.assoc)
  qed
qed

lemma leb128_get_consumes:
  "leb128_get maxshift p shift r = Some (v, rest) \<Longrightarrow> length rest < length p"
  by (induction maxshift p shift r rule: leb128_get.induct) (fastforce split: if_splits)+

lemma leb128_put_nonempty: "leb128_put v \<noteq> []"
  by (subst leb128_put.simps) simp

lemma GetVarint32_EncodeVarint32 [codec_simps]: "GetVarint32 (EncodeVarint32 v @ r) = Some (v, r)"
proof -
  have "unat v < 2 ^ LENGTH(32)" by (rule unsigned_less)
  then show ?thesis
    using leb128_get_put [of 28 0 0 v r 0] by (simp add: GetVarint32_eq_leb128 EncodeVarint32_eq_leb128)
qed

lemma GetVarint64_EncodeVarint64 [codec_simps]: "GetVarint64 (EncodeVarint64 v @ r) = Some (v, r)"
proof -
  have "unat v < 2 ^ LENGTH(64)" by (rule unsigned_less)
  then show ?thesis
    using leb128_get_put [of 63 0 0 v r 0] by (simp add: GetVarint64_eq_leb128 EncodeVarint64_eq_leb128)
qed

interpretation varint32: codec EncodeVarint32 GetVarint32 "\<lambda>_. True"
  by unfold_locales
    (rule GetVarint32_EncodeVarint32, simp add: GetVarint32_eq_leb128 leb128_get_consumes)

interpretation varint64: codec EncodeVarint64 GetVarint64 "\<lambda>_. True"
  by unfold_locales
    (rule GetVarint64_EncodeVarint64, simp add: GetVarint64_eq_leb128 leb128_get_consumes)

subsection \<open>Lengths\<close>

lemma length_leb128_put:
  "unat v < 128 ^ Suc n \<Longrightarrow> length (leb128_put v) \<le> Suc n"
proof (induction n arbitrary: v)
  case 0
  then show ?case by (simp add: leb128_put_small)
next
  case (Suc n)
  show ?case
  proof (cases "128 \<le> unat v")
    case True
    have "unat (drop_bit 7 v) < 128 ^ Suc n"
      using Suc.prems by (simp add: unat_drop_bit less_mult_imp_div_less)
    then show ?thesis using Suc.IH True by (simp add: leb128_put_big)
  qed (simp add: leb128_put_small)
qed

lemma length_EncodeVarint32: "length (EncodeVarint32 v) \<le> 5"
proof -
  have "unat v < 2 ^ LENGTH(32)" by (rule unsigned_less)
  then show ?thesis using length_leb128_put [of v 4] by (simp add: EncodeVarint32_eq_leb128)
qed

lemma length_EncodeVarint64: "length (EncodeVarint64 v) \<le> 10"
proof -
  have "unat v < 2 ^ LENGTH(64)" by (rule unsigned_less)
  then show ?thesis using length_leb128_put [of v 9] by (simp add: EncodeVarint64_eq_leb128)
qed

lemma VarintLength_eq: "VarintLength v = length (EncodeVarint64 v)"
proof (induction v rule: VarintLength.induct)
  case (1 v)
  then show ?case by (simp add: VarintLength.simps [of v] EncodeVarint64.simps [of v])
qed

section \<open>Length-prefixed slices\<close>

text \<open>
  The length is cast to 32 bits before it is written, so the round trip holds for slices of
  less than 4 GiB.
\<close>

definition PutLengthPrefixedSlice :: "bytes \<Rightarrow> bytes \<Rightarrow> bytes" where
  "PutLengthPrefixedSlice dst v = PutVarint32 dst (word_of_nat (length v)) @ v"

definition GetLengthPrefixedSlice :: "bytes \<Rightarrow> (bytes \<times> bytes) option" where
  "GetLengthPrefixedSlice input =
     (case GetVarint32 input of
        Some (len, input) \<Rightarrow>
          (if unat len \<le> length input then Some (take (unat len) input, drop (unat len) input)
           else None)
      | None \<Rightarrow> None)"

abbreviation slice_ok :: "bytes \<Rightarrow> bool" where
  "slice_ok s \<equiv> length s < 2 ^ 32"

lemma unat_word_of_length: "slice_ok s \<Longrightarrow> unat (word_of_nat (length s) :: u32) = length s"
  by (simp add: unat_of_nat take_bit_nat_eq_self)

lemma GetLengthPrefixedSlice_Put [codec_simps]:
  "slice_ok s \<Longrightarrow> GetLengthPrefixedSlice (PutLengthPrefixedSlice [] s @ r) = Some (s, r)"
  by (simp add: GetLengthPrefixedSlice_def PutLengthPrefixedSlice_def PutVarint32_def codec_simps
      unat_word_of_length)

lemma GetLengthPrefixedSlice_consumes:
  "GetLengthPrefixedSlice p = Some (s, rest) \<Longrightarrow> length rest < length p"
  by (auto simp: GetLengthPrefixedSlice_def split: option.splits if_splits
      dest!: varint32.get_consumes)

interpretation lp_slice: codec "PutLengthPrefixedSlice []" GetLengthPrefixedSlice slice_ok
  by unfold_locales (rule GetLengthPrefixedSlice_Put GetLengthPrefixedSlice_consumes; assumption)+

text \<open>The appending forms are the encoders after the destination.\<close>

lemma put_append [codec_simps]:
  "PutFixed32 dst a = dst @ EncodeFixed32 a"
  "PutFixed64 dst b = dst @ EncodeFixed64 b"
  "PutVarint32 dst a = dst @ EncodeVarint32 a"
  "PutVarint64 dst b = dst @ EncodeVarint64 b"
  "PutVarint32Varint32 dst a c = dst @ EncodeVarint32 a @ EncodeVarint32 c"
  "PutVarint32Varint64 dst a b = dst @ EncodeVarint32 a @ EncodeVarint64 b"
  "PutVarint64Varint64 dst b d = dst @ EncodeVarint64 b @ EncodeVarint64 d"
  by (simp_all add: PutFixed32_def PutFixed64_def PutVarint32_def PutVarint64_def
      PutVarint32Varint32_def PutVarint32Varint64_def PutVarint64Varint64_def)

lemma PutLengthPrefixedSlice_append [codec_simps]:
  "PutLengthPrefixedSlice dst s = dst @ EncodeVarint32 (word_of_nat (length s)) @ s"
  by (simp add: PutLengthPrefixedSlice_def PutVarint32_def)

lemma GetLengthPrefixedSlice_Encode [codec_simps]:
  "slice_ok s \<Longrightarrow>
   GetLengthPrefixedSlice (EncodeVarint32 (word_of_nat (length s)) @ s @ r) = Some (s, r)"
  using GetLengthPrefixedSlice_Put [of s r] by (simp add: PutLengthPrefixedSlice_append)

section \<open>Properties\<close>

lemma leb128_put_ucast:
  "leb128_put (ucast (v :: u32) :: u64) = leb128_put v"
proof (induction v rule: leb128_put.induct)
  case (1 v)
  have "unat v < 2 ^ LENGTH(32)" by (rule unsigned_less)
  then have u: "unat (ucast v :: u64) = unat v"
    by (simp add: unsigned_ucast_eq take_bit_nat_eq_self)
  have d: "drop_bit 7 (ucast v :: u64) = ucast (drop_bit 7 v)"
    by (rule bit_word_eqI) (auto simp: bit_drop_bit_eq bit_ucast_iff dest: bit_imp_le_length)
  show ?case
  proof (cases "128 \<le> unat v")
    case True
    have b: "ucast (((ucast v :: u64) AND 127) OR 128) = (ucast ((v AND 127) OR 128) :: u8)"
    proof (rule bit_word_eqI)
      fix n assume "n < LENGTH(8)"
      then show "bit (ucast (((ucast v :: u64) AND 127) OR 128) :: u8) n
          = bit (ucast ((v AND 127) OR 128) :: u8) n"
        unfolding mask_7f by (auto simp: bit_ucast_iff bit_or_iff bit_and_iff bit_mask_iff bit_128)
    qed
    show ?thesis
      using 1 True b unfolding leb128_put_big [OF True] leb128_put_big [of "ucast v :: u64", unfolded u, OF True] d
      by simp
  next
    case False
    then show ?thesis
      by (simp add: leb128_put_small u) (rule bit_word_eqI, simp add: bit_ucast_iff)
  qed
qed

text \<open>
  C32. Varint64: every 64-bit value, encoded and followed by arbitrary bytes, is decoded back
  with exactly those bytes left over; the encoding has the length \<^verbatim>\<open>VarintLength\<close> announces,
  between 1 and 10 bytes.
\<close>

theorem varint64_roundtrip:
  "GetVarint64 (PutVarint64 [] v @ rest) = Some (v, rest) \<and>
   length (PutVarint64 dst v) = length dst + VarintLength v \<and>
   1 \<le> VarintLength v \<and> VarintLength v \<le> 10"
  using varint64.put_nonempty [of v] length_EncodeVarint64 [of v]
  by (simp add: PutVarint64_def VarintLength_eq GetVarint64_EncodeVarint64 Suc_leI)

text \<open>
  The unrolled 32-bit encoder writes the same bytes as the 64-bit loop on the widened
  value, so either decoder reads it back.
\<close>

theorem varint32_encoder_equiv:
  "EncodeVarint32 v = EncodeVarint64 (ucast v) \<and>
   GetVarint32 (EncodeVarint64 (ucast v) @ rest) = Some (v, rest) \<and>
   GetVarint64 (EncodeVarint32 v @ rest) = Some (ucast v, rest) \<and> length (EncodeVarint32 v) \<le> 5"
proof -
  have "EncodeVarint32 v = EncodeVarint64 (ucast v)"
    by (simp add: EncodeVarint32_eq_leb128 EncodeVarint64_eq_leb128 leb128_put_ucast)
  then show ?thesis
    using GetVarint32_EncodeVarint32 [of v rest] GetVarint64_EncodeVarint64 [of "ucast v" rest]
      length_EncodeVarint32 [of v] by simp
qed

text \<open>
  Length-prefixed slices are a prefix code: two byte strings that start with the encodings
  of two slices are equal only if the slices and the remainders are.
\<close>

theorem length_prefixed_prefix_free:
  assumes "slice_ok s" "slice_ok t" "PutLengthPrefixedSlice [] s @ r = PutLengthPrefixedSlice [] t @ r'"
  shows "s = t \<and> r = r'"
  using lp_slice.put_prefix_free [OF assms] .

theorem length_prefixed_prefix_free_witness:
  "PutLengthPrefixedSlice [] [7, 8] @ [1] = [2, 7, 8, 1] \<and>
   (\<exists>s r. s = [7, 8] \<and> r = [1] \<and> PutLengthPrefixedSlice [] s @ r = [2, 7, 8, 1])"
proof -
  have e: "PutLengthPrefixedSlice [] [7, 8] @ [1] = [2, 7, 8, 1]" by code_simp
  have "[7, 8 :: u8] = [7, 8] \<and> [1 :: u8] = [1]"
    by (rule length_prefixed_prefix_free) simp_all
  then show ?thesis using e by blast
qed

end
