(* ===== verification/Blob_Format.thy ===== *)
theory Blob_Format
  imports Coding
begin

text \<open>
  The on-disk formats of \<^verbatim>\<open>blob_format.h/.cc\<close>: blob records with their compressed and
  checksummed framing, blob handles, blob indexes, the header and the footer of a blob file,
  the \<^verbatim>\<open>BlockHandle\<close> of \<^verbatim>\<open>table/format.cc\<close> the footer embeds, and the compression front end
  of \<^verbatim>\<open>util.cc\<close>. An \<^verbatim>\<open>EncodeTo(dst)\<close> is the function from the bytes already in \<^verbatim>\<open>dst\<close> to the bytes
  after the call; a \<^verbatim>\<open>DecodeFrom(src)\<close> returns the decoded object with the rest of the slice,
  or the status of the failure.

  The compression libraries and the checksum are parameters: the former are third-party
  packages, the latter picks a CPU-specific routine at run time. Every lemma on the checksum
  holds for an arbitrary function in its place.
\<close>

section \<open>Constants\<close>

abbreviation (input) kBlobHeaderSize :: nat where "kBlobHeaderSize \<equiv> 8"
abbreviation (input) kRecordHeaderSize :: nat where "kRecordHeaderSize \<equiv> 9"
abbreviation (input) BlockHandle_kMaxEncodedLength :: nat where "BlockHandle_kMaxEncodedLength \<equiv> 10 + 10"
abbreviation (input) kBlobFooterSize :: nat where "kBlobFooterSize \<equiv> BlockHandle_kMaxEncodedLength + 8 + 4"
abbreviation (input) kSorted :: u32 where "kSorted \<equiv> 0"
abbreviation (input) kUnSorted :: u32 where "kUnSorted \<equiv> 1"

abbreviation (input) kNoCompression :: u8 where "kNoCompression \<equiv> 0"
abbreviation (input) kSnappyCompression :: u8 where "kSnappyCompression \<equiv> 1"
abbreviation (input) kZlibCompression :: u8 where "kZlibCompression \<equiv> 2"
abbreviation (input) kBZip2Compression :: u8 where "kBZip2Compression \<equiv> 3"
abbreviation (input) kLZ4Compression :: u8 where "kLZ4Compression \<equiv> 4"
abbreviation (input) kLZ4HCCompression :: u8 where "kLZ4HCCompression \<equiv> 5"
abbreviation (input) kXpressCompression :: u8 where "kXpressCompression \<equiv> 6"
abbreviation (input) kZSTD :: u8 where "kZSTD \<equiv> 7"
abbreviation (input) kZSTDNotFinalCompression :: u8 where "kZSTDNotFinalCompression \<equiv> 0x40"

section \<open>Compression front end\<close>

text \<open>
  The third-party compressors: each compresses to \<^const>\<open>None\<close> when the library is not linked
  in or fails, and each decompressor returns \<^const>\<open>None\<close> on corrupted input.
\<close>

record compression_libs =
  Snappy_Compress :: "bytes \<Rightarrow> bytes option"
  Zlib_Compress :: "bytes \<Rightarrow> bytes option"
  BZip2_Compress :: "bytes \<Rightarrow> bytes option"
  LZ4_Compress :: "bytes \<Rightarrow> bytes option"
  LZ4HC_Compress :: "bytes \<Rightarrow> bytes option"
  XPRESS_Compress :: "bytes \<Rightarrow> bytes option"
  ZSTD_Compress :: "bytes \<Rightarrow> bytes option"
  Snappy_GetUncompressedLength :: "bytes \<Rightarrow> nat option"
  Snappy_Uncompress :: "bytes \<Rightarrow> bytes option"
  Zlib_Uncompress :: "bytes \<Rightarrow> bytes option"
  BZip2_Uncompress :: "bytes \<Rightarrow> bytes option"
  LZ4_Uncompress :: "bytes \<Rightarrow> bytes option"
  XPRESS_Uncompress :: "bytes \<Rightarrow> bytes option"
  ZSTD_Uncompress :: "bytes \<Rightarrow> bytes option"

definition GoodCompressionRatio :: "nat \<Rightarrow> nat \<Rightarrow> bool" where
  "GoodCompressionRatio compressed_size raw_size \<longleftrightarrow> compressed_size < raw_size - raw_size div 8"

definition compress_if_good :: "(bytes \<Rightarrow> bytes option) \<Rightarrow> u8 \<Rightarrow> bytes \<Rightarrow> bytes \<times> u8" where
  "compress_if_good lib type input =
     (case lib input of
        Some output \<Rightarrow> (if GoodCompressionRatio (length output) (length input)
                        then (output, type) else (input, kNoCompression))
      | None \<Rightarrow> (input, kNoCompression))"

definition Compress :: "compression_libs \<Rightarrow> u8 \<Rightarrow> bytes \<Rightarrow> bytes \<times> u8" where
  "Compress L type input =
     (if type = kNoCompression then (input, kNoCompression)
      else if type = kSnappyCompression then compress_if_good (Snappy_Compress L) type input
      else if type = kZlibCompression then compress_if_good (Zlib_Compress L) type input
      else if type = kBZip2Compression then compress_if_good (BZip2_Compress L) type input
      else if type = kLZ4Compression then compress_if_good (LZ4_Compress L) type input
      else if type = kLZ4HCCompression then compress_if_good (LZ4HC_Compress L) type input
      else if type = kXpressCompression then compress_if_good (XPRESS_Compress L) type input
      else if type = kZSTD \<or> type = kZSTDNotFinalCompression
      then compress_if_good (ZSTD_Compress L) type input
      else (input, kNoCompression))"

definition Uncompress :: "compression_libs \<Rightarrow> u8 \<Rightarrow> bytes \<Rightarrow> Status + bytes" where
  "Uncompress L type input =
     (if type = kSnappyCompression then
        or_status Corruption
          (do { usize \<leftarrow> Snappy_GetUncompressedLength L input;
                ubuf \<leftarrow> Snappy_Uncompress L input;
                Some (take usize ubuf) })
      else if type = kZlibCompression then or_status Corruption (Zlib_Uncompress L input)
      else if type = kBZip2Compression then or_status Corruption (BZip2_Uncompress L input)
      else if type = kLZ4Compression then or_status Corruption (LZ4_Uncompress L input)
      else if type = kLZ4HCCompression then or_status Corruption (LZ4_Uncompress L input)
      else if type = kXpressCompression then or_status Corruption (XPRESS_Uncompress L input)
      else if type = kZSTD \<or> type = kZSTDNotFinalCompression
      then or_status Corruption (ZSTD_Uncompress L input)
      else Inl Corruption)"

section \<open>Blob records\<close>

record BlobRecord =
  rec_key :: bytes
  rec_value :: bytes
  only_value :: bool

definition BlobRecord_EncodeTo :: "BlobRecord \<Rightarrow> bytes \<Rightarrow> bytes" where
  "BlobRecord_EncodeTo r dst =
     (if only_value r then dst @ rec_value r
      else PutLengthPrefixedSlice (PutLengthPrefixedSlice dst (rec_key r)) (rec_value r))"

text \<open>\<^verbatim>\<open>DecodeFrom\<close> reads the \<^verbatim>\<open>only_value\<close> flag of the record the caller passes in.\<close>

definition BlobRecord_DecodeFrom :: "BlobRecord \<Rightarrow> bytes \<Rightarrow> Status + (BlobRecord \<times> bytes)" where
  "BlobRecord_DecodeFrom r src =
     (if only_value r then Inr (r\<lparr>rec_value := src\<rparr>, [])
      else or_status Corruption
        (do { (k, src) \<leftarrow> GetLengthPrefixedSlice src;
              (v, src) \<leftarrow> GetLengthPrefixedSlice src;
              Some (r\<lparr>rec_key := k, rec_value := v\<rparr>, src) }))"

definition BlobRecord_size :: "BlobRecord \<Rightarrow> nat" where
  "BlobRecord_size r = length (rec_key r) + length (rec_value r)"

definition BlobRecord_eq :: "BlobRecord \<Rightarrow> BlobRecord \<Rightarrow> bool" where
  "BlobRecord_eq l r \<longleftrightarrow> rec_key l = rec_key r \<and> rec_value l = rec_value r"

definition DecodeInto :: "(bytes \<Rightarrow> Status + ('a \<times> bytes)) \<Rightarrow> bytes \<Rightarrow> Status + 'a" where
  "DecodeInto decode src =
     (case decode src of
        Inl s \<Rightarrow> Inl s
      | Inr (x, tmp) \<Rightarrow> (if tmp \<noteq> [] then Inl Corruption else Inr x))"

section \<open>Record framing\<close>

text \<open>
  The encoder's header is 9 bytes: checksum, size, compression. \<open>Extend\<close> is
  \<^verbatim>\<open>crc32c::Extend\<close>; \<^verbatim>\<open>crc32c::Value\<close> is its value from zero.
\<close>

type_synonym checksum = "u32 \<Rightarrow> bytes \<Rightarrow> u32"

definition GetChar :: "bytes \<Rightarrow> (u8 \<times> bytes) option" where
  "GetChar src = (case src of [] \<Rightarrow> None | c # src \<Rightarrow> Some (c, src))"

record BlobEncoder =
  enc_compression :: u8
  enc_header :: bytes
  enc_record :: bytes

definition EncodeRecord ::
  "compression_libs \<Rightarrow> checksum \<Rightarrow> BlobEncoder \<Rightarrow> BlobRecord \<Rightarrow> BlobEncoder" where
  "EncodeRecord L Extend e r =
     (let (rcd, compression) = Compress L (enc_compression e) (BlobRecord_EncodeTo r []);
          tail = EncodeFixed32 (word_of_nat (length rcd)) @ [compression];
          crc = Extend (Extend 0 tail) rcd
      in e\<lparr>enc_header := EncodeFixed32 crc @ tail, enc_record := rcd\<rparr>)"

definition GetEncodedSize :: "BlobEncoder \<Rightarrow> nat" where
  "GetEncodedSize e = kRecordHeaderSize + length (enc_record e)"

record BlobDecoder =
  dec_crc :: u32
  dec_header_crc :: u32
  dec_record_size :: u32
  dec_compression :: u8

definition new_BlobDecoder :: BlobDecoder where
  "new_BlobDecoder =
     \<lparr>dec_crc = 0, dec_header_crc = 0, dec_record_size = 0, dec_compression = kNoCompression\<rparr>"

definition DecodeHeader :: "checksum \<Rightarrow> bytes \<Rightarrow> Status + (BlobDecoder \<times> bytes)" where
  "DecodeHeader Extend src =
     or_status Corruption
       (do { (crc, src) \<leftarrow> GetFixed32 src;
             let header_crc = Extend 0 (take (kRecordHeaderSize - 4) src);
             (record_size, src) \<leftarrow> GetFixed32 src;
             (compression, src) \<leftarrow> GetChar src;
             Some (\<lparr>dec_crc = crc, dec_header_crc = header_crc, dec_record_size = record_size,
                    dec_compression = compression\<rparr>, src) })"

text \<open>
  The slice handed to \<^verbatim>\<open>DecodeRecord\<close> is cut at the record size of the header without a bounds
  check, and the checksum comparison is commented out in the source.
\<close>

definition DecodeRecord ::
  "compression_libs \<Rightarrow> BlobDecoder \<Rightarrow> BlobRecord \<Rightarrow> bytes \<Rightarrow> Status + (BlobRecord \<times> bytes)" where
  "DecodeRecord L d r src =
     (let n = unat (dec_record_size d) in
      if length src < n then Inl Undefined
      else let input = take n src; src = drop n src in
        if dec_compression d = kNoCompression then
          map_sum id (\<lambda>r. (r, src)) (DecodeInto (BlobRecord_DecodeFrom r) input)
        else
          (case Uncompress L (dec_compression d) input of
             Inl s \<Rightarrow> Inl s
           | Inr buffer \<Rightarrow> map_sum id (\<lambda>r. (r, src)) (DecodeInto (BlobRecord_DecodeFrom r) buffer)))"

section \<open>Handles and indexes\<close>

record BlobHandle =
  bh_offset :: u64
  bh_size :: u64

definition BlobHandle_EncodeTo :: "BlobHandle \<Rightarrow> bytes \<Rightarrow> bytes" where
  "BlobHandle_EncodeTo h dst = PutVarint64 (PutVarint64 dst (bh_offset h)) (bh_size h)"

definition BlobHandle_DecodeFrom :: "bytes \<Rightarrow> Status + (BlobHandle \<times> bytes)" where
  "BlobHandle_DecodeFrom src =
     or_status Corruption
       (do { (off, src) \<leftarrow> GetVarint64 src;
             (sz, src) \<leftarrow> GetVarint64 src;
             Some (\<lparr>bh_offset = off, bh_size = sz\<rparr>, src) })"

abbreviation (input) kBlobRecord :: u8 where "kBlobRecord \<equiv> 1"

record BlobIndex =
  bi_file_number :: u64
  blob_handle :: BlobHandle

definition BlobIndex_EncodeTo :: "BlobIndex \<Rightarrow> bytes \<Rightarrow> bytes" where
  "BlobIndex_EncodeTo i dst =
     BlobHandle_EncodeTo (blob_handle i) (PutVarint64 (dst @ [kBlobRecord]) (bi_file_number i))"

definition BlobIndex_DecodeFrom :: "bytes \<Rightarrow> Status + (BlobIndex \<times> bytes)" where
  "BlobIndex_DecodeFrom src =
     (case do { (type, src) \<leftarrow> GetChar src;
                if type \<noteq> kBlobRecord then None else GetVarint64 src } of
        None \<Rightarrow> Inl Corruption
      | Some (fn, src) \<Rightarrow>
          (case BlobHandle_DecodeFrom src of
             Inl s \<Rightarrow> Inl Corruption
           | Inr (h, src) \<Rightarrow> Inr (\<lparr>bi_file_number = fn, blob_handle = h\<rparr>, src)))"

section \<open>File header and footer\<close>

abbreviation (input) kHeaderMagicNumber :: u32 where "kHeaderMagicNumber \<equiv> 0x2be0a614"
abbreviation (input) kVersion1 :: u32 where "kVersion1 \<equiv> 1"
abbreviation (input) kFooterMagicNumber :: u64 where "kFooterMagicNumber \<equiv> 0x2be0a6148e39edc6"

record BlobFileHeader =
  header_version :: u32

definition BlobFileHeader_EncodeTo :: "BlobFileHeader \<Rightarrow> bytes \<Rightarrow> bytes" where
  "BlobFileHeader_EncodeTo h dst = PutFixed32 (PutFixed32 dst kHeaderMagicNumber) (header_version h)"

definition BlobFileHeader_DecodeFrom :: "bytes \<Rightarrow> Status + (BlobFileHeader \<times> bytes)" where
  "BlobFileHeader_DecodeFrom src =
     or_status Corruption
       (do { (magic_number, src) \<leftarrow> GetFixed32 src;
             if magic_number \<noteq> kHeaderMagicNumber then None
             else do { (version, src) \<leftarrow> GetFixed32 src;
                       if version \<noteq> kVersion1 then None
                       else Some (\<lparr>header_version = version\<rparr>, src) } })"

record BlockHandle =
  blk_offset :: u64
  blk_size :: u64

definition BlockHandle_EncodeTo :: "BlockHandle \<Rightarrow> bytes \<Rightarrow> bytes" where
  "BlockHandle_EncodeTo h dst = PutVarint64Varint64 dst (blk_offset h) (blk_size h)"

definition BlockHandle_DecodeFrom :: "bytes \<Rightarrow> Status + (BlockHandle \<times> bytes)" where
  "BlockHandle_DecodeFrom input =
     or_status Corruption
       (do { (off, input) \<leftarrow> GetVarint64 input;
             (sz, input) \<leftarrow> GetVarint64 input;
             Some (\<lparr>blk_offset = off, blk_size = sz\<rparr>, input) })"

record BlobFileFooter =
  meta_index_handle :: BlockHandle

text \<open>\<^verbatim>\<open>std::string::resize\<close>: cut, or pad with zero bytes.\<close>

definition resize :: "nat \<Rightarrow> bytes \<Rightarrow> bytes" where
  "resize n s = take n s @ replicate (n - length s) 0"

definition BlobFileFooter_EncodeTo :: "checksum \<Rightarrow> BlobFileFooter \<Rightarrow> bytes \<Rightarrow> bytes" where
  "BlobFileFooter_EncodeTo Extend f dst =
     (let size = length dst;
          dst = BlockHandle_EncodeTo (meta_index_handle f) dst;
          dst = resize (size + kBlobFooterSize - 12) dst;
          dst = PutFixed64 dst kFooterMagicNumber;
          encoded = drop size dst
      in PutFixed32 dst (Extend 0 encoded))"

definition BlobFileFooter_DecodeFrom :: "checksum \<Rightarrow> bytes \<Rightarrow> Status + (BlobFileFooter \<times> bytes)" where
  "BlobFileFooter_DecodeFrom Extend src =
     (let data = src in
      case BlockHandle_DecodeFrom src of
        Inl s \<Rightarrow> Inl Corruption
      | Inr (handle, src) \<Rightarrow>
          if length data < kBlobFooterSize - 12 then Inl Undefined
          else
            let src = drop (kBlobFooterSize - 12) data in
            or_status Corruption
              (do { (magic_number, src) \<leftarrow> GetFixed64 src;
                    if magic_number \<noteq> kFooterMagicNumber then None
                    else do { let decoded = take (length data - length src) data;
                              (checksum, src) \<leftarrow> GetFixed32 src;
                              if Extend 0 decoded \<noteq> checksum then None
                              else Some (\<lparr>meta_index_handle = handle\<rparr>, src) } }))"

section \<open>Handles, indexes, header and footer decode what was encoded\<close>

lemmas format_defs =
  BlobHandle_EncodeTo_def BlobHandle_DecodeFrom_def BlobIndex_EncodeTo_def BlobIndex_DecodeFrom_def
  BlobFileHeader_EncodeTo_def BlobFileHeader_DecodeFrom_def BlockHandle_EncodeTo_def
  BlockHandle_DecodeFrom_def

lemma GetChar_Cons [codec_simps]: "GetChar (c # src) = Some (c, src)"
  by (simp add: GetChar_def)

lemma GetChar_consumes: "GetChar src = Some (c, rest) \<Longrightarrow> length rest < length src"
  by (auto simp: GetChar_def split: list.splits)

lemma BlobHandle_Decode_Encode [codec_simps]:
  "BlobHandle_DecodeFrom (BlobHandle_EncodeTo h [] @ r) = Inr (h, r)"
  by (simp add: format_defs codec_simps)

lemma BlobHandle_consumes:
  "BlobHandle_DecodeFrom src = Inr (h, rest) \<Longrightarrow> length rest < length src"
  by (auto simp: format_defs bind_eq_Some_conv dest!: varint64.get_consumes)

interpretation blob_handle: codec "\<lambda>h. BlobHandle_EncodeTo h []"
  "\<lambda>src. opt_of (BlobHandle_DecodeFrom src)" "\<lambda>_. True"
  by unfold_locales (simp_all add: BlobHandle_Decode_Encode BlobHandle_consumes)

lemma BlobIndex_Decode_Encode [codec_simps]:
  "BlobIndex_DecodeFrom (BlobIndex_EncodeTo i [] @ r) = Inr (i, r)"
  unfolding BlobIndex_DecodeFrom_def BlobIndex_EncodeTo_def
  by (simp add: codec_simps BlobHandle_EncodeTo_def flip: append_assoc)
    (simp add: BlobHandle_DecodeFrom_def codec_simps)

lemma BlobIndex_consumes:
  "BlobIndex_DecodeFrom src = Inr (i, rest) \<Longrightarrow> length rest < length src"
  by (fastforce simp: BlobIndex_DecodeFrom_def bind_eq_Some_conv
      split: option.splits sum.splits if_splits
      dest!: BlobHandle_consumes varint64.get_consumes GetChar_consumes)

interpretation blob_index: codec "\<lambda>i. BlobIndex_EncodeTo i []"
  "\<lambda>src. opt_of (BlobIndex_DecodeFrom src)" "\<lambda>_. True"
  by unfold_locales (simp_all add: BlobIndex_Decode_Encode BlobIndex_consumes)

lemma BlobFileHeader_Decode_Encode [codec_simps]:
  "header_version h = kVersion1 \<Longrightarrow>
   BlobFileHeader_DecodeFrom (BlobFileHeader_EncodeTo h [] @ r) = Inr (h, r)"
  by (simp add: format_defs codec_simps fixed32.get_put)

lemma BlobFileHeader_consumes:
  "BlobFileHeader_DecodeFrom src = Inr (h, rest) \<Longrightarrow> length rest < length src"
  by (auto simp: format_defs bind_eq_Some_conv split: if_splits dest!: fixed32.get_consumes)

lemma length_BlobFileHeader: "length (BlobFileHeader_EncodeTo h dst) = length dst + kBlobHeaderSize"
  by (simp add: format_defs codec_simps)

interpretation blob_file_header: codec "\<lambda>h. BlobFileHeader_EncodeTo h []"
  "\<lambda>src. opt_of (BlobFileHeader_DecodeFrom src)" "\<lambda>h. header_version h = kVersion1"
  by unfold_locales (simp_all add: BlobFileHeader_Decode_Encode BlobFileHeader_consumes)

lemma BlockHandle_Decode_Encode [codec_simps]:
  "BlockHandle_DecodeFrom (BlockHandle_EncodeTo h [] @ r) = Inr (h, r)"
  by (simp add: format_defs codec_simps)

lemma BlockHandle_consumes:
  "BlockHandle_DecodeFrom src = Inr (h, rest) \<Longrightarrow> length rest < length src"
  by (auto simp: format_defs bind_eq_Some_conv dest!: varint64.get_consumes)

interpretation block_handle: codec "\<lambda>h. BlockHandle_EncodeTo h []"
  "\<lambda>src. opt_of (BlockHandle_DecodeFrom src)" "\<lambda>_. True"
  by unfold_locales (simp_all add: BlockHandle_Decode_Encode BlockHandle_consumes)

lemma length_BlockHandle_EncodeTo:
  "length (BlockHandle_EncodeTo h []) \<le> BlockHandle_kMaxEncodedLength"
  using length_EncodeVarint64 [of "blk_offset h"] length_EncodeVarint64 [of "blk_size h"]
  by (simp add: format_defs codec_simps)

lemma length_resize [simp]: "length (resize n s) = n"
  by (simp add: resize_def)

definition footer_body :: "BlobFileFooter \<Rightarrow> bytes" where
  "footer_body f = resize 20 (BlockHandle_EncodeTo (meta_index_handle f) [])
     @ EncodeFixed64 kFooterMagicNumber"

lemma length_footer_body [simp]: "length (footer_body f) = 28"
  by (simp add: footer_body_def)

lemma BlobFileFooter_EncodeTo_eq:
  "BlobFileFooter_EncodeTo Extend f dst =
     dst @ footer_body f @ EncodeFixed32 (Extend 0 (footer_body f))"
proof -
  have "resize (20 + length dst) (BlockHandle_EncodeTo (meta_index_handle f) dst)
      = dst @ resize 20 (BlockHandle_EncodeTo (meta_index_handle f) [])"
    by (simp add: resize_def BlockHandle_EncodeTo_def codec_simps)
  then show ?thesis
    by (simp add: BlobFileFooter_EncodeTo_def Let_def codec_simps footer_body_def)
qed

lemma length_BlobFileFooter: "length (BlobFileFooter_EncodeTo Extend f dst) = length dst + kBlobFooterSize"
  by (simp add: BlobFileFooter_EncodeTo_eq)

lemma footer_body_handle:
  "\<exists>pad. footer_body f = BlockHandle_EncodeTo (meta_index_handle f) [] @ pad"
  using length_BlockHandle_EncodeTo [of "meta_index_handle f"]
  by (simp add: footer_body_def resize_def)

lemma BlobFileFooter_Decode_Encode [codec_simps]:
  "BlobFileFooter_DecodeFrom Extend (BlobFileFooter_EncodeTo Extend f [] @ r) = Inr (f, r)"
proof -
  obtain pad where pad: "footer_body f = BlockHandle_EncodeTo (meta_index_handle f) [] @ pad"
    using footer_body_handle by blast
  have d: "drop 20 (footer_body f) = EncodeFixed64 kFooterMagicNumber"
    by (simp add: footer_body_def)
  have h: "BlockHandle_DecodeFrom (footer_body f @ s) = Inr (meta_index_handle f, pad @ s)" for s
    by (simp add: pad codec_simps)
  show ?thesis
    by (simp add: BlobFileFooter_DecodeFrom_def BlobFileFooter_EncodeTo_eq Let_def h d
        fixed64.get_put fixed32.get_put)
qed

lemma BlobFileFooter_consumes:
  "BlobFileFooter_DecodeFrom Extend src = Inr (f, rest) \<Longrightarrow> length rest < length src"
  by (auto simp: BlobFileFooter_DecodeFrom_def Let_def bind_eq_Some_conv split: sum.splits if_splits
      dest!: fixed32.get_consumes fixed64.get_consumes)

interpretation blob_file_footer: codec "\<lambda>f. BlobFileFooter_EncodeTo Extend f []"
  "\<lambda>src. opt_of (BlobFileFooter_DecodeFrom Extend src)" "\<lambda>_. True"
  for Extend
  by unfold_locales (simp_all add: BlobFileFooter_Decode_Encode BlobFileFooter_consumes)

section \<open>Compression is undone by uncompression\<close>

text \<open>What the code relies on: a library's decompressor inverts its compressor.\<close>

definition libs_ok :: "compression_libs \<Rightarrow> bool" where
  "libs_ok L \<longleftrightarrow>
     (\<forall>x y. Snappy_Compress L x = Some y \<longrightarrow>
        Snappy_Uncompress L y = Some x \<and> Snappy_GetUncompressedLength L y = Some (length x)) \<and>
     (\<forall>x y. Zlib_Compress L x = Some y \<longrightarrow> Zlib_Uncompress L y = Some x) \<and>
     (\<forall>x y. BZip2_Compress L x = Some y \<longrightarrow> BZip2_Uncompress L y = Some x) \<and>
     (\<forall>x y. LZ4_Compress L x = Some y \<longrightarrow> LZ4_Uncompress L y = Some x) \<and>
     (\<forall>x y. LZ4HC_Compress L x = Some y \<longrightarrow> LZ4_Uncompress L y = Some x) \<and>
     (\<forall>x y. XPRESS_Compress L x = Some y \<longrightarrow> XPRESS_Uncompress L y = Some x) \<and>
     (\<forall>x y. ZSTD_Compress L x = Some y \<longrightarrow> ZSTD_Uncompress L y = Some x)"

lemma compress_if_good_cases:
  assumes "compress_if_good lib t x = (y, t')"
  shows "(t' = t \<and> lib x = Some y \<and> length y < length x) \<or> (t' = kNoCompression \<and> y = x)"
  using assms by (auto simp: compress_if_good_def GoodCompressionRatio_def split: option.splits if_splits)

lemma Compress_none: "Compress L t x = (y, kNoCompression) \<Longrightarrow> y = x"
  unfolding Compress_def by (auto split: if_splits dest!: compress_if_good_cases)

lemma Compress_length: "Compress L t x = (y, t') \<Longrightarrow> length y \<le> length x"
  unfolding Compress_def by (auto split: if_splits dest!: compress_if_good_cases)

lemma Uncompress_Compress:
  assumes "libs_ok L" and "Compress L t x = (y, t')" and "t' \<noteq> kNoCompression"
  shows "Uncompress L t' y = Inr x"
  using assms unfolding Compress_def libs_ok_def
  by (auto simp: Uncompress_def split: if_splits dest!: compress_if_good_cases)

section \<open>Records decode what was encoded\<close>

definition record_ok :: "BlobRecord \<Rightarrow> bool" where
  "record_ok r \<longleftrightarrow> (only_value r \<or> slice_ok (rec_key r)) \<and> slice_ok (rec_value r) \<and>
     length (BlobRecord_EncodeTo r []) < 2 ^ 32"

lemma BlobRecord_Decode_Encode [codec_simps]:
  assumes "\<not> only_value r0" "\<not> only_value r" "slice_ok (rec_key r)" "slice_ok (rec_value r)"
  shows "BlobRecord_DecodeFrom r0 (BlobRecord_EncodeTo r [] @ rest) = Inr (r, rest)"
  using assms by (simp add: BlobRecord_DecodeFrom_def BlobRecord_EncodeTo_def codec_simps)

lemma DecodeInto_BlobRecord:
  assumes "record_ok r" "only_value r0 = only_value r"
    and "only_value r \<Longrightarrow> rec_key r0 = rec_key r"
  shows "DecodeInto (BlobRecord_DecodeFrom r0) (BlobRecord_EncodeTo r []) = Inr r"
proof (cases "only_value r")
  case True
  then show ?thesis
    using assms by (simp add: DecodeInto_def BlobRecord_DecodeFrom_def BlobRecord_EncodeTo_def)
next
  case False
  then show ?thesis
    using assms BlobRecord_Decode_Encode [of r0 r "[]"] by (simp add: DecodeInto_def record_ok_def)
qed

text \<open>The framed bytes the builder appends to a file for one record.\<close>

definition framed :: "compression_libs \<Rightarrow> checksum \<Rightarrow> BlobEncoder \<Rightarrow> BlobRecord \<Rightarrow> bytes" where
  "framed L Extend e r =
     enc_header (EncodeRecord L Extend e r) @ enc_record (EncodeRecord L Extend e r)"

text \<open>Header then record, as the reader and the iterator run the decoder.\<close>

definition decode_framed ::
  "compression_libs \<Rightarrow> checksum \<Rightarrow> BlobRecord \<Rightarrow> bytes \<Rightarrow> Status + (BlobRecord \<times> bytes)" where
  "decode_framed L Extend r0 src =
     (case DecodeHeader Extend src of
        Inl s \<Rightarrow> Inl s
      | Inr (d, src) \<Rightarrow> DecodeRecord L d r0 src)"

lemma length_enc_header [simp]: "length (enc_header (EncodeRecord L Extend e r)) = kRecordHeaderSize"
  by (simp add: EncodeRecord_def Let_def split: prod.splits)

lemma length_framed: "length (framed L Extend e r) = GetEncodedSize (EncodeRecord L Extend e r)"
  by (simp add: framed_def GetEncodedSize_def)

lemma DecodeHeader_encoded:
  "DecodeHeader Extend (EncodeFixed32 crc @ EncodeFixed32 n @ c # rest) =
     Inr (\<lparr>dec_crc = crc, dec_header_crc = Extend 0 (EncodeFixed32 n @ [c]), dec_record_size = n,
           dec_compression = c\<rparr>, rest)"
  by (simp add: DecodeHeader_def fixed32.get_put GetChar_def)

lemma DecodeRecord_compressed:
  assumes "libs_ok L" "record_ok r" "only_value r0 = only_value r"
    and "only_value r \<Longrightarrow> rec_key r0 = rec_key r"
    and "Compress L t (BlobRecord_EncodeTo r []) = (y, c)"
  shows "DecodeRecord L \<lparr>dec_crc = a, dec_header_crc = b, dec_record_size = word_of_nat (length y),
           dec_compression = c\<rparr> r0 (y @ rest) = Inr (r, rest)"
proof -
  have "length y < 2 ^ 32"
    using Compress_length [OF assms(5)] assms(2) by (simp add: record_ok_def)
  then have n: "unat (word_of_nat (length y) :: u32) = length y"
    by (rule unat_word_of_length)
  have D: "DecodeInto (BlobRecord_DecodeFrom r0) (BlobRecord_EncodeTo r []) = Inr r"
    using assms by (intro DecodeInto_BlobRecord)
  show ?thesis
  proof (cases "c = kNoCompression")
    case True
    then have "y = BlobRecord_EncodeTo r []" using assms(5) Compress_none by blast
    then show ?thesis using n D True by (simp add: DecodeRecord_def)
  next
    case False
    then show ?thesis
      using n D Uncompress_Compress [OF assms(1,5)] by (simp add: DecodeRecord_def)
  qed
qed

text \<open>
  Decoding is insensitive to the stored checksum: the record comes back whatever the first
  four bytes of the header are.
\<close>

lemma decode_framed_any_crc:
  assumes "libs_ok L" "record_ok r" "only_value r0 = only_value r"
    and "only_value r \<Longrightarrow> rec_key r0 = rec_key r"
  shows "decode_framed L Extend r0 (EncodeFixed32 crc @ drop 4 (framed L Extend' e r) @ rest) = Inr (r, rest)"
proof -
  obtain y c where c: "Compress L (enc_compression e) (BlobRecord_EncodeTo r []) = (y, c)"
    by fastforce
  then have f: "drop 4 (framed L Extend' e r) = EncodeFixed32 (word_of_nat (length y)) @ c # y"
    by (simp add: framed_def EncodeRecord_def Let_def)
  show ?thesis
    unfolding decode_framed_def f using DecodeRecord_compressed [OF assms c]
    by (simp add: DecodeHeader_encoded)
qed

lemma framed_split: "\<exists>crc. framed L Extend e r = EncodeFixed32 crc @ drop 4 (framed L Extend e r)"
  by (auto simp: framed_def EncodeRecord_def Let_def split: prod.splits)

lemma decode_framed_correct [codec_simps]:
  assumes "libs_ok L" "record_ok r" "only_value r0 = only_value r"
    and "only_value r \<Longrightarrow> rec_key r0 = rec_key r"
  shows "decode_framed L Extend r0 (framed L Extend' e r @ rest) = Inr (r, rest)"
proof -
  obtain crc where "framed L Extend' e r = EncodeFixed32 crc @ drop 4 (framed L Extend' e r)"
    using framed_split by blast
  then have "framed L Extend' e r @ rest = EncodeFixed32 crc @ drop 4 (framed L Extend' e r) @ rest"
    by (metis append_assoc)
  then show ?thesis using decode_framed_any_crc [OF assms, of Extend crc Extend' e rest] by (simp only:)
qed

section \<open>Properties\<close>

text \<open>A concrete library set for witnesses: runs of zero bytes are stored as their length.\<close>

definition zero_run :: "bytes \<Rightarrow> bytes option" where
  "zero_run s = (if 2 \<le> length s \<and> length s < 256 \<and> list_all ((=) 0) s then Some [word_of_nat (length s)] else None)"

definition zero_expand :: "bytes \<Rightarrow> bytes option" where
  "zero_expand s = (case s of [n] \<Rightarrow> Some (replicate (unat n) 0) | _ \<Rightarrow> None)"

definition zero_libs :: compression_libs where
  "zero_libs =
     \<lparr>Snappy_Compress = zero_run, Zlib_Compress = zero_run, BZip2_Compress = zero_run,
      LZ4_Compress = zero_run, LZ4HC_Compress = zero_run, XPRESS_Compress = zero_run,
      ZSTD_Compress = zero_run,
      Snappy_GetUncompressedLength = (\<lambda>s. map_option length (zero_expand s)),
      Snappy_Uncompress = zero_expand, Zlib_Uncompress = zero_expand, BZip2_Uncompress = zero_expand,
      LZ4_Uncompress = zero_expand, XPRESS_Uncompress = zero_expand, ZSTD_Uncompress = zero_expand\<rparr>"

lemma zero_expand_run: "zero_run x = Some y \<Longrightarrow> zero_expand y = Some x"
proof -
  have "list_all ((=) 0) x \<Longrightarrow> replicate (length x) 0 = x" for x :: bytes
    by (induction x) auto
  then show "zero_run x = Some y \<Longrightarrow> zero_expand y = Some x"
    by (auto simp: zero_run_def zero_expand_def unat_of_nat take_bit_nat_eq_self split: if_splits)
qed

lemma zero_libs_ok: "libs_ok zero_libs"
  by (auto simp: libs_ok_def zero_libs_def dest: zero_expand_run)

text \<open>
  C16. Record framing: what the encoder frames (key and value, or the value alone, compressed
  with any of the supported libraries or left as it is when compression does not pay), the
  decoder reads back, leaving exactly the bytes that follow the record. The frame is the
  9-byte header and the stored record.
\<close>

theorem record_roundtrip:
  assumes "libs_ok L" "record_ok r" "only_value r0 = only_value r" "only_value r \<longrightarrow> rec_key r0 = rec_key r"
  shows "decode_framed L Extend r0 (framed L Extend e r @ rest) = Inr (r, rest) \<and>
    length (framed L Extend e r) = kRecordHeaderSize + length (enc_record (EncodeRecord L Extend e r)) \<and>
    length (enc_record (EncodeRecord L Extend e r)) \<le> length (BlobRecord_EncodeTo r [])"
proof -
  have "length (enc_record (EncodeRecord L Extend e r)) \<le> length (BlobRecord_EncodeTo r [])"
    using Compress_length by (auto simp: EncodeRecord_def Let_def split: prod.splits)
  then show ?thesis
    using decode_framed_correct [of L r r0] assms length_framed [of L Extend e r]
    by (simp add: GetEncodedSize_def)
qed

definition w_record :: BlobRecord where
  "w_record = \<lparr>rec_key = [], rec_value = replicate 40 0, only_value = True\<rparr>"

definition w_encoder :: BlobEncoder where
  "w_encoder = \<lparr>enc_compression = kLZ4Compression, enc_header = [], enc_record = []\<rparr>"

theorem record_roundtrip_witness:
  "libs_ok zero_libs \<and> record_ok w_record \<and> enc_record (EncodeRecord zero_libs (\<lambda>a _. a) w_encoder w_record) = [40] \<and>
   decode_framed zero_libs (\<lambda>a _. a) w_record (framed zero_libs (\<lambda>a _. a) w_encoder w_record @ [1, 2]) = Inr (w_record, [1, 2])"
proof -
  have r: "record_ok w_record" by (simp add: record_ok_def w_record_def BlobRecord_EncodeTo_def)
  moreover have "enc_record (EncodeRecord zero_libs (\<lambda>a _. a) w_encoder w_record) = [40]" by code_simp
  ultimately show ?thesis
    using record_roundtrip [OF zero_libs_ok r, of w_record "\<lambda>a _. a" w_encoder "[1, 2]"] zero_libs_ok by simp
qed

text \<open>
  C40. The stored checksum of a record is never compared: whatever four bytes stand in its
  place, and whatever checksum function reader and writer use, decoding succeeds with the
  record that was written.
\<close>

theorem record_checksum_ignored:
  assumes "libs_ok L" "record_ok r" "only_value r0 = only_value r" "only_value r \<longrightarrow> rec_key r0 = rec_key r"
  shows "decode_framed L Extend r0 (EncodeFixed32 crc @ drop 4 (framed L Extend' e r) @ rest) = Inr (r, rest)"
  using decode_framed_any_crc [of L r r0] assms by blast

theorem record_checksum_ignored_witness:
  "(\<lambda>a b. a + of_nat (length b)) 0 [40 :: u8, 0, 0, 0, kLZ4Compression] \<noteq> (0xdead :: u32) \<and>
   decode_framed zero_libs (\<lambda>a b. a + of_nat (length b)) w_record
     (EncodeFixed32 0xdead @ drop 4 (framed zero_libs (\<lambda>a b. a + of_nat (length b)) w_encoder w_record) @ [])
   = Inr (w_record, [])"
  using record_checksum_ignored [where L = zero_libs and r = w_record and ?r0.0 = w_record and crc = "0xdead"
      and Extend = "\<lambda>a b. a + of_nat (length b)" and Extend' = "\<lambda>a b. a + of_nat (length b)"
      and e = w_encoder and rest = "[]"] zero_libs_ok
  by (simp add: record_ok_def w_record_def BlobRecord_EncodeTo_def)

text \<open>
  C29. Blob indexes, the values stored in the LSM tree in place of separated values: encoding
  and decoding are inverse, no index encoding is a prefix of another, and the encoding has at
  most 31 bytes.
\<close>

theorem blob_index_codec:
  "BlobIndex_DecodeFrom (BlobIndex_EncodeTo i [] @ rest) = Inr (i, rest) \<and>
   (BlobIndex_EncodeTo i [] @ r = BlobIndex_EncodeTo j [] @ s \<longleftrightarrow> i = j \<and> r = s) \<and>
   length (BlobIndex_EncodeTo i []) \<le> 31"
proof (intro conjI)
  show "BlobIndex_EncodeTo i [] @ r = BlobIndex_EncodeTo j [] @ s \<longleftrightarrow> i = j \<and> r = s"
    using blob_index.put_prefix_free [of i r j s] by auto
  show "length (BlobIndex_EncodeTo i []) \<le> 31"
    using length_EncodeVarint64 [of "bi_file_number i"] length_EncodeVarint64 [of "bh_offset (blob_handle i)"]
      length_EncodeVarint64 [of "bh_size (blob_handle i)"]
    by (simp add: BlobIndex_EncodeTo_def BlobHandle_EncodeTo_def put_append)
qed (simp add: codec_simps)

text \<open>
  The footer always takes 32 bytes and the header 8, whatever the meta index handle, and
  each decodes back from what was written, for every checksum function.
\<close>

theorem header_footer_roundtrip:
  "length (BlobFileFooter_EncodeTo Extend f dst) = length dst + kBlobFooterSize \<and>
   BlobFileFooter_DecodeFrom Extend (BlobFileFooter_EncodeTo Extend f [] @ rest) = Inr (f, rest) \<and>
   length (BlobFileHeader_EncodeTo h dst) = length dst + kBlobHeaderSize \<and>
   BlobFileHeader_DecodeFrom (BlobFileHeader_EncodeTo \<lparr>header_version = kVersion1\<rparr> [] @ rest)
     = Inr (\<lparr>header_version = kVersion1\<rparr>, rest)"
  by (simp add: length_BlobFileFooter BlobFileFooter_Decode_Encode length_BlobFileHeader
      BlobFileHeader_Decode_Encode)

end
