(* ===== verification/Titan_Options.thy ===== *)
theory Titan_Options
  imports Blob_Format
begin

text \<open>
  The options of \<^verbatim>\<open>include/titan/options.h\<close> and \<^verbatim>\<open>options.cc\<close>. \<^verbatim>\<open>TitanCFOptions\<close> extends the
  column family options of RocksDB, of which the code reads the number of levels and the key
  comparator. A comparator is a parameter supplied by the user; what the code relies on is
  \<open>comparator_ok\<close>, that it is a total order.
\<close>

datatype TitanBlobRunMode = kRunNormal | kReadOnly | kFallback

record TitanDBOptions =
  dirname :: string
  disable_background_gc :: bool
  max_background_gc :: int
  purge_obsolete_files_period_sec :: u32
  titan_stats_dump_period_sec :: u32
  sep_before_flush :: bool
  num_foreground_builders :: nat
  block_write_size :: u64

definition default_TitanDBOptions :: TitanDBOptions where
  "default_TitanDBOptions =
     \<lparr>dirname = [], disable_background_gc = False, max_background_gc = 1,
      purge_obsolete_files_period_sec = 10, titan_stats_dump_period_sec = 600, sep_before_flush = False,
      num_foreground_builders = 1, block_write_size = 0\<rparr>"

record ColumnFamilyOptions =
  num_levels :: nat
  comparator :: "bytes \<Rightarrow> bytes \<Rightarrow> int"

record TitanCFOptions = ColumnFamilyOptions +
  min_blob_size :: u64
  mid_blob_size :: u64
  blob_file_compression :: u8
  blob_file_target_size :: u64
  max_gc_batch_size :: u64
  min_gc_batch_size :: u64
  blob_file_discardable_ratio :: rat
  high_level_blob_discardable_ratio :: rat
  sample_file_size_ratio :: rat
  merge_small_file_threshold :: u64
  blob_run_mode :: TitanBlobRunMode
  lazy_merge :: bool
  level_merge :: bool
  range_merge :: bool
  max_sorted_runs :: int

text \<open>The member initialisers; the base options come from the caller.\<close>

definition default_TitanCFOptions :: "ColumnFamilyOptions \<Rightarrow> TitanCFOptions" where
  "default_TitanCFOptions cf =
     ColumnFamilyOptions.extend cf (TitanCFOptions.fields
       128 4096 kNoCompression (256 * 2 ^ 20) (2 ^ 30) (512 * 2 ^ 20) (1 / 2) (7 / 10) (1 / 10)
       (2 ^ 20) kRunNormal True False False 10)"

record ImmutableTitanCFOptions =
  im_min_blob_size :: u64
  im_mid_blob_size :: u64
  im_blob_file_compression :: u8
  im_blob_file_target_size :: u64
  im_max_gc_batch_size :: u64
  im_min_gc_batch_size :: u64
  im_blob_file_discardable_ratio :: rat
  im_sample_file_size_ratio :: rat
  im_merge_small_file_threshold :: u64
  im_lazy_merge :: bool
  im_level_merge :: bool

record MutableTitanCFOptions =
  mu_blob_run_mode :: TitanBlobRunMode

definition new_ImmutableTitanCFOptions :: "TitanCFOptions \<Rightarrow> ImmutableTitanCFOptions" where
  "new_ImmutableTitanCFOptions opts =
     \<lparr>im_min_blob_size = min_blob_size opts, im_mid_blob_size = mid_blob_size opts,
      im_blob_file_compression = blob_file_compression opts,
      im_blob_file_target_size = blob_file_target_size opts,
      im_max_gc_batch_size = max_gc_batch_size opts, im_min_gc_batch_size = min_gc_batch_size opts,
      im_blob_file_discardable_ratio = blob_file_discardable_ratio opts,
      im_sample_file_size_ratio = sample_file_size_ratio opts,
      im_merge_small_file_threshold = merge_small_file_threshold opts,
      im_lazy_merge = lazy_merge opts, im_level_merge = level_merge opts\<rparr>"

definition new_MutableTitanCFOptions :: "TitanCFOptions \<Rightarrow> MutableTitanCFOptions" where
  "new_MutableTitanCFOptions opts = \<lparr>mu_blob_run_mode = blob_run_mode opts\<rparr>"

text \<open>The constructor of \<^verbatim>\<open>options.cc\<close>: members it does not name keep their initialisers.\<close>

definition new_TitanCFOptions ::
  "ColumnFamilyOptions \<Rightarrow> ImmutableTitanCFOptions \<Rightarrow> MutableTitanCFOptions \<Rightarrow> TitanCFOptions" where
  "new_TitanCFOptions cf im mu =
     (default_TitanCFOptions cf)
       \<lparr>min_blob_size := im_min_blob_size im,
        blob_file_compression := im_blob_file_compression im,
        blob_file_target_size := im_blob_file_target_size im,
        max_gc_batch_size := im_max_gc_batch_size im,
        min_gc_batch_size := im_min_gc_batch_size im,
        blob_file_discardable_ratio := im_blob_file_discardable_ratio im,
        sample_file_size_ratio := im_sample_file_size_ratio im,
        merge_small_file_threshold := im_merge_small_file_threshold im,
        blob_run_mode := mu_blob_run_mode mu\<rparr>"

definition blob_run_mode_string_map :: "(string \<times> TitanBlobRunMode) list" where
  "blob_run_mode_string_map =
     [(''kNormal'', kRunNormal), (''kReadOnly'', kReadOnly), (''kFallback'', kFallback)]"

definition blob_run_mode_to_string :: "(TitanBlobRunMode \<times> string) list" where
  "blob_run_mode_to_string =
     [(kRunNormal, ''kNormal''), (kReadOnly, ''kReadOnly''), (kFallback, ''kFallback'')]"

section \<open>Key comparators\<close>

definition comparator_ok :: "(bytes \<Rightarrow> bytes \<Rightarrow> int) \<Rightarrow> bool" where
  "comparator_ok cmp \<longleftrightarrow>
     (\<forall>x y. cmp x y = 0 \<longleftrightarrow> x = y) \<and>
     (\<forall>x y. cmp x y < 0 \<longleftrightarrow> 0 < cmp y x) \<and>
     (\<forall>x y z. cmp x y < 0 \<longrightarrow> cmp y z < 0 \<longrightarrow> cmp x z < 0)"

text \<open>\<^verbatim>\<open>Slice::compare\<close> and \<^verbatim>\<open>std::string::compare\<close>: \<^verbatim>\<open>memcmp\<close> on the common prefix, then the length.\<close>

fun bytewise :: "bytes \<Rightarrow> bytes \<Rightarrow> int" where
  "bytewise [] [] = 0"
| "bytewise [] (b # bs) = -1"
| "bytewise (a # as) [] = 1"
| "bytewise (a # as) (b # bs) = (if a < b then -1 else if b < a then 1 else bytewise as bs)"

lemma bytewise_eq: "bytewise x y = 0 \<longleftrightarrow> x = y"
  by (induction x y rule: bytewise.induct) auto

lemma bytewise_flip: "bytewise x y < 0 \<longleftrightarrow> 0 < bytewise y x"
  by (induction x y rule: bytewise.induct) auto

lemma bytewise_trans: "bytewise x y < 0 \<Longrightarrow> bytewise y z < 0 \<Longrightarrow> bytewise x z < 0"
proof (induction x y arbitrary: z rule: bytewise.induct)
  case (2 b bs)
  then show ?case by (cases z) auto
next
  case (4 a as b bs)
  then show ?case by (cases z) (auto split: if_splits)
qed auto

lemma bytewise_ok: "comparator_ok bytewise"
  unfolding comparator_ok_def using bytewise_eq bytewise_flip bytewise_trans by blast

lemma comparator_refl: "comparator_ok cmp \<Longrightarrow> cmp x x = 0"
  by (simp add: comparator_ok_def)

lemma comparator_le_trans:
  assumes "comparator_ok cmp" "cmp x y \<le> 0" "cmp y z \<le> 0"
  shows "cmp x z \<le> 0"
  using assms unfolding comparator_ok_def by (metis le_less)

lemma comparator_linear: "comparator_ok cmp \<Longrightarrow> cmp x y \<le> 0 \<or> cmp y x \<le> 0"
  unfolding comparator_ok_def by (metis linorder_le_less_linear order_less_imp_le)

section \<open>What the reconstructed options keep\<close>

lemma new_TitanCFOptions_keeps:
  fixes opts :: TitanCFOptions and cf :: ColumnFamilyOptions
  defines "o' \<equiv> new_TitanCFOptions cf (new_ImmutableTitanCFOptions opts) (new_MutableTitanCFOptions opts)"
  shows "min_blob_size o' = min_blob_size opts"
    "blob_file_target_size o' = blob_file_target_size opts"
    "blob_file_discardable_ratio o' = blob_file_discardable_ratio opts"
    "blob_run_mode o' = blob_run_mode opts"
    "num_levels o' = num_levels cf"
    "level_merge o' = False" "lazy_merge o' = True" "mid_blob_size o' = 4096"
  by (simp_all add: o'_def new_TitanCFOptions_def new_ImmutableTitanCFOptions_def
      new_MutableTitanCFOptions_def default_TitanCFOptions_def TitanCFOptions.defs
      ColumnFamilyOptions.defs)

lemma run_mode_strings_inverse:
  "map_of blob_run_mode_string_map (the (map_of blob_run_mode_to_string m)) = Some m"
  by (cases m) (simp_all add: blob_run_mode_string_map_def blob_run_mode_to_string_def)

section \<open>Properties\<close>

text \<open>
  C30. Options read back through the immutable and mutable parts kept by the open database:
  the result is the options the column family was opened with except for six fields, which
  return to their defaults whatever was configured.
\<close>

theorem options_reconstruction:
  fixes opts :: TitanCFOptions
  shows "new_TitanCFOptions (ColumnFamilyOptions.truncate opts) (new_ImmutableTitanCFOptions opts)
           (new_MutableTitanCFOptions opts)
    = opts\<lparr>mid_blob_size := 4096, high_level_blob_discardable_ratio := 7 / 10, lazy_merge := True,
        level_merge := False, range_merge := False, max_sorted_runs := 10\<rparr>"
  by (cases opts) (simp add: new_TitanCFOptions_def new_ImmutableTitanCFOptions_def new_MutableTitanCFOptions_def
      default_TitanCFOptions_def TitanCFOptions.defs ColumnFamilyOptions.defs)

end
