(* ===== verification/Gc_Scheduler.thy ===== *)
theory Gc_Scheduler
  imports Titan_Options
begin

text \<open>
  The scheduling of background garbage collections in \<^verbatim>\<open>TitanDBImpl\<close> (\<^verbatim>\<open>db_impl.h\<close>, \<^verbatim>\<open>db_impl_gc.cc\<close>, and
  \<^verbatim>\<open>DropColumnFamilies\<close> and \<^verbatim>\<open>CloseImpl\<close> of \<^verbatim>\<open>db_impl.cc\<close>) as a state machine.

  A method that holds \<^verbatim>\<open>mutex_\<close> throughout is one function; a method that waits on \<^verbatim>\<open>bg_cv_\<close> or
  releases the mutex is one function for each part in between, and the step relation below
  interleaves these parts freely. A wait is a guard of the part that follows it:
  the code signals \<^verbatim>\<open>bg_cv_\<close> at each place where one of these guards may have become true. The fields
  that start with \<open>at_\<close> are where the threads are: jobs handed to \<^verbatim>\<open>Env::Schedule\<close>, jobs whose thread
  waits for column families to be dropped, jobs inside \<^verbatim>\<open>BackgroundGC\<close>, callers of
  \<^verbatim>\<open>DropColumnFamilies\<close> that wait and that drop, and jobs that \<^verbatim>\<open>UnSchedule\<close> has removed but that are
  still counted.
\<close>

record gc_state =
  gc_queue :: "u32 list"
  bg_gc_scheduled :: int
  bg_gc_running :: int
  unscheduled_gc :: int
  drop_cf_requests :: int
  shuting_down :: bool
  at_env :: nat
  at_wait :: nat
  at_gc :: nat
  at_drop_wait :: nat
  at_drop :: nat
  at_unscheduled :: nat

definition new_gc_state :: gc_state where
  "new_gc_state = \<lparr>gc_queue = [], bg_gc_scheduled = 0, bg_gc_running = 0, unscheduled_gc = 0, drop_cf_requests = 0,
     shuting_down = False, at_env = 0, at_wait = 0, at_gc = 0, at_drop_wait = 0, at_drop = 0, at_unscheduled = 0\<rparr>"

section \<open>The operations\<close>

definition AddToGCQueue :: "u32 \<Rightarrow> gc_state \<Rightarrow> gc_state" where
  "AddToGCQueue cf s = s\<lparr>unscheduled_gc := unscheduled_gc s + 1, gc_queue := gc_queue s @ [cf]\<rparr>"

definition PopFirstFromGCQueue :: "gc_state \<Rightarrow> u32 \<times> gc_state" where
  "PopFirstFromGCQueue s = (hd (gc_queue s), s\<lparr>gc_queue := tl (gc_queue s)\<rparr>)"

function schedule_loop :: "int \<Rightarrow> gc_state \<Rightarrow> gc_state" where
  "schedule_loop max_gc s =
     (if unscheduled_gc s > 0 \<and> bg_gc_scheduled s < max_gc
      then schedule_loop max_gc (s\<lparr>unscheduled_gc := unscheduled_gc s - 1, bg_gc_scheduled := bg_gc_scheduled s + 1,
                                   at_env := at_env s + 1\<rparr>)
      else s)"
  by pat_completeness auto
termination
  by (relation "measure (\<lambda>(m, s). nat (unscheduled_gc s))") auto

declare schedule_loop.simps [simp del]

definition MaybeScheduleGC :: "TitanDBOptions \<Rightarrow> gc_state \<Rightarrow> gc_state" where
  "MaybeScheduleGC opts s =
     (if disable_background_gc opts \<or> shuting_down s then s else schedule_loop (max_background_gc opts) s)"

text \<open>\<^verbatim>\<open>BackgroundCallGC\<close> up to the call of \<^verbatim>\<open>BackgroundGC\<close>: the guard is that no family is being dropped.\<close>

definition BackgroundCallGC_begin :: "gc_state \<Rightarrow> u32 option \<times> gc_state" where
  "BackgroundCallGC_begin s =
     (let s = s\<lparr>bg_gc_running := bg_gc_running s + 1, at_wait := at_wait s - 1, at_gc := at_gc s + 1\<rparr>
      in if gc_queue s \<noteq> [] then let (cf, s) = PopFirstFromGCQueue s in (Some cf, s) else (None, s))"

text \<open>The rest, after \<^verbatim>\<open>BackgroundGC\<close> has or has not put its column family into the queue again.\<close>

definition BackgroundCallGC_end :: "TitanDBOptions \<Rightarrow> u32 option \<Rightarrow> gc_state \<Rightarrow> gc_state" where
  "BackgroundCallGC_end opts again s =
     (let s = (case again of None \<Rightarrow> s | Some cf \<Rightarrow> AddToGCQueue cf s);
          s = s\<lparr>bg_gc_running := bg_gc_running s - 1, bg_gc_scheduled := bg_gc_scheduled s - 1, at_gc := at_gc s - 1\<rparr>
      in MaybeScheduleGC opts s)"

text \<open>\<^verbatim>\<open>DropColumnFamilies\<close> up to the wait, then the drop in RocksDB, then the end with its outcome.\<close>

definition Drop_request :: "gc_state \<Rightarrow> gc_state" where
  "Drop_request s = s\<lparr>drop_cf_requests := drop_cf_requests s + 1, at_drop_wait := at_drop_wait s + 1\<rparr>"

definition Drop_go :: "gc_state \<Rightarrow> gc_state" where
  "Drop_go s = s\<lparr>at_drop_wait := at_drop_wait s - 1, at_drop := at_drop s + 1\<rparr>"

definition Drop_end :: "Status \<Rightarrow> gc_state \<Rightarrow> gc_state" where
  "Drop_end base s =
     (let s = s\<lparr>at_drop := at_drop s - 1\<rparr>
      in if ok base then s\<lparr>drop_cf_requests := drop_cf_requests s - 1\<rparr> else s)"

text \<open>\<^verbatim>\<open>CloseImpl\<close>: the flag, the call of \<^verbatim>\<open>UnSchedule\<close> without the mutex, the correction of the counter.\<close>

definition Close_flag :: "gc_state \<Rightarrow> gc_state" where
  "Close_flag s = s\<lparr>shuting_down := True\<rparr>"

definition Close_unschedule :: "gc_state \<Rightarrow> gc_state" where
  "Close_unschedule s = s\<lparr>at_env := 0, at_unscheduled := at_unscheduled s + at_env s\<rparr>"

definition Close_count :: "gc_state \<Rightarrow> gc_state" where
  "Close_count s = s\<lparr>bg_gc_scheduled := bg_gc_scheduled s - int (at_unscheduled s), at_unscheduled := 0\<rparr>"

text \<open>The wait at the end of \<^verbatim>\<open>CloseImpl\<close> is over.\<close>

definition Close_done :: "gc_state \<Rightarrow> bool" where
  "Close_done s \<longleftrightarrow> shuting_down s \<and> at_unscheduled s = 0 \<and> \<not> bg_gc_scheduled s > 0"

section \<open>Interleavings\<close>

inductive gc_step :: "TitanDBOptions \<Rightarrow> gc_state \<Rightarrow> gc_state \<Rightarrow> bool" for opts where
  enqueue: "gc_step opts s (MaybeScheduleGC opts (AddToGCQueue cf s))"
| start_thread: "at_env s > 0 \<Longrightarrow> gc_step opts s (s\<lparr>at_env := at_env s - 1, at_wait := at_wait s + 1\<rparr>)"
| gc_begin: "at_wait s > 0 \<Longrightarrow> \<not> drop_cf_requests s > 0 \<Longrightarrow> gc_step opts s (snd (BackgroundCallGC_begin s))"
| gc_end: "at_gc s > 0 \<Longrightarrow> gc_step opts s (BackgroundCallGC_end opts again s)"
| drop_request: "gc_step opts s (Drop_request s)"
| drop_go: "at_drop_wait s > 0 \<Longrightarrow> \<not> bg_gc_running s > 0 \<Longrightarrow> gc_step opts s (Drop_go s)"
| drop_end: "at_drop s > 0 \<Longrightarrow> gc_step opts s (Drop_end base s)"
| close_flag: "gc_step opts s (Close_flag s)"
| close_unschedule: "shuting_down s \<Longrightarrow> gc_step opts s (Close_unschedule s)"
| close_count: "gc_step opts s (Close_count s)"

abbreviation gc_run :: "TitanDBOptions \<Rightarrow> gc_state \<Rightarrow> gc_state \<Rightarrow> bool" where
  "gc_run opts \<equiv> (gc_step opts)\<^sup>*\<^sup>*"

section \<open>The invariant\<close>

definition gc_inv :: "TitanDBOptions \<Rightarrow> gc_state \<Rightarrow> bool" where
  "gc_inv opts s \<longleftrightarrow>
     bg_gc_running s = int (at_gc s) \<and>
     bg_gc_scheduled s = int (at_env s + at_wait s + at_gc s + at_unscheduled s) \<and>
     unscheduled_gc s \<ge> 0 \<and> drop_cf_requests s \<ge> int (at_drop_wait s + at_drop s) \<and>
     bg_gc_scheduled s \<le> max 0 (max_background_gc opts) \<and>
     int (length (gc_queue s)) \<ge> unscheduled_gc s + int (at_env s + at_wait s) \<and>
     (at_drop s > 0 \<longrightarrow> at_gc s = 0) \<and>
     (\<not> shuting_down s \<longrightarrow> at_unscheduled s = 0 \<and> int (length (gc_queue s)) = unscheduled_gc s + int (at_env s + at_wait s))"

text \<open>Every entry of the queue has a job, or as many jobs are scheduled as may be.\<close>

definition scheduled_full :: "TitanDBOptions \<Rightarrow> gc_state \<Rightarrow> bool" where
  "scheduled_full opts s \<longleftrightarrow>
     disable_background_gc opts \<or> shuting_down s \<or> unscheduled_gc s = 0 \<or> bg_gc_scheduled s \<ge> max_background_gc opts"

lemma schedule_loop_spec:
  assumes "unscheduled_gc s \<ge> 0"
  shows "\<exists>k. schedule_loop m s = s\<lparr>unscheduled_gc := unscheduled_gc s - int k, bg_gc_scheduled := bg_gc_scheduled s + int k,
      at_env := at_env s + k\<rparr> \<and> int k \<le> unscheduled_gc s \<and> bg_gc_scheduled s + int k \<le> max (bg_gc_scheduled s) m \<and>
      (unscheduled_gc s = int k \<or> bg_gc_scheduled s + int k \<ge> m)"
  using assms
proof (induction m s rule: schedule_loop.induct)
  case (1 m s)
  show ?case
  proof (cases "unscheduled_gc s > 0 \<and> bg_gc_scheduled s < m")
    case True
    let ?s = "s\<lparr>unscheduled_gc := unscheduled_gc s - 1, bg_gc_scheduled := bg_gc_scheduled s + 1, at_env := at_env s + 1\<rparr>"
    obtain k where "schedule_loop m ?s = ?s\<lparr>unscheduled_gc := unscheduled_gc ?s - int k, bg_gc_scheduled := bg_gc_scheduled ?s + int k,
        at_env := at_env ?s + k\<rparr>" "int k \<le> unscheduled_gc ?s" "bg_gc_scheduled ?s + int k \<le> max (bg_gc_scheduled ?s) m"
      "unscheduled_gc ?s = int k \<or> bg_gc_scheduled ?s + int k \<ge> m"
      using 1(1) [OF True] True by auto
    then show ?thesis
      using True by (intro exI [of _ "Suc k"]) (auto simp: schedule_loop.simps [of m s] max_def split: if_splits)
  next
    case False
    then show ?thesis
      using 1(2) by (intro exI [of _ 0]) (auto simp: schedule_loop.simps [of m s])
  qed
qed

lemma MaybeScheduleGC_inv:
  assumes "gc_inv opts s"
  shows "gc_inv opts (MaybeScheduleGC opts s)" "scheduled_full opts (MaybeScheduleGC opts s)"
    "at_wait (MaybeScheduleGC opts s) = at_wait s" "at_gc (MaybeScheduleGC opts s) = at_gc s"
    "drop_cf_requests (MaybeScheduleGC opts s) = drop_cf_requests s" "at_drop_wait (MaybeScheduleGC opts s) = at_drop_wait s"
    "at_drop (MaybeScheduleGC opts s) = at_drop s" "shuting_down (MaybeScheduleGC opts s) = shuting_down s"
    "unscheduled_gc (MaybeScheduleGC opts s) + int (at_env (MaybeScheduleGC opts s)) = unscheduled_gc s + int (at_env s)"
proof -
  have u: "unscheduled_gc s \<ge> 0" using assms by (simp add: gc_inv_def)
  obtain k where k: "schedule_loop (max_background_gc opts) s = s\<lparr>unscheduled_gc := unscheduled_gc s - int k,
      bg_gc_scheduled := bg_gc_scheduled s + int k, at_env := at_env s + k\<rparr>" "int k \<le> unscheduled_gc s"
    "bg_gc_scheduled s + int k \<le> max (bg_gc_scheduled s) (max_background_gc opts)"
    "unscheduled_gc s = int k \<or> bg_gc_scheduled s + int k \<ge> max_background_gc opts"
    using schedule_loop_spec [OF u, of "max_background_gc opts"] by blast
  show "gc_inv opts (MaybeScheduleGC opts s)"
    using assms k by (auto simp: MaybeScheduleGC_def gc_inv_def max_def split: if_splits)
  show "scheduled_full opts (MaybeScheduleGC opts s)"
    using k by (auto simp: MaybeScheduleGC_def scheduled_full_def)
  show "at_wait (MaybeScheduleGC opts s) = at_wait s" "at_gc (MaybeScheduleGC opts s) = at_gc s"
    "drop_cf_requests (MaybeScheduleGC opts s) = drop_cf_requests s" "at_drop_wait (MaybeScheduleGC opts s) = at_drop_wait s"
    "at_drop (MaybeScheduleGC opts s) = at_drop s" "shuting_down (MaybeScheduleGC opts s) = shuting_down s"
    "unscheduled_gc (MaybeScheduleGC opts s) + int (at_env (MaybeScheduleGC opts s)) = unscheduled_gc s + int (at_env s)"
    using k by (simp_all add: MaybeScheduleGC_def)
qed

lemma AddToGCQueue_inv: "gc_inv opts s \<Longrightarrow> gc_inv opts (AddToGCQueue cf s)"
  by (simp add: gc_inv_def AddToGCQueue_def)

text \<open>The state that the end of a job hands to \<^verbatim>\<open>MaybeScheduleGC\<close>.\<close>

lemma job_end_inv:
  "gc_inv opts s \<Longrightarrow> at_gc s > 0 \<Longrightarrow>
   gc_inv opts (s\<lparr>bg_gc_running := bg_gc_running s - 1, bg_gc_scheduled := bg_gc_scheduled s - 1, at_gc := at_gc s - 1\<rparr>)"
  by (auto simp: gc_inv_def max_def split: if_splits)

lemma BackgroundCallGC_end_inv:
  assumes "gc_inv opts s" "at_gc s > 0"
  shows "gc_inv opts (BackgroundCallGC_end opts again s)" "scheduled_full opts (BackgroundCallGC_end opts again s)"
    "drop_cf_requests (BackgroundCallGC_end opts again s) = drop_cf_requests s"
    "at_drop_wait (BackgroundCallGC_end opts again s) = at_drop_wait s" "at_drop (BackgroundCallGC_end opts again s) = at_drop s"
    "at_wait (BackgroundCallGC_end opts again s) = at_wait s" "at_gc (BackgroundCallGC_end opts again s) = at_gc s - 1"
    "shuting_down (BackgroundCallGC_end opts again s) = shuting_down s"
proof -
  let ?a = "case again of None \<Rightarrow> s | Some cf \<Rightarrow> AddToGCQueue cf s"
  have a: "gc_inv opts ?a" "at_gc ?a > 0" using assms AddToGCQueue_inv by (auto simp: AddToGCQueue_def split: option.split)
  note M = MaybeScheduleGC_inv [OF job_end_inv [OF a]]
  show "gc_inv opts (BackgroundCallGC_end opts again s)" "scheduled_full opts (BackgroundCallGC_end opts again s)"
    "drop_cf_requests (BackgroundCallGC_end opts again s) = drop_cf_requests s"
    "at_drop_wait (BackgroundCallGC_end opts again s) = at_drop_wait s" "at_drop (BackgroundCallGC_end opts again s) = at_drop s"
    "at_wait (BackgroundCallGC_end opts again s) = at_wait s" "at_gc (BackgroundCallGC_end opts again s) = at_gc s - 1"
    "shuting_down (BackgroundCallGC_end opts again s) = shuting_down s"
    using M by (simp_all add: BackgroundCallGC_end_def Let_def AddToGCQueue_def split: option.splits)
qed

lemma gc_step_inv:
  assumes "gc_step opts s t" "gc_inv opts s" "scheduled_full opts s"
  shows "gc_inv opts t \<and> scheduled_full opts t"
  using assms
proof (cases rule: gc_step.cases)
  case (enqueue cf)
  then show ?thesis using MaybeScheduleGC_inv(1,2) [OF AddToGCQueue_inv [OF assms(2)]] by simp
next
  case (gc_begin)
  then have "gc_queue s \<noteq> []" using assms(2) by (auto simp: gc_inv_def)
  then show ?thesis
    using gc_begin assms(2,3)
    by (auto simp: gc_inv_def scheduled_full_def BackgroundCallGC_begin_def PopFirstFromGCQueue_def Let_def neq_Nil_conv)
next
  case (gc_end again)
  then show ?thesis using BackgroundCallGC_end_inv(1,2) [OF assms(2)] by simp
qed (use assms(2,3) in \<open>auto simp: gc_inv_def scheduled_full_def Drop_request_def Drop_go_def Drop_end_def Close_flag_def
  Close_unschedule_def Close_count_def Let_def\<close>)

lemma gc_run_inv: "gc_run opts s t \<Longrightarrow> gc_inv opts s \<Longrightarrow> scheduled_full opts s \<Longrightarrow> gc_inv opts t \<and> scheduled_full opts t"
  by (induction rule: rtranclp_induct) (auto dest: gc_step_inv)

lemma new_gc_state_inv: "gc_inv opts new_gc_state" "scheduled_full opts new_gc_state"
  by (simp_all add: gc_inv_def scheduled_full_def new_gc_state_def)

section \<open>Properties\<close>


definition w_gc_waiting :: gc_state where
  "w_gc_waiting = new_gc_state\<lparr>bg_gc_scheduled := 1, gc_queue := [3], at_wait := 1\<rparr>"

lemma w_gc_enqueued:
  "MaybeScheduleGC default_TitanDBOptions (AddToGCQueue 3 new_gc_state) = w_gc_waiting\<lparr>at_env := 1, at_wait := 0\<rparr>"
proof -
  let ?s = "new_gc_state\<lparr>unscheduled_gc := 1, gc_queue := [3]\<rparr>"
  have "schedule_loop 1 (?s\<lparr>unscheduled_gc := 0, bg_gc_scheduled := 1, at_env := 1\<rparr>) = ?s\<lparr>unscheduled_gc := 0, bg_gc_scheduled := 1, at_env := 1\<rparr>"
    by (subst schedule_loop.simps) simp
  then have "schedule_loop 1 ?s = ?s\<lparr>unscheduled_gc := 0, bg_gc_scheduled := 1, at_env := 1\<rparr>"
    by (subst schedule_loop.simps) (simp add: new_gc_state_def)
  then show ?thesis
    by (simp add: MaybeScheduleGC_def AddToGCQueue_def default_TitanDBOptions_def w_gc_waiting_def new_gc_state_def)
qed

lemma w_gc_waiting_run: "gc_run default_TitanDBOptions new_gc_state w_gc_waiting"
proof (rule converse_rtranclp_into_rtranclp, rule enqueue [of _ _ 3], rule r_into_rtranclp)
  show "gc_step default_TitanDBOptions (MaybeScheduleGC default_TitanDBOptions (AddToGCQueue 3 new_gc_state)) w_gc_waiting"
    using start_thread [of "w_gc_waiting\<lparr>at_env := 1, at_wait := 0\<rparr>" default_TitanDBOptions]
    unfolding w_gc_enqueued by (simp add: w_gc_waiting_def new_gc_state_def)
qed


text \<open>The steps of the background jobs, when no collection puts its family into the queue again.\<close>

inductive gc_work :: "TitanDBOptions \<Rightarrow> gc_state \<Rightarrow> gc_state \<Rightarrow> bool" for opts where
  work_start: "at_env s > 0 \<Longrightarrow> gc_work opts s (s\<lparr>at_env := at_env s - 1, at_wait := at_wait s + 1\<rparr>)"
| work_begin: "at_wait s > 0 \<Longrightarrow> \<not> drop_cf_requests s > 0 \<Longrightarrow> gc_work opts s (snd (BackgroundCallGC_begin s))"
| work_end: "at_gc s > 0 \<Longrightarrow> gc_work opts s (BackgroundCallGC_end opts None s)"

lemma gc_work_step: "gc_work opts s t \<Longrightarrow> gc_step opts s t"
  by (erule gc_work.cases) (blast intro: gc_step.intros)+

definition work_left :: "gc_state \<Rightarrow> nat" where
  "work_left s = 3 * (nat (unscheduled_gc s) + at_env s) + 2 * at_wait s + at_gc s"

lemma gc_work_less:
  assumes "gc_work opts s t" "gc_inv opts s"
  shows "work_left t < work_left s \<and> drop_cf_requests t = drop_cf_requests s \<and> shuting_down t = shuting_down s"
  using assms
proof (cases rule: gc_work.cases)
  case work_end
  let ?s = "s\<lparr>bg_gc_running := bg_gc_running s - 1, bg_gc_scheduled := bg_gc_scheduled s - 1, at_gc := at_gc s - 1\<rparr>"
  have t: "t = MaybeScheduleGC opts ?s" using work_end by (simp add: BackgroundCallGC_end_def)
  note M = MaybeScheduleGC_inv [OF job_end_inv [OF assms(2) work_end(2)]]
  have "unscheduled_gc t \<ge> 0" "unscheduled_gc s \<ge> 0" using M(1) assms(2) by (simp_all add: t gc_inv_def)
  then have "nat (unscheduled_gc t) + at_env t = nat (unscheduled_gc s) + at_env s" using M(9) by (simp add: t)
  then show ?thesis using M(3-8) work_end(2) by (simp add: t work_left_def)
qed (auto simp: work_left_def BackgroundCallGC_begin_def PopFirstFromGCQueue_def Let_def)

lemma gc_work_run:
  assumes "(gc_work opts ^^ n) s t" "gc_inv opts s" "scheduled_full opts s"
  shows "n + work_left t \<le> work_left s \<and> gc_inv opts t \<and> scheduled_full opts t \<and>
    drop_cf_requests t = drop_cf_requests s \<and> shuting_down t = shuting_down s"
  using assms(1)
proof (induction n arbitrary: t)
  case (Suc n)
  then obtain u where u: "(gc_work opts ^^ n) s u" "gc_work opts u t" by auto
  show ?case using Suc.IH [OF u(1)] gc_work_less [OF u(2)] gc_step_inv [OF gc_work_step [OF u(2)]] by auto
qed (use assms(2,3) in simp)

lemma no_work_left:
  assumes "\<nexists>t. gc_work opts s t" "gc_inv opts s" "scheduled_full opts s" "drop_cf_requests s = 0"
    and "\<not> shuting_down s" "\<not> disable_background_gc opts" "max_background_gc opts > 0"
  shows "gc_queue s = [] \<and> bg_gc_scheduled s = 0"
proof -
  have "\<not> at_env s > 0" using assms(1) work_start by blast
  moreover have "\<not> at_wait s > 0" using assms(1,4) work_begin [of s opts] by auto
  moreover have "\<not> at_gc s > 0" using assms(1) work_end by blast
  ultimately have "at_env s = 0" "at_wait s = 0" "at_gc s = 0" by simp_all
  then show ?thesis using assms by (auto simp: gc_inv_def scheduled_full_def)
qed



text \<open>A request to drop column families that is counted but that nobody works on.\<close>

definition leaked :: "gc_state \<Rightarrow> bool" where
  "leaked s \<longleftrightarrow> drop_cf_requests s > int (at_drop_wait s + at_drop s)"

lemma gc_step_leaked:
  assumes "gc_step opts s t" "gc_inv opts s" "leaked s"
  shows "leaked t \<and> at_wait t \<ge> at_wait s"
  using assms
proof (cases rule: gc_step.cases)
  case (enqueue cf)
  then show ?thesis
    using MaybeScheduleGC_inv(3,5-7) [OF AddToGCQueue_inv [OF assms(2), of cf]] assms(3) by (simp add: leaked_def AddToGCQueue_def)
next
  case (gc_end again)
  then show ?thesis using BackgroundCallGC_end_inv(3-6) [OF assms(2)] assms(3) by (simp add: leaked_def)
qed (use assms(2,3) in \<open>auto simp: leaked_def gc_inv_def Drop_request_def Drop_go_def Drop_end_def Close_flag_def
  Close_unschedule_def Close_count_def Let_def\<close>)

lemma gc_run_leaked:
  "gc_run opts s t \<Longrightarrow> gc_inv opts s \<Longrightarrow> scheduled_full opts s \<Longrightarrow> leaked s \<Longrightarrow> leaked t \<and> at_wait t \<ge> at_wait s"
proof (induction rule: rtranclp_induct)
  case (step t u)
  then show ?case using gc_step_leaked [OF step(2)] gc_run_inv [OF step(1)] by force
qed simp

text \<open>
  C37. When RocksDB fails to drop a column family, the request stays counted for ever: whatever
  happens afterwards, a collection that waits for the drop never runs, no other collection
  starts, and closing the database never finishes.
\<close>

theorem failed_drop_blocks:
  assumes "gc_run opts new_gc_state s" "at_drop s > 0" "at_wait s > 0" "base \<noteq> OK"
    and "gc_run opts (Drop_end base s) t"
  shows "drop_cf_requests t > 0 \<and> at_wait t > 0 \<and> bg_gc_scheduled t > 0 \<and> \<not> Close_done t"
proof -
  have i: "gc_inv opts s" "scheduled_full opts s" using gc_run_inv [OF assms(1) new_gc_state_inv] by simp_all
  have e: "gc_inv opts (Drop_end base s)" "scheduled_full opts (Drop_end base s)"
    using gc_step_inv [OF drop_end [OF assms(2)] i] by simp_all
  have "leaked (Drop_end base s)" "at_wait (Drop_end base s) = at_wait s"
    using assms(2,4) i(1) by (simp_all add: leaked_def gc_inv_def Drop_end_def ok_def)
  then have "leaked t" "at_wait t > 0" using gc_run_leaked [OF assms(5) e] assms(3) by auto
  moreover have "gc_inv opts t" using gc_run_inv [OF assms(5) e] by simp
  ultimately show ?thesis by (auto simp: leaked_def gc_inv_def Close_done_def)
qed

theorem failed_drop_blocks_witness:
  "\<not> Close_done (Close_count (Close_unschedule (Close_flag (Drop_end IOError (Drop_go (Drop_request w_gc_waiting))))))"
proof -
  let ?o = default_TitanDBOptions and ?d = "Drop_go (Drop_request w_gc_waiting)"
  let ?e = "Drop_end IOError ?d"
  have "gc_step ?o (Drop_request w_gc_waiting) ?d"
    by (rule drop_go) (simp_all add: w_gc_waiting_def new_gc_state_def Drop_request_def)
  then have run: "gc_run ?o new_gc_state ?d"
    by (rule rtranclp.rtrancl_into_rtrancl [OF rtranclp.rtrancl_into_rtrancl [OF w_gc_waiting_run drop_request]])
  have "gc_step ?o (Close_flag ?e) (Close_unschedule (Close_flag ?e))" by (rule close_unschedule) (simp add: Close_flag_def)
  then have "gc_run ?o ?e (Close_unschedule (Close_flag ?e))"
    by (rule rtranclp.rtrancl_into_rtrancl [OF r_into_rtranclp [of "gc_step ?o", OF close_flag]])
  then have "gc_run ?o ?e (Close_count (Close_unschedule (Close_flag ?e)))"
    by (rule rtranclp.rtrancl_into_rtrancl) (rule close_count)
  moreover have "at_drop ?d > 0" "at_wait ?d > 0" by (simp_all add: w_gc_waiting_def new_gc_state_def Drop_request_def Drop_go_def)
  ultimately show ?thesis using failed_drop_blocks [OF run, of IOError] by blast
qed

end
