(* ===== verification/Titan_Stats.thy ===== *)
theory Titan_Stats
  imports Prelude
begin

text \<open>
  The per-column-family counters of \<^verbatim>\<open>titan_stats.h/.cc\<close> that the storage and the event
  listeners maintain. The counters are unsigned 64-bit and wrap. The pointer that
  \<^verbatim>\<open>TitanStats::internal_stats(cf_id)\<close> returns is an option: \<^const>\<open>None\<close> when statistics are off
  or the column family has none, and then the utility functions do nothing. Tickers,
  histograms and timers only feed monitoring output and are not modelled.
\<close>

datatype StatsType =
    LIVE_BLOB_SIZE
  | NUM_LIVE_BLOB_FILE
  | NUM_OBSOLETE_BLOB_FILE
  | LIVE_BLOB_FILE_SIZE
  | OBSOLETE_BLOB_FILE_SIZE
  | NUM_DISCARDABLE_RATIO_LE0
  | NUM_DISCARDABLE_RATIO_LE20
  | NUM_DISCARDABLE_RATIO_LE50
  | NUM_DISCARDABLE_RATIO_LE80
  | NUM_DISCARDABLE_RATIO_LE100

type_synonym TitanInternalStats = "StatsType \<Rightarrow> u64"

definition Stats_Clear :: TitanInternalStats where
  "Stats_Clear = (\<lambda>_. 0)"

definition TitanInternalStats_AddStats :: "TitanInternalStats \<Rightarrow> StatsType \<Rightarrow> u64 \<Rightarrow> TitanInternalStats" where
  "TitanInternalStats_AddStats s type v = s(type := s type + v)"

definition TitanInternalStats_SubStats :: "TitanInternalStats \<Rightarrow> StatsType \<Rightarrow> u64 \<Rightarrow> TitanInternalStats" where
  "TitanInternalStats_SubStats s type v = s(type := s type - v)"

definition TitanInternalStats_ResetStats :: "TitanInternalStats \<Rightarrow> StatsType \<Rightarrow> TitanInternalStats" where
  "TitanInternalStats_ResetStats s type = s(type := 0)"

definition AddStats :: "StatsType \<Rightarrow> u64 \<Rightarrow> TitanInternalStats option \<Rightarrow> TitanInternalStats option" where
  "AddStats type v p = map_option (\<lambda>s. TitanInternalStats_AddStats s type v) p"

definition SubStats :: "StatsType \<Rightarrow> u64 \<Rightarrow> TitanInternalStats option \<Rightarrow> TitanInternalStats option" where
  "SubStats type v p = map_option (\<lambda>s. TitanInternalStats_SubStats s type v) p"

definition ResetStats :: "StatsType \<Rightarrow> TitanInternalStats option \<Rightarrow> TitanInternalStats option" where
  "ResetStats type p = map_option (\<lambda>s. TitanInternalStats_ResetStats s type) p"

definition titandb_prefix :: string where
  "titandb_prefix = ''rocksdb.titandb.''"

definition stats_type_string_map :: "(string \<times> StatsType) list" where
  "stats_type_string_map =
     [(titandb_prefix @ ''live-blob-size'', LIVE_BLOB_SIZE),
      (titandb_prefix @ ''num-live-blob-file'', NUM_LIVE_BLOB_FILE),
      (titandb_prefix @ ''num-obsolete-blob-file'', NUM_OBSOLETE_BLOB_FILE),
      (titandb_prefix @ ''live-blob-file-size'', LIVE_BLOB_FILE_SIZE),
      (titandb_prefix @ ''obsolete-blob-file-size'', OBSOLETE_BLOB_FILE_SIZE),
      (titandb_prefix @ ''num-discardable-ratio-le0-file'', NUM_DISCARDABLE_RATIO_LE0),
      (titandb_prefix @ ''num-discardable-ratio-le20-file'', NUM_DISCARDABLE_RATIO_LE20),
      (titandb_prefix @ ''num-discardable-ratio-le50-file'', NUM_DISCARDABLE_RATIO_LE50),
      (titandb_prefix @ ''num-discardable-ratio-le80-file'', NUM_DISCARDABLE_RATIO_LE80),
      (titandb_prefix @ ''num-discardable-ratio-le100-file'', NUM_DISCARDABLE_RATIO_LE100)]"

definition GetIntProperty :: "TitanInternalStats \<Rightarrow> string \<Rightarrow> u64 option" where
  "GetIntProperty s property = map_option s (map_of stats_type_string_map property)"

text \<open>Reading a counter through an optional statistics object.\<close>

abbreviation stat :: "TitanInternalStats option \<Rightarrow> StatsType \<Rightarrow> u64" where
  "stat p type \<equiv> (case p of Some s \<Rightarrow> s type | None \<Rightarrow> 0)"

lemma stats_upd [simp]:
  "AddStats t v (Some s) = Some (s(t := s t + v))"
  "SubStats t v (Some s) = Some (s(t := s t - v))"
  "ResetStats t (Some s) = Some (s(t := 0))"
  "AddStats t v None = None" "SubStats t v None = None" "ResetStats t None = None"
  by (simp_all add: AddStats_def SubStats_def ResetStats_def TitanInternalStats_AddStats_def
      TitanInternalStats_SubStats_def TitanInternalStats_ResetStats_def)

lemma SubStats_AddStats: "SubStats t v (AddStats t v p) = p"
  by (cases p) auto

lemma AddStats_commute: "AddStats t v (AddStats u w p) = AddStats u w (AddStats t v p)"
  by (cases p) (auto simp: fun_eq_iff)

lemma stat_AddStats: "p \<noteq> None \<Longrightarrow> stat (AddStats t v p) u = stat p u + (if u = t then v else 0)"
  by (cases p) auto

lemma stat_SubStats: "p \<noteq> None \<Longrightarrow> stat (SubStats t v p) u = stat p u - (if u = t then v else 0)"
  by (cases p) auto

text \<open>Every counter is exposed under exactly one property name.\<close>

lemma stats_properties_cover:
  "set (map snd stats_type_string_map) = UNIV" "distinct (map fst stats_type_string_map)"
  "distinct (map snd stats_type_string_map)"
proof -
  have "x \<in> set (map snd stats_type_string_map)" for x
    by (cases x) (simp_all add: stats_type_string_map_def)
  then show "set (map snd stats_type_string_map) = UNIV" by blast
qed (simp_all add: stats_type_string_map_def titandb_prefix_def)

end
