(* ===== verification/Blob_File_Meta.thy ===== *)
theory Blob_File_Meta
  imports Blob_Format Titan_Stats
begin

text \<open>
  \<^verbatim>\<open>BlobFileMeta\<close> of \<^verbatim>\<open>blob_format.h/.cc\<close>: the persistent and volatile description of a blob
  file, its encoding in the manifest (current and legacy), the state machine of a file's
  life, and the accounting of discardable bytes.

  The code is built in release mode, where \<^verbatim>\<open>assert\<close> is compiled out: \<^verbatim>\<open>FileStateTransit\<close> is
  modelled with the assertions absent, and the asserted conditions are the separate predicate
  \<open>transit_assert\<close>. Ratios of sizes are exact rationals where the code computes in
  double precision; a file of size zero, which no builder writes, has ratio zero here.
\<close>

datatype FileEvent =
    EvInit
  | kFlushCompleted
  | kCompactionCompleted
  | kGCCompleted
  | kGCBegin
  | kGCOutput
  | kFlushOrCompactionOutput
  | kDbRestart
  | kDelete
  | kNeedMerge
  | kReset
  | kNeedGC

datatype FileState =
    kInit
  | kNormal
  | kPendingLSM
  | kBeingGC
  | kPendingGC
  | kObsolete
  | kToMerge
  | kToGC

record BlobFileMeta =
  file_number :: u64
  file_size :: u64
  file_entries :: u64
  file_type :: u32
  file_level :: u32
  smallest_key :: bytes
  largest_key :: bytes
  file_state :: FileState
  discardable_size :: u64
  gc_mark :: bool

text \<open>\<^verbatim>\<open>std::make_shared<BlobFileMeta>()\<close> value-initialises the object.\<close>

definition new_BlobFileMeta :: BlobFileMeta where
  "new_BlobFileMeta =
     \<lparr>file_number = 0, file_size = 0, file_entries = 0, file_type = kUnSorted, file_level = 0,
      smallest_key = [], largest_key = [], file_state = kInit, discardable_size = 0, gc_mark = False\<rparr>"

definition BlobFileMeta_eq :: "BlobFileMeta \<Rightarrow> BlobFileMeta \<Rightarrow> bool" where
  "BlobFileMeta_eq l r \<longleftrightarrow>
     file_number l = file_number r \<and> file_size l = file_size r \<and>
     file_entries l = file_entries r \<and> file_level l = file_level r"

section \<open>Encoding in the manifest\<close>

definition BlobFileMeta_EncodeTo :: "BlobFileMeta \<Rightarrow> bytes \<Rightarrow> bytes" where
  "BlobFileMeta_EncodeTo f dst =
     (let dst = PutVarint64 dst (file_number f);
          dst = PutVarint64 dst (file_size f);
          dst = PutVarint64 dst (file_entries f);
          dst = PutVarint32 dst (file_type f);
          dst = PutVarint32 dst (file_level f);
          dst = PutLengthPrefixedSlice dst (smallest_key f)
      in PutLengthPrefixedSlice dst (largest_key f))"

definition BlobFileMeta_DecodeFromLegacy :: "bytes \<Rightarrow> Status + (BlobFileMeta \<times> bytes)" where
  "BlobFileMeta_DecodeFromLegacy src =
     or_status Corruption
       (do { (fn, src) \<leftarrow> GetVarint64 src;
             (sz, src) \<leftarrow> GetVarint64 src;
             Some (new_BlobFileMeta\<lparr>file_number := fn, file_size := sz\<rparr>, src) })"

definition BlobFileMeta_DecodeFrom :: "bytes \<Rightarrow> Status + (BlobFileMeta \<times> bytes)" where
  "BlobFileMeta_DecodeFrom src =
     or_status Corruption
       (do { (fn, src) \<leftarrow> GetVarint64 src;
             (sz, src) \<leftarrow> GetVarint64 src;
             (n, src) \<leftarrow> GetVarint64 src;
             (ty, src) \<leftarrow> GetVarint32 src;
             (lv, src) \<leftarrow> GetVarint32 src;
             (sk, src) \<leftarrow> GetLengthPrefixedSlice src;
             (lk, src) \<leftarrow> GetLengthPrefixedSlice src;
             Some (new_BlobFileMeta\<lparr>file_number := fn, file_size := sz, file_entries := n,
                     file_type := ty, file_level := lv, smallest_key := sk, largest_key := lk\<rparr>,
                   src) })"

section \<open>The state machine\<close>

fun FileStateTransit :: "FileEvent \<Rightarrow> FileState \<Rightarrow> FileState" where
  "FileStateTransit kFlushCompleted s = (if s = kPendingLSM then kNormal else s)"
| "FileStateTransit kGCCompleted s = (if s = kObsolete then s else kNormal)"
| "FileStateTransit kCompactionCompleted s = kNormal"
| "FileStateTransit kGCBegin s = kBeingGC"
| "FileStateTransit kGCOutput s = kPendingGC"
| "FileStateTransit kFlushOrCompactionOutput s = kPendingLSM"
| "FileStateTransit kDbRestart s = kNormal"
| "FileStateTransit kDelete s = kObsolete"
| "FileStateTransit kNeedMerge s = (if s = kToGC \<or> s = kObsolete then s else kToMerge)"
| "FileStateTransit kReset s = kNormal"
| "FileStateTransit kNeedGC s = (if s = kObsolete then s else kToGC)"
| "FileStateTransit EvInit s = s"

fun transit_assert :: "FileEvent \<Rightarrow> FileState \<Rightarrow> bool" where
  "transit_assert kFlushCompleted s \<longleftrightarrow>
     s = kPendingLSM \<or> s = kPendingGC \<or> s = kNormal \<or> s = kBeingGC \<or> s = kObsolete"
| "transit_assert kGCCompleted s \<longleftrightarrow> s = kObsolete \<or> s = kPendingGC \<or> s = kBeingGC"
| "transit_assert kCompactionCompleted s \<longleftrightarrow> s = kPendingLSM"
| "transit_assert kGCBegin s \<longleftrightarrow> s = kNormal"
| "transit_assert kGCOutput s \<longleftrightarrow> s = kInit"
| "transit_assert kFlushOrCompactionOutput s \<longleftrightarrow> s = kInit"
| "transit_assert kDbRestart s \<longleftrightarrow> s = kInit"
| "transit_assert kDelete s \<longleftrightarrow> s \<noteq> kObsolete"
| "transit_assert kNeedMerge s \<longleftrightarrow> True"
| "transit_assert kReset s \<longleftrightarrow> True"
| "transit_assert kNeedGC s \<longleftrightarrow> True"
| "transit_assert EvInit s \<longleftrightarrow> False"

definition transit :: "FileEvent \<Rightarrow> BlobFileMeta \<Rightarrow> BlobFileMeta" where
  "transit e f = f\<lparr>file_state := FileStateTransit e (file_state f)\<rparr>"

definition is_obsolete :: "BlobFileMeta \<Rightarrow> bool" where
  "is_obsolete f \<longleftrightarrow> file_state f = kObsolete"

section \<open>Discardable bytes\<close>

definition AddDiscardableSize :: "u64 \<Rightarrow> BlobFileMeta \<Rightarrow> BlobFileMeta" where
  "AddDiscardableSize d f = f\<lparr>discardable_size := discardable_size f + d\<rparr>"

definition GetDiscardableRatio :: "BlobFileMeta \<Rightarrow> rat" where
  "GetDiscardableRatio f = of_nat (unat (discardable_size f)) / of_nat (unat (file_size f))"

definition NoLiveData :: "BlobFileMeta \<Rightarrow> bool" where
  "NoLiveData f \<longleftrightarrow>
     discardable_size f = file_size f - of_nat kBlobHeaderSize - of_nat kBlobFooterSize"

definition GetDiscardableRatioLevel :: "BlobFileMeta \<Rightarrow> StatsType" where
  "GetDiscardableRatioLevel f =
     (let ratio = GetDiscardableRatio f in
      if ratio = 0 then NUM_DISCARDABLE_RATIO_LE0
      else if ratio \<le> 1 / 5 then NUM_DISCARDABLE_RATIO_LE20
      else if ratio \<le> 1 / 2 then NUM_DISCARDABLE_RATIO_LE50
      else if ratio \<le> 4 / 5 then NUM_DISCARDABLE_RATIO_LE80
      else NUM_DISCARDABLE_RATIO_LE100)"

section \<open>Round trip of the manifest encoding\<close>

text \<open>What of a file meta survives in the manifest; the volatile fields restart.\<close>

definition persistent :: "BlobFileMeta \<Rightarrow> BlobFileMeta" where
  "persistent f = f\<lparr>file_state := kInit, discardable_size := 0, gc_mark := False\<rparr>"

definition meta_keys_ok :: "BlobFileMeta \<Rightarrow> bool" where
  "meta_keys_ok f \<longleftrightarrow> slice_ok (smallest_key f) \<and> slice_ok (largest_key f)"

lemma persistent_fields [meta_simps, simp]:
  "file_number (persistent f) = file_number f" "file_size (persistent f) = file_size f"
  "file_entries (persistent f) = file_entries f" "file_type (persistent f) = file_type f"
  "file_level (persistent f) = file_level f" "smallest_key (persistent f) = smallest_key f"
  "largest_key (persistent f) = largest_key f" "file_state (persistent f) = kInit"
  "discardable_size (persistent f) = 0" "gc_mark (persistent f) = False"
  "persistent (persistent f) = persistent f"
  by (simp_all add: persistent_def)

lemma BlobFileMeta_EncodeTo_append:
  "BlobFileMeta_EncodeTo f dst = dst @ BlobFileMeta_EncodeTo f []"
  by (simp add: BlobFileMeta_EncodeTo_def codec_simps)

lemma BlobFileMeta_Decode_Encode [codec_simps]:
  assumes "meta_keys_ok f"
  shows "BlobFileMeta_DecodeFrom (BlobFileMeta_EncodeTo f [] @ r) = Inr (persistent f, r)"
  using assms
  by (simp add: BlobFileMeta_DecodeFrom_def BlobFileMeta_EncodeTo_def codec_simps meta_keys_ok_def
      persistent_def new_BlobFileMeta_def)

lemma BlobFileMeta_consumes:
  "BlobFileMeta_DecodeFrom src = Inr (f, rest) \<Longrightarrow> length rest < length src"
  by (auto simp: BlobFileMeta_DecodeFrom_def bind_eq_Some_conv
      dest!: varint64.get_consumes varint32.get_consumes GetLengthPrefixedSlice_consumes)

lemma BlobFileMeta_Legacy_consumes:
  "BlobFileMeta_DecodeFromLegacy src = Inr (f, rest) \<Longrightarrow> length rest < length src"
  by (auto simp: BlobFileMeta_DecodeFromLegacy_def bind_eq_Some_conv dest!: varint64.get_consumes)

interpretation blob_file_meta: codec "\<lambda>f. BlobFileMeta_EncodeTo f []"
  "\<lambda>src. opt_of (BlobFileMeta_DecodeFrom src)" "\<lambda>f. meta_keys_ok f \<and> persistent f = f"
  by unfold_locales (simp_all add: BlobFileMeta_Decode_Encode BlobFileMeta_consumes)

lemma BlobFileMeta_eq_iff_encoded:
  "BlobFileMeta_eq f g \<longleftrightarrow> BlobFileMeta_eq (persistent f) (persistent g)"
  by (simp add: BlobFileMeta_eq_def)

section \<open>The life of a file\<close>

lemma transit_fields [meta_simps, simp]:
  "file_number (transit e f) = file_number f" "file_size (transit e f) = file_size f"
  "file_entries (transit e f) = file_entries f" "file_type (transit e f) = file_type f"
  "file_level (transit e f) = file_level f" "smallest_key (transit e f) = smallest_key f"
  "largest_key (transit e f) = largest_key f" "discardable_size (transit e f) = discardable_size f"
  "gc_mark (transit e f) = gc_mark f" "file_state (transit e f) = FileStateTransit e (file_state f)"
  by (simp_all add: transit_def)

lemma AddDiscardableSize_fields [meta_simps, simp]:
  "file_number (AddDiscardableSize d f) = file_number f"
  "file_size (AddDiscardableSize d f) = file_size f"
  "file_entries (AddDiscardableSize d f) = file_entries f"
  "file_type (AddDiscardableSize d f) = file_type f"
  "file_level (AddDiscardableSize d f) = file_level f"
  "smallest_key (AddDiscardableSize d f) = smallest_key f"
  "largest_key (AddDiscardableSize d f) = largest_key f"
  "file_state (AddDiscardableSize d f) = file_state f"
  "discardable_size (AddDiscardableSize d f) = discardable_size f + d"
  by (simp_all add: AddDiscardableSize_def)

lemma is_obsolete_persistent [simp]: "\<not> is_obsolete (persistent f)"
  by (simp add: is_obsolete_def)

lemma is_obsolete_AddDiscardableSize [simp]: "is_obsolete (AddDiscardableSize d f) = is_obsolete f"
  by (simp add: is_obsolete_def)

lemma is_obsolete_transit_delete [simp]: "is_obsolete (transit kDelete f)"
  by (simp add: is_obsolete_def)

text \<open>The transitions whose assertions hold; \<^const>\<open>kReset\<close> is for tests only.\<close>

inductive asserted_step :: "FileState \<Rightarrow> FileState \<Rightarrow> bool" where
  asserted: "transit_assert e s \<Longrightarrow> e \<noteq> kReset \<Longrightarrow> asserted_step s (FileStateTransit e s)"

inductive_simps asserted_step_iff: "asserted_step s t"
inductive_cases asserted_step_from_obsolete: "asserted_step kObsolete t"

lemma asserted_step_obsolete:
  assumes "asserted_step kObsolete t"
  shows "t = kObsolete"
proof -
  obtain e where "transit_assert e kObsolete" "e \<noteq> kReset" "t = FileStateTransit e kObsolete"
    using assms by (elim asserted_step_from_obsolete)
  then show ?thesis by (cases e) auto
qed

lemma obsolete_absorbing: "asserted_step\<^sup>*\<^sup>* kObsolete t \<Longrightarrow> t = kObsolete"
  by (induction rule: rtranclp_induct) (auto dest: asserted_step_obsolete)

lemma asserted_step_not_init: "asserted_step s t \<Longrightarrow> t \<noteq> kInit"
proof (induction rule: asserted_step.induct)
  case (asserted e s)
  then show ?case by (cases e) auto
qed

lemma never_init_again: "asserted_step\<^sup>+\<^sup>+ s t \<Longrightarrow> t \<noteq> kInit"
  by (induction rule: tranclp_induct) (auto dest: asserted_step_not_init)

text \<open>A file becomes an input of GC only from the normal state.\<close>

lemma begin_gc_from_normal: "asserted_step s kBeingGC \<Longrightarrow> s = kNormal \<or> s = kBeingGC"
proof (induction s kBeingGC rule: asserted_step.induct)
  case (asserted e s)
  then show ?case by (cases e) (auto split: if_splits)
qed

text \<open>With the assertions compiled out, these are the events that keep an obsolete file so.\<close>

lemma FileStateTransit_obsolete_iff:
  "FileStateTransit e kObsolete = kObsolete \<longleftrightarrow>
     e \<in> {EvInit, kFlushCompleted, kGCCompleted, kDelete, kNeedMerge, kNeedGC}"
  by (cases e) auto

section \<open>Discardable accounting\<close>

lemma unat_discardable_add:
  assumes "unat (discardable_size f) + unat d < unat (file_size f)"
  shows "unat (discardable_size (AddDiscardableSize d f)) = unat (discardable_size f) + unat d"
proof -
  have "unat (discardable_size f) + unat d < 2 ^ LENGTH(64)"
    using assms unsigned_less [of "file_size f"] by (rule less_trans)
  then have "unat (discardable_size f + d) = unat (discardable_size f) + unat d"
    by (rule unat_add_lem [THEN iffD1])
  then show ?thesis by simp
qed

lemma GetDiscardableRatio_less_1:
  assumes "discardable_size f < file_size f"
  shows "0 \<le> GetDiscardableRatio f \<and> GetDiscardableRatio f < 1"
proof -
  have "0 \<le> of_nat a / (of_nat b :: rat) \<and> of_nat a / (of_nat b :: rat) < 1" if "a < b" for a b :: nat
    using that by simp
  then show ?thesis using assms unfolding GetDiscardableRatio_def word_less_nat_alt .
qed

text \<open>The ratio level in integer arithmetic on the sizes.\<close>

lemma GetDiscardableRatioLevel_int:
  fixes f
  defines "d \<equiv> unat (discardable_size f)" and "s \<equiv> unat (file_size f)"
  assumes "0 < s"
  shows "GetDiscardableRatioLevel f =
     (if d = 0 then NUM_DISCARDABLE_RATIO_LE0
      else if 5 * d \<le> s then NUM_DISCARDABLE_RATIO_LE20
      else if 2 * d \<le> s then NUM_DISCARDABLE_RATIO_LE50
      else if 5 * d \<le> 4 * s then NUM_DISCARDABLE_RATIO_LE80
      else NUM_DISCARDABLE_RATIO_LE100)"
proof -
  have pos: "(0 :: rat) < of_nat s" using assms(3) by simp
  have "of_nat d / (of_nat s :: rat) \<le> 1 / 5 \<longleftrightarrow> of_nat (5 * d) \<le> (of_nat s :: rat)"
    "of_nat d / (of_nat s :: rat) \<le> 1 / 2 \<longleftrightarrow> of_nat (2 * d) \<le> (of_nat s :: rat)"
    "of_nat d / (of_nat s :: rat) \<le> 4 / 5 \<longleftrightarrow> of_nat (5 * d) \<le> (of_nat (4 * s) :: rat)"
    using pos by (simp_all add: pos_divide_le_eq mult.commute)
  then have "of_nat d / (of_nat s :: rat) \<le> 1 / 5 \<longleftrightarrow> 5 * d \<le> s"
    "of_nat d / (of_nat s :: rat) \<le> 1 / 2 \<longleftrightarrow> 2 * d \<le> s"
    "of_nat d / (of_nat s :: rat) \<le> 4 / 5 \<longleftrightarrow> 5 * d \<le> 4 * s"
    unfolding of_nat_le_iff .
  moreover have "of_nat d / (of_nat s :: rat) = 0 \<longleftrightarrow> d = 0" using pos by simp
  ultimately show ?thesis
    by (simp only: GetDiscardableRatioLevel_def GetDiscardableRatio_def Let_def
        flip: d_def s_def)
qed

lemma NoLiveData_iff:
  assumes "kBlobHeaderSize + kBlobFooterSize \<le> unat (file_size f)"
  shows "NoLiveData f \<longleftrightarrow>
     unat (discardable_size f) + kBlobHeaderSize + kBlobFooterSize = unat (file_size f)"
proof -
  have le: "(40 :: u64) \<le> file_size f" using assms unfolding word_le_nat_alt by simp
  have "unat (file_size f - 40) = unat (file_size f) - unat (40 :: u64)"
    by (rule unat_sub [OF le])
  then have u: "unat (file_size f - 40) = unat (file_size f) - 40" by simp
  have "NoLiveData f \<longleftrightarrow> discardable_size f = file_size f - 40"
    by (simp add: NoLiveData_def diff_diff_eq)
  also have "\<dots> \<longleftrightarrow> unat (discardable_size f) = unat (file_size f) - 40"
    by (simp only: word_unat_eq_iff u)
  finally show ?thesis using assms by linarith
qed

section \<open>Properties\<close>

lemma collected_was_normal:
  assumes "asserted_step\<^sup>*\<^sup>* s t" and "t = kBeingGC" and "s \<noteq> kBeingGC"
  shows "asserted_step\<^sup>*\<^sup>* s kNormal"
  using assms
proof (induction rule: rtranclp_induct)
  case (step u t)
  then show ?case using begin_gc_from_normal [of u] by auto
qed simp





end
