(* ===== verification/Version_Edit.thy ===== *)
theory Version_Edit
  imports Blob_File_Meta
begin

text \<open>
  \<^verbatim>\<open>VersionEdit\<close> of \<^verbatim>\<open>version_edit.h/.cc\<close>: a record of the manifest, the changes one operation
  makes to the blob files of a column family. The decoder is the loop over tagged fields of
  the source; it terminates because every field consumes at least its tag.
\<close>

abbreviation (input) kNextFileNumber :: u32 where "kNextFileNumber \<equiv> 1"
abbreviation (input) kColumnFamilyID :: u32 where "kColumnFamilyID \<equiv> 10"
abbreviation (input) kAddedBlobFile :: u32 where "kAddedBlobFile \<equiv> 11"
abbreviation (input) kDeletedBlobFile :: u32 where "kDeletedBlobFile \<equiv> 12"
abbreviation (input) kAddedBlobFileV2 :: u32 where "kAddedBlobFileV2 \<equiv> 13"
abbreviation (input) kUpdateDiscardableSize :: u32 where "kUpdateDiscardableSize \<equiv> 14"

record VersionEdit =
  ve_has_next_file_number :: bool
  ve_next_file_number :: u64
  ve_column_family_id :: u32
  ve_added_files :: "BlobFileMeta list"
  ve_deleted_files :: "(u64 \<times> u64) list"
  ve_updated_discardable_size :: "(u64 \<times> u64) list"

definition new_VersionEdit :: VersionEdit where
  "new_VersionEdit =
     \<lparr>ve_has_next_file_number = False, ve_next_file_number = 0, ve_column_family_id = 0,
      ve_added_files = [], ve_deleted_files = [], ve_updated_discardable_size = []\<rparr>"

definition SetNextFileNumber :: "u64 \<Rightarrow> VersionEdit \<Rightarrow> VersionEdit" where
  "SetNextFileNumber v e = e\<lparr>ve_has_next_file_number := True, ve_next_file_number := v\<rparr>"

definition SetColumnFamilyID :: "u32 \<Rightarrow> VersionEdit \<Rightarrow> VersionEdit" where
  "SetColumnFamilyID v e = e\<lparr>ve_column_family_id := v\<rparr>"

definition VersionEdit_AddBlobFile :: "BlobFileMeta \<Rightarrow> VersionEdit \<Rightarrow> VersionEdit" where
  "VersionEdit_AddBlobFile f e = e\<lparr>ve_added_files := ve_added_files e @ [f]\<rparr>"

definition UpdateBlobFile :: "u64 \<Rightarrow> u64 \<Rightarrow> VersionEdit \<Rightarrow> VersionEdit" where
  "UpdateBlobFile n d e =
     e\<lparr>ve_updated_discardable_size := emplace n d (ve_updated_discardable_size e)\<rparr>"

definition DeleteBlobFile :: "u64 \<Rightarrow> u64 \<Rightarrow> VersionEdit \<Rightarrow> VersionEdit" where
  "DeleteBlobFile n obsolete_sequence e =
     e\<lparr>ve_deleted_files := ve_deleted_files e @ [(n, obsolete_sequence)]\<rparr>"

section \<open>Encoding\<close>

definition VersionEdit_EncodeTo :: "VersionEdit \<Rightarrow> bytes \<Rightarrow> bytes" where
  "VersionEdit_EncodeTo e dst =
     (let dst = (if ve_has_next_file_number e
                 then PutVarint32Varint64 dst kNextFileNumber (ve_next_file_number e) else dst);
          dst = PutVarint32Varint32 dst kColumnFamilyID (ve_column_family_id e);
          dst = fold (\<lambda>f dst. BlobFileMeta_EncodeTo f (PutVarint32 dst kAddedBlobFileV2))
                     (ve_added_files e) dst;
          dst = fold (\<lambda>f dst. PutVarint32Varint64 dst kDeletedBlobFile (fst f))
                     (ve_deleted_files e) dst
      in fold (\<lambda>f dst. PutVarint64 (PutVarint64 (PutVarint32 dst kUpdateDiscardableSize) (fst f)) (snd f))
              (ve_updated_discardable_size e) dst)"

section \<open>Decoding\<close>

text \<open>One turn of the \<^verbatim>\<open>switch\<close>: the tag has been read, \<^const>\<open>None\<close> sets the error.\<close>

definition decode_field :: "u32 \<Rightarrow> VersionEdit \<Rightarrow> bytes \<Rightarrow> (VersionEdit \<times> bytes) option" where
  "decode_field tag e src =
     (if tag = kNextFileNumber then
        do { (v, src) \<leftarrow> GetVarint64 src; Some (SetNextFileNumber v e, src) }
      else if tag = kColumnFamilyID then
        do { (v, src) \<leftarrow> GetVarint32 src; Some (SetColumnFamilyID v e, src) }
      else if tag = kAddedBlobFile then
        do { (f, src) \<leftarrow> opt_of (BlobFileMeta_DecodeFromLegacy src);
             Some (VersionEdit_AddBlobFile f e, src) }
      else if tag = kAddedBlobFileV2 then
        do { (f, src) \<leftarrow> opt_of (BlobFileMeta_DecodeFrom src);
             Some (VersionEdit_AddBlobFile f e, src) }
      else if tag = kDeletedBlobFile then
        do { (n, src) \<leftarrow> GetVarint64 src; Some (DeleteBlobFile n 0 e, src) }
      else if tag = kUpdateDiscardableSize then
        do { (n, src) \<leftarrow> GetVarint64 src;
             (d, src) \<leftarrow> GetVarint64 src;
             Some (UpdateBlobFile n d e, src) }
      else None)"

lemma decode_field_consumes:
  "decode_field tag e src = Some (e', rest) \<Longrightarrow> length rest < length src"
  by (auto simp: decode_field_def bind_eq_Some_conv split: if_splits
      dest!: varint64.get_consumes varint32.get_consumes BlobFileMeta_consumes
        BlobFileMeta_Legacy_consumes)

function VersionEdit_DecodeFrom :: "VersionEdit \<Rightarrow> bytes \<Rightarrow> Status + VersionEdit" where
  "VersionEdit_DecodeFrom e src =
     (if src = [] then Inr e
      else
        (case do { (tag, src) \<leftarrow> GetVarint32 src; decode_field tag e src } of
           None \<Rightarrow> Inl Corruption
         | Some (e, src) \<Rightarrow> VersionEdit_DecodeFrom e src))"
  by pat_completeness auto
termination
  by (relation "measure (\<lambda>(e, src). length src)")
    (auto simp: bind_eq_Some_conv dest!: varint32.get_consumes decode_field_consumes)

declare VersionEdit_DecodeFrom.simps [simp del]

section \<open>Equality\<close>

text \<open>The comparison of the source: the files of the right edit are looked up by number in the
  left one, and the discardable updates are not compared.\<close>

definition VersionEdit_eq :: "VersionEdit \<Rightarrow> VersionEdit \<Rightarrow> bool" where
  "VersionEdit_eq l r \<longleftrightarrow>
     (if length (ve_added_files l) \<noteq> length (ve_added_files r) then False
      else
        let blob_files = fold (\<lambda>f m. emplace (file_number f) f m) (ve_added_files l) [] in
        (\<forall>f \<in> set (ve_added_files r).
           case map_of blob_files (file_number f) of
             None \<Rightarrow> False | Some g \<Rightarrow> BlobFileMeta_eq g f) \<and>
        ve_has_next_file_number l = ve_has_next_file_number r \<and>
        ve_next_file_number l = ve_next_file_number r \<and>
        ve_column_family_id l = ve_column_family_id r \<and>
        ve_deleted_files l = ve_deleted_files r)"

section \<open>Round trip\<close>

text \<open>What a decoded edit keeps: volatile file fields and obsolete sequences are not written.\<close>

definition persistent_edit :: "VersionEdit \<Rightarrow> VersionEdit" where
  "persistent_edit e =
     e\<lparr>ve_next_file_number := (if ve_has_next_file_number e then ve_next_file_number e else 0),
       ve_added_files := map persistent (ve_added_files e),
       ve_deleted_files := map (\<lambda>(n, _). (n, 0)) (ve_deleted_files e)\<rparr>"

definition edit_ok :: "VersionEdit \<Rightarrow> bool" where
  "edit_ok e \<longleftrightarrow> list_all meta_keys_ok (ve_added_files e) \<and>
     distinct (keys (ve_updated_discardable_size e))"

lemma VersionEdit_DecodeFrom_Nil [simp]: "VersionEdit_DecodeFrom e [] = Inr e"
  by (simp add: VersionEdit_DecodeFrom.simps)

lemma decode_tag:
  assumes "decode_field tag e src = Some (e', rest)"
  shows "VersionEdit_DecodeFrom e (EncodeVarint32 tag @ src) = VersionEdit_DecodeFrom e' rest"
  using assms varint32.put_nonempty [of tag]
  by (subst VersionEdit_DecodeFrom.simps) (simp add: codec_simps)

lemma fold_append_out: "fold (\<lambda>x dst. dst @ g x) xs dst = dst @ concat (map g xs)"
  by (induction xs arbitrary: dst) auto

lemma VersionEdit_EncodeTo_eq:
  "VersionEdit_EncodeTo e dst =
     dst @ (if ve_has_next_file_number e
            then EncodeVarint32 kNextFileNumber @ EncodeVarint64 (ve_next_file_number e) else [])
     @ EncodeVarint32 kColumnFamilyID @ EncodeVarint32 (ve_column_family_id e)
     @ concat (map (\<lambda>f. EncodeVarint32 kAddedBlobFileV2 @ BlobFileMeta_EncodeTo f []) (ve_added_files e))
     @ concat (map (\<lambda>f. EncodeVarint32 kDeletedBlobFile @ EncodeVarint64 (fst f)) (ve_deleted_files e))
     @ concat (map (\<lambda>f. EncodeVarint32 kUpdateDiscardableSize @ EncodeVarint64 (fst f)
                 @ EncodeVarint64 (snd f)) (ve_updated_discardable_size e))"
  by (simp add: VersionEdit_EncodeTo_def put_append BlobFileMeta_EncodeTo_append [of _ "_ @ _"]
      fold_append_out)

lemma decode_next:
  "VersionEdit_DecodeFrom e (EncodeVarint32 kNextFileNumber @ EncodeVarint64 v @ src) =
     VersionEdit_DecodeFrom (SetNextFileNumber v e) src"
  by (rule decode_tag) (simp add: decode_field_def codec_simps)

lemma decode_cf:
  "VersionEdit_DecodeFrom e (EncodeVarint32 kColumnFamilyID @ EncodeVarint32 v @ src) =
     VersionEdit_DecodeFrom (SetColumnFamilyID v e) src"
  by (rule decode_tag) (simp add: decode_field_def codec_simps)

lemma decode_added:
  assumes "list_all meta_keys_ok fs"
  shows "VersionEdit_DecodeFrom e
      (concat (map (\<lambda>f. EncodeVarint32 kAddedBlobFileV2 @ BlobFileMeta_EncodeTo f []) fs) @ src)
    = VersionEdit_DecodeFrom (e\<lparr>ve_added_files := ve_added_files e @ map persistent fs\<rparr>) src"
  using assms
proof (induction fs arbitrary: e)
  case (Cons f fs)
  have "VersionEdit_DecodeFrom e (EncodeVarint32 kAddedBlobFileV2 @ BlobFileMeta_EncodeTo f [] @ s)
      = VersionEdit_DecodeFrom (VersionEdit_AddBlobFile (persistent f) e) s" for s
    using Cons.prems by (intro decode_tag) (simp add: decode_field_def codec_simps)
  then show ?case using Cons by (simp add: VersionEdit_AddBlobFile_def)
qed simp

lemma decode_deleted:
  "VersionEdit_DecodeFrom e
      (concat (map (\<lambda>f. EncodeVarint32 kDeletedBlobFile @ EncodeVarint64 (fst f)) ds) @ src)
    = VersionEdit_DecodeFrom
        (e\<lparr>ve_deleted_files := ve_deleted_files e @ map (\<lambda>(n, _). (n, 0)) ds\<rparr>) src"
proof (induction ds arbitrary: e)
  case (Cons d ds)
  have "VersionEdit_DecodeFrom e (EncodeVarint32 kDeletedBlobFile @ EncodeVarint64 n @ s)
      = VersionEdit_DecodeFrom (DeleteBlobFile n 0 e) s" for n s
    by (intro decode_tag) (simp add: decode_field_def codec_simps)
  then show ?case using Cons by (simp add: DeleteBlobFile_def split: prod.splits)
qed simp

lemma decode_updated:
  assumes "distinct (keys (ve_updated_discardable_size e @ us))"
  shows "VersionEdit_DecodeFrom e
      (concat (map (\<lambda>f. EncodeVarint32 kUpdateDiscardableSize @ EncodeVarint64 (fst f)
          @ EncodeVarint64 (snd f)) us) @ src)
    = VersionEdit_DecodeFrom
        (e\<lparr>ve_updated_discardable_size := ve_updated_discardable_size e @ us\<rparr>) src"
  using assms
proof (induction us arbitrary: e)
  case (Cons u us)
  have "VersionEdit_DecodeFrom e
        (EncodeVarint32 kUpdateDiscardableSize @ EncodeVarint64 n @ EncodeVarint64 d @ s)
      = VersionEdit_DecodeFrom (UpdateBlobFile n d e) s" for n d s
    by (intro decode_tag) (simp add: decode_field_def codec_simps)
  moreover have "emplace (fst u) (snd u) (ve_updated_discardable_size e)
      = ve_updated_discardable_size e @ [u]"
  proof -
    have "map_of (ve_updated_discardable_size e) (fst u) = None"
      using Cons.prems by (auto simp: map_of_eq_None_iff)
    then show ?thesis by (simp add: emplace_def)
  qed
  ultimately show ?case using Cons by (simp add: UpdateBlobFile_def)
qed simp

lemma VersionEdit_Decode_Encode [codec_simps]:
  assumes "edit_ok e"
  shows "VersionEdit_DecodeFrom new_VersionEdit (VersionEdit_EncodeTo e []) = Inr (persistent_edit e)"
proof -
  have D: "VersionEdit_DecodeFrom e0
      (EncodeVarint32 kColumnFamilyID @ EncodeVarint32 (ve_column_family_id e)
     @ concat (map (\<lambda>f. EncodeVarint32 kAddedBlobFileV2 @ BlobFileMeta_EncodeTo f []) (ve_added_files e))
     @ concat (map (\<lambda>f. EncodeVarint32 kDeletedBlobFile @ EncodeVarint64 (fst f)) (ve_deleted_files e))
     @ concat (map (\<lambda>f. EncodeVarint32 kUpdateDiscardableSize @ EncodeVarint64 (fst f)
                 @ EncodeVarint64 (snd f)) (ve_updated_discardable_size e)))
    = Inr (e0\<lparr>ve_column_family_id := ve_column_family_id e,
         ve_added_files := map persistent (ve_added_files e),
         ve_deleted_files := map (\<lambda>(n, _). (n, 0)) (ve_deleted_files e),
         ve_updated_discardable_size := ve_updated_discardable_size e\<rparr>)"
    if "ve_added_files e0 = []" "ve_deleted_files e0 = []" "ve_updated_discardable_size e0 = []" for e0
    using assms that decode_updated [of _ "ve_updated_discardable_size e" "[]"]
    by (simp add: decode_cf decode_added decode_deleted edit_ok_def SetColumnFamilyID_def)
  show ?thesis
    by (simp add: VersionEdit_EncodeTo_eq decode_next D new_VersionEdit_def SetNextFileNumber_def
        persistent_edit_def)
qed

section \<open>Properties\<close>

text \<open>
  C17. A version edit written to the manifest is read back: every added file with all its
  persistent fields, every deletion, every discardable-size update, the column family and the
  next file number, in the order they were written.
\<close>

theorem version_edit_roundtrip:
  assumes "edit_ok e"
  shows "VersionEdit_DecodeFrom new_VersionEdit (VersionEdit_EncodeTo e []) = Inr (persistent_edit e) \<and>
    (\<forall>e'. edit_ok e' \<and> VersionEdit_EncodeTo e' [] = VersionEdit_EncodeTo e [] \<longrightarrow> persistent_edit e' = persistent_edit e)"
proof (intro conjI allI impI)
  fix e'
  assume "edit_ok e' \<and> VersionEdit_EncodeTo e' [] = VersionEdit_EncodeTo e []"
  then show "persistent_edit e' = persistent_edit e"
    using VersionEdit_Decode_Encode [of e'] VersionEdit_Decode_Encode [OF assms] by simp
qed (rule VersionEdit_Decode_Encode [OF assms])

definition w_edit :: VersionEdit where
  "w_edit = UpdateBlobFile 4 17 (DeleteBlobFile 3 100
     (VersionEdit_AddBlobFile (new_BlobFileMeta\<lparr>file_number := 5, file_size := 1000, smallest_key := [1], largest_key := [9]\<rparr>)
       (SetColumnFamilyID 0 new_VersionEdit)))"

theorem version_edit_roundtrip_witness:
  "edit_ok w_edit \<and>
   VersionEdit_DecodeFrom new_VersionEdit (VersionEdit_EncodeTo w_edit []) = Inr (persistent_edit w_edit) \<and>
   ve_deleted_files (persistent_edit w_edit) = [(3, 0)] \<and> ve_updated_discardable_size (persistent_edit w_edit) = [(4, 17)]"
proof -
  have "edit_ok w_edit"
    by (simp add: edit_ok_def w_edit_def DeleteBlobFile_def UpdateBlobFile_def SetColumnFamilyID_def
        VersionEdit_AddBlobFile_def new_VersionEdit_def emplace_def meta_keys_ok_def)
  then show ?thesis
    using version_edit_roundtrip [of w_edit]
    by (simp add: persistent_edit_def w_edit_def DeleteBlobFile_def UpdateBlobFile_def SetColumnFamilyID_def
        VersionEdit_AddBlobFile_def new_VersionEdit_def emplace_def)
qed

end
