(* ===== verification/Blob_File.thy ===== *)
theory Blob_File
  imports Titan_Options
begin

text \<open>
  Writing and reading blob files: \<^verbatim>\<open>BlobFileBuilder\<close>, \<^verbatim>\<open>BlobFileReader\<close>, \<^verbatim>\<open>BlobFilePrefetcher\<close> and
  \<^verbatim>\<open>BlobFileCache\<close>.

  A file being written is the list of its bytes. \<open>ap\<close> answers a call of
  \<^verbatim>\<open>WritableFileWriter::Append\<close> with a status and the bytes that reached the file. A file
  opened for reading is a function from an offset and a size to the bytes read. A cache is an
  association list; the theorems hold for every content that respects what was inserted, so
  they do not depend on when the cache evicts.
\<close>

type_synonym append_io = "bytes \<Rightarrow> Status \<times> bytes"
type_synonym random_file = "u64 \<Rightarrow> u64 \<Rightarrow> Status + bytes"
type_synonym blob_cache = "(bytes \<times> bytes) list"

text \<open>What an append promises: success means that all of the data was appended.\<close>

definition append_ok :: "append_io \<Rightarrow> bool" where
  "append_ok ap \<longleftrightarrow> (\<forall>d. fst (ap d) = OK \<longrightarrow> snd (ap d) = d)"

text \<open>\<^verbatim>\<open>RandomAccessFileReader::Read\<close> on a file with the given content: a read past the end is short.\<close>

definition pread :: "bytes \<Rightarrow> random_file" where
  "pread content off n = Inr (take (unat n) (drop (unat off) content))"

section \<open>The builder\<close>

record BlobFileBuilder =
  bb_cf_options :: TitanCFOptions
  bb_file :: bytes
  bb_status :: Status
  bb_encoder :: BlobEncoder
  bb_num_entries :: u64
  bb_smallest_key :: bytes
  bb_largest_key :: bytes

definition new_BlobFileBuilder :: "append_io \<Rightarrow> TitanCFOptions \<Rightarrow> BlobFileBuilder" where
  "new_BlobFileBuilder ap cf =
     (let (st, w) = ap (BlobFileHeader_EncodeTo \<lparr>header_version = kVersion1\<rparr> [])
      in \<lparr>bb_cf_options = cf, bb_file = w, bb_status = st,
          bb_encoder = \<lparr>enc_compression = blob_file_compression cf, enc_header = [], enc_record = []\<rparr>,
          bb_num_entries = 0, bb_smallest_key = [], bb_largest_key = []\<rparr>)"

text \<open>The key range after a record: an empty smallest key stands for no record yet.\<close>

definition extend_keys :: "bytes \<Rightarrow> BlobFileBuilder \<Rightarrow> BlobFileBuilder" where
  "extend_keys k b =
     (let b = (if bb_smallest_key b = [] then b\<lparr>bb_smallest_key := k, bb_largest_key := k\<rparr> else b);
          cmp = comparator (bb_cf_options b)
      in if cmp k (bb_largest_key b) > 0 then b\<lparr>bb_largest_key := k\<rparr>
         else if cmp k (bb_smallest_key b) < 0 then b\<lparr>bb_smallest_key := k\<rparr>
         else b)"

definition BlobFileBuilder_Add ::
  "compression_libs \<Rightarrow> checksum \<Rightarrow> append_io \<Rightarrow> BlobRecord \<Rightarrow> BlobHandle \<Rightarrow> BlobFileBuilder \<Rightarrow> BlobHandle \<times> BlobFileBuilder" where
  "BlobFileBuilder_Add L Extend ap r h b =
     (if \<not> ok (bb_status b) then (h, b)
      else
        let e = EncodeRecord L Extend (bb_encoder b) r;
            h = \<lparr>bh_offset = word_of_nat (length (bb_file b)), bh_size = word_of_nat (GetEncodedSize e)\<rparr>;
            (st, w) = ap (enc_header e @ enc_record e);
            b = b\<lparr>bb_encoder := e, bb_status := st, bb_file := bb_file b @ w\<rparr>
        in (h, if ok st then extend_keys (rec_key r) (b\<lparr>bb_num_entries := bb_num_entries b + 1\<rparr>) else b))"

definition null_footer :: BlobFileFooter where
  "null_footer = \<lparr>meta_index_handle = \<lparr>blk_offset = 0, blk_size = 0\<rparr>\<rparr>"

text \<open>\<open>flush\<close> is the status of the flush.\<close>

definition BlobFileBuilder_Finish :: "checksum \<Rightarrow> append_io \<Rightarrow> Status \<Rightarrow> BlobFileBuilder \<Rightarrow> Status \<times> BlobFileBuilder" where
  "BlobFileBuilder_Finish Extend ap flush b =
     (if \<not> ok (bb_status b) then (bb_status b, b)
      else
        let (st, w) = ap (BlobFileFooter_EncodeTo Extend null_footer []);
            b = b\<lparr>bb_file := bb_file b @ w, bb_status := (if ok st then flush else st)\<rparr>
        in (bb_status b, b))"

section \<open>The reader\<close>

record BlobFileReader =
  br_file :: random_file
  br_cache_prefix :: bytes
  br_footer :: BlobFileFooter

text \<open>\<open>uid\<close> is the unique id of the file, empty when it has none, \<open>new_id\<close> an id of the cache.\<close>

definition GenerateCachePrefix :: "bytes \<Rightarrow> u64 \<Rightarrow> bytes" where
  "GenerateCachePrefix uid new_id = (if uid = [] then EncodeVarint64 new_id else uid)"

definition EncodeBlobCache :: "bytes \<Rightarrow> u64 \<Rightarrow> bytes" where
  "EncodeBlobCache prefix off = PutVarint64 prefix off"

definition BlobFileReader_Open :: "checksum \<Rightarrow> bytes \<Rightarrow> random_file \<Rightarrow> u64 \<Rightarrow> Status + BlobFileReader" where
  "BlobFileReader_Open Extend prefix file file_size =
     (if file_size < of_nat kBlobFooterSize then Inl Corruption
      else
        (case file (file_size - of_nat kBlobFooterSize) (of_nat kBlobFooterSize) of
           Inl s \<Rightarrow> Inl s
         | Inr buffer \<Rightarrow>
             (case DecodeInto (BlobFileFooter_DecodeFrom Extend) buffer of
                Inl s \<Rightarrow> Inl s
              | Inr footer \<Rightarrow> Inr \<lparr>br_file = file, br_cache_prefix = prefix, br_footer = footer\<rparr>)))"

text \<open>The record and the bytes its slices point into.\<close>

definition decoded_buffer :: "compression_libs \<Rightarrow> BlobDecoder \<Rightarrow> bytes \<Rightarrow> bytes" where
  "decoded_buffer L d blob =
     (if dec_compression d = kNoCompression then blob
      else case Uncompress L (dec_compression d) (take (unat (dec_record_size d)) blob) of Inl _ \<Rightarrow> blob | Inr b \<Rightarrow> b)"

definition ReadRecord ::
  "compression_libs \<Rightarrow> checksum \<Rightarrow> random_file \<Rightarrow> BlobHandle \<Rightarrow> BlobRecord \<Rightarrow> Status + BlobRecord \<times> bytes" where
  "ReadRecord L Extend file h r0 =
     (case file (bh_offset h) (bh_size h) of
        Inl s \<Rightarrow> Inl s
      | Inr blob \<Rightarrow>
          if bh_size h \<noteq> word_of_nat (length blob) then Inl Corruption
          else
            (case DecodeHeader Extend blob of
               Inl s \<Rightarrow> Inl s
             | Inr (d, blob) \<Rightarrow>
                 (case DecodeRecord L d r0 blob of
                    Inl s \<Rightarrow> Inl s
                  | Inr (r, _) \<Rightarrow> Inr (r, decoded_buffer L d blob))))"

definition BlobFileReader_Get ::
  "compression_libs \<Rightarrow> checksum \<Rightarrow> BlobFileReader \<Rightarrow> BlobHandle \<Rightarrow> BlobRecord \<Rightarrow> blob_cache option
     \<Rightarrow> (Status + BlobRecord) \<times> blob_cache option" where
  "BlobFileReader_Get L Extend rd h r0 cache =
     (let key = EncodeBlobCache (br_cache_prefix rd) (bh_offset h) in
      case Option.bind cache (\<lambda>c. map_of c key) of
        Some blob \<Rightarrow> (DecodeInto (BlobRecord_DecodeFrom r0) blob, cache)
      | None \<Rightarrow>
          (case ReadRecord L Extend (br_file rd) h r0 of
             Inl s \<Rightarrow> (Inl s, cache)
           | Inr (r, blob) \<Rightarrow> (Inr r, map_option (AList.update key blob) cache)))"

section \<open>The prefetcher\<close>

record BlobFilePrefetcher =
  pf_reader :: BlobFileReader
  pf_last_offset :: u64
  pf_readahead_size :: u64
  pf_readahead_limit :: u64
  pf_only_value :: bool

definition new_BlobFilePrefetcher :: "BlobFileReader \<Rightarrow> bool \<Rightarrow> BlobFilePrefetcher" where
  "new_BlobFilePrefetcher rd ov =
     \<lparr>pf_reader = rd, pf_last_offset = 0, pf_readahead_size = 0, pf_readahead_limit = 0, pf_only_value = ov\<rparr>"

abbreviation (input) kMaxReadaheadSize :: u64 where "kMaxReadaheadSize \<equiv> 64 * 2 ^ 10"

text \<open>The readahead bookkeeping and the ranges \<^verbatim>\<open>Prefetch\<close> is called for.\<close>

definition readahead :: "BlobHandle \<Rightarrow> BlobFilePrefetcher \<Rightarrow> BlobFilePrefetcher \<times> (u64 \<times> u64) list" where
  "readahead h pf =
     (let e = bh_offset h + bh_size h in
      if bh_offset h = pf_last_offset pf then
        let pf = pf\<lparr>pf_last_offset := e\<rparr> in
        if e > pf_readahead_limit pf then
          let size = max (bh_size h) (pf_readahead_size pf)
          in (pf\<lparr>pf_readahead_limit := bh_offset h + size, pf_readahead_size := min kMaxReadaheadSize (size * 2)\<rparr>,
              [(bh_offset h, size)])
        else (pf, [])
      else (pf\<lparr>pf_last_offset := e, pf_readahead_size := 0, pf_readahead_limit := 0\<rparr>, []))"

text \<open>\<^verbatim>\<open>BlobFilePrefetcher::Prefetch\<close>: the range read ahead for a handle.\<close>

definition BlobFilePrefetcher_Prefetch :: "BlobHandle \<Rightarrow> (u64 \<times> u64) list" where
  "BlobFilePrefetcher_Prefetch h = [(bh_offset h, bh_size h)]"

definition BlobFilePrefetcher_PointGet ::
  "compression_libs \<Rightarrow> checksum \<Rightarrow> BlobFilePrefetcher \<Rightarrow> BlobHandle \<Rightarrow> BlobRecord \<Rightarrow> blob_cache option
     \<Rightarrow> (Status + BlobRecord) \<times> blob_cache option" where
  "BlobFilePrefetcher_PointGet L Extend pf h r0 cache =
     BlobFileReader_Get L Extend (pf_reader pf) h (r0\<lparr>only_value := pf_only_value pf\<rparr>) cache"

definition BlobFilePrefetcher_Get ::
  "compression_libs \<Rightarrow> checksum \<Rightarrow> BlobFilePrefetcher \<Rightarrow> BlobHandle \<Rightarrow> BlobRecord \<Rightarrow> blob_cache option
     \<Rightarrow> (Status + BlobRecord) \<times> blob_cache option \<times> BlobFilePrefetcher \<times> (u64 \<times> u64) list" where
  "BlobFilePrefetcher_Get L Extend pf h r0 cache =
     (let (pf, io) = readahead h pf;
          (r, cache) = BlobFileReader_Get L Extend (pf_reader pf) h (r0\<lparr>only_value := pf_only_value pf\<rparr>) cache
      in (r, cache, pf, io))"

section \<open>The cache of open files\<close>

text \<open>
  \<open>open_file\<close> is what opening the file of a number for reading returns, together with the
  cache prefix of the new reader.
\<close>

type_synonym open_io = "u64 \<Rightarrow> Status + random_file \<times> bytes"
type_synonym file_readers = "(u64 \<times> BlobFileReader) list"

definition BlobFileCache_FindFile ::
  "checksum \<Rightarrow> open_io \<Rightarrow> u64 \<Rightarrow> u64 \<Rightarrow> file_readers \<Rightarrow> (Status + BlobFileReader) \<times> file_readers" where
  "BlobFileCache_FindFile Extend open_file n file_size rs =
     (case map_of rs n of
        Some rd \<Rightarrow> (Inr rd, rs)
      | None \<Rightarrow>
          (case open_file n of
             Inl s \<Rightarrow> (Inl s, rs)
           | Inr (file, prefix) \<Rightarrow>
               (case BlobFileReader_Open Extend prefix file file_size of
                  Inl s \<Rightarrow> (Inl s, rs)
                | Inr rd \<Rightarrow> (Inr rd, AList.update n rd rs))))"

definition BlobFileCache_Get ::
  "compression_libs \<Rightarrow> checksum \<Rightarrow> open_io \<Rightarrow> u64 \<Rightarrow> u64 \<Rightarrow> BlobHandle \<Rightarrow> BlobRecord \<Rightarrow> file_readers \<Rightarrow> blob_cache option
     \<Rightarrow> (Status + BlobRecord) \<times> file_readers \<times> blob_cache option" where
  "BlobFileCache_Get L Extend open_file n file_size h r0 rs cache =
     (case BlobFileCache_FindFile Extend open_file n file_size rs of
        (Inl s, rs) \<Rightarrow> (Inl s, rs, cache)
      | (Inr rd, rs) \<Rightarrow> (let (r, cache) = BlobFileReader_Get L Extend rd h r0 cache in (r, rs, cache)))"

definition BlobFileCache_NewPrefetcher ::
  "checksum \<Rightarrow> open_io \<Rightarrow> u64 \<Rightarrow> u64 \<Rightarrow> bool \<Rightarrow> file_readers \<Rightarrow> (Status + BlobFilePrefetcher) \<times> file_readers" where
  "BlobFileCache_NewPrefetcher Extend open_file n file_size sorted_blob rs =
     (case BlobFileCache_FindFile Extend open_file n file_size rs of
        (Inl s, rs) \<Rightarrow> (Inl s, rs)
      | (Inr rd, rs) \<Rightarrow> (Inr (new_BlobFilePrefetcher rd sorted_blob), rs))"

definition Evict :: "u64 \<Rightarrow> file_readers \<Rightarrow> file_readers" where
  "Evict n rs = AList.delete n rs"

section \<open>What the builder writes\<close>

lemma framed_compression:
  "enc_compression e = enc_compression e' \<Longrightarrow> framed L Extend e r = framed L Extend e' r"
  by (auto simp: framed_def EncodeRecord_def Let_def split: prod.splits)

lemma enc_compression_EncodeRecord [simp]: "enc_compression (EncodeRecord L Extend e r) = enc_compression e"
  by (auto simp: EncodeRecord_def Let_def split: prod.splits)

definition file_header :: bytes where
  "file_header = BlobFileHeader_EncodeTo \<lparr>header_version = kVersion1\<rparr> []"

lemma length_file_header [simp]: "length file_header = 8"
  by (simp add: file_header_def length_BlobFileHeader)

text \<open>A sequence of records added one after the other, with the handles they receive.\<close>

fun add_records ::
  "compression_libs \<Rightarrow> checksum \<Rightarrow> append_io \<Rightarrow> BlobRecord list \<Rightarrow> BlobFileBuilder \<Rightarrow> BlobHandle list \<times> BlobFileBuilder" where
  "add_records L Extend ap [] b = ([], b)"
| "add_records L Extend ap (r # rs) b =
     (let (h, b) = BlobFileBuilder_Add L Extend ap r \<lparr>bh_offset = 0, bh_size = 0\<rparr> b;
          (hs, b) = add_records L Extend ap rs b
      in (h # hs, b))"

text \<open>The handles of records whose frames follow each other from an offset on.\<close>

fun handles_from :: "nat \<Rightarrow> bytes list \<Rightarrow> BlobHandle list" where
  "handles_from off [] = []"
| "handles_from off (f # fs) =
     \<lparr>bh_offset = word_of_nat off, bh_size = word_of_nat (length f)\<rparr> # handles_from (off + length f) fs"

lemma extend_keys_fields [simp]:
  "bb_file (extend_keys k b) = bb_file b" "bb_status (extend_keys k b) = bb_status b"
  "bb_encoder (extend_keys k b) = bb_encoder b" "bb_num_entries (extend_keys k b) = bb_num_entries b"
  "bb_cf_options (extend_keys k b) = bb_cf_options b"
  by (simp_all add: extend_keys_def Let_def)

lemma BlobFileBuilder_Add_failed:
  "bb_status b \<noteq> OK \<Longrightarrow> BlobFileBuilder_Add L Extend ap r h b = (h, b)"
  by (simp add: BlobFileBuilder_Add_def ok_def)

lemma add_records_failed: "bb_status b \<noteq> OK \<Longrightarrow> snd (add_records L Extend ap rs b) = b"
  by (induction rs) (simp_all add: BlobFileBuilder_Add_failed split_beta)

lemma BlobFileBuilder_Add_ok:
  assumes "append_ok ap" "BlobFileBuilder_Add L Extend ap r h b = (h', b')" "bb_status b' = OK"
  shows "bb_status b = OK" "bb_file b' = bb_file b @ framed L Extend (bb_encoder b) r"
    "h' = \<lparr>bh_offset = word_of_nat (length (bb_file b)),
           bh_size = word_of_nat (length (framed L Extend (bb_encoder b) r))\<rparr>"
    "enc_compression (bb_encoder b') = enc_compression (bb_encoder b)"
    "bb_num_entries b' = bb_num_entries b + 1" "bb_cf_options b' = bb_cf_options b"
proof -
  show st: "bb_status b = OK" using assms(2,3) BlobFileBuilder_Add_failed [of b] by fastforce
  let ?e = "EncodeRecord L Extend (bb_encoder b) r"
  have "fst (ap (enc_header ?e @ enc_record ?e)) = OK"
    using assms(2,3) st by (auto simp: BlobFileBuilder_Add_def Let_def ok_def split_beta split: if_splits)
  then have "ap (enc_header ?e @ enc_record ?e) = (OK, framed L Extend (bb_encoder b) r)"
    using assms(1) unfolding append_ok_def framed_def by (metis prod.collapse)
  then show "bb_file b' = bb_file b @ framed L Extend (bb_encoder b) r"
    "h' = \<lparr>bh_offset = word_of_nat (length (bb_file b)),
           bh_size = word_of_nat (length (framed L Extend (bb_encoder b) r))\<rparr>"
    "enc_compression (bb_encoder b') = enc_compression (bb_encoder b)"
    "bb_num_entries b' = bb_num_entries b + 1" "bb_cf_options b' = bb_cf_options b"
    using assms(2) st by (auto simp: BlobFileBuilder_Add_def Let_def length_framed)
qed

lemma add_records_spec:
  assumes "append_ok ap" "add_records L Extend ap rs b = (hs, b')" "bb_status b' = OK"
  shows "bb_status b = OK \<and> bb_file b' = bb_file b @ concat (map (framed L Extend (bb_encoder b)) rs) \<and>
    hs = handles_from (length (bb_file b)) (map (framed L Extend (bb_encoder b)) rs) \<and>
    enc_compression (bb_encoder b') = enc_compression (bb_encoder b) \<and>
    bb_num_entries b' = bb_num_entries b + word_of_nat (length rs) \<and> bb_cf_options b' = bb_cf_options b"
  using assms(2)
proof (induction rs arbitrary: b hs)
  case (Cons r rs)
  obtain h b1 where 1: "BlobFileBuilder_Add L Extend ap r \<lparr>bh_offset = 0, bh_size = 0\<rparr> b = (h, b1)" by fastforce
  obtain hs' where 2: "add_records L Extend ap rs b1 = (hs', b')" and hs: "hs = h # hs'"
    using Cons.prems 1 by (auto split: prod.splits)
  note IH = Cons.IH [OF 2]
  then have "bb_status b1 = OK" by simp
  note A = BlobFileBuilder_Add_ok [OF assms(1) 1 this]
  have "framed L Extend (bb_encoder b1) = framed L Extend (bb_encoder b)"
    using framed_compression [OF A(4)] by blast
  then show ?case using IH A hs by (simp add: add.assoc)
qed (use assms(3) in simp)

lemma new_BlobFileBuilder_ok:
  assumes "append_ok ap" "bb_status (new_BlobFileBuilder ap cf) = OK"
  shows "bb_file (new_BlobFileBuilder ap cf) = file_header"
    "enc_compression (bb_encoder (new_BlobFileBuilder ap cf)) = blob_file_compression cf"
    "bb_num_entries (new_BlobFileBuilder ap cf) = 0" "bb_smallest_key (new_BlobFileBuilder ap cf) = []"
    "bb_cf_options (new_BlobFileBuilder ap cf) = cf"
  using assms by (auto simp: new_BlobFileBuilder_def append_ok_def file_header_def Let_def split_beta)

lemma BlobFileBuilder_Finish_ok:
  assumes "append_ok ap" "BlobFileBuilder_Finish Extend ap flush b = (OK, b')"
  shows "bb_status b = OK" "bb_file b' = bb_file b @ BlobFileFooter_EncodeTo Extend null_footer []"
    "bb_num_entries b' = bb_num_entries b" "bb_smallest_key b' = bb_smallest_key b" "bb_largest_key b' = bb_largest_key b"
proof -
  show st: "bb_status b = OK" using assms(2) by (auto simp: BlobFileBuilder_Finish_def ok_def split: if_splits)
  let ?f = "BlobFileFooter_EncodeTo Extend null_footer []"
  have "fst (ap ?f) = OK"
    using assms(2) st by (auto simp: BlobFileBuilder_Finish_def Let_def ok_def split_beta split: if_splits)
  then have "ap ?f = (OK, ?f)" using assms(1) unfolding append_ok_def by (metis prod.collapse)
  then show "bb_file b' = bb_file b @ ?f" "bb_num_entries b' = bb_num_entries b"
    "bb_smallest_key b' = bb_smallest_key b" "bb_largest_key b' = bb_largest_key b"
    using assms(2) st by (auto simp: BlobFileBuilder_Finish_def Let_def)
qed
section \<open>Reading back\<close>

lemma unat_word_of_length64: "n < 2 ^ 64 \<Longrightarrow> unat (word_of_nat n :: u64) = n"
  by (simp add: unat_of_nat take_bit_nat_eq_self)

lemma pread_slice:
  assumes "length (pre @ mid @ post) < 2 ^ 64"
  shows "pread (pre @ mid @ post) (word_of_nat (length pre)) (word_of_nat (length mid)) = Inr mid"
proof -
  have "unat (word_of_nat (length pre) :: u64) = length pre" "unat (word_of_nat (length mid) :: u64) = length mid"
    using assms by (simp_all add: unat_word_of_length64)
  then show ?thesis by (simp add: pread_def)
qed

lemma framed_header_record:
  assumes "Compress L (enc_compression e) (BlobRecord_EncodeTo r []) = (y, c)"
  shows "\<exists>crc. framed L Extend e r = EncodeFixed32 crc @ EncodeFixed32 (word_of_nat (length y)) @ c # y"
  using assms by (auto simp: framed_def EncodeRecord_def Let_def)

lemma ReadRecord_framed:
  assumes "libs_ok L" "record_ok r" "only_value r0 = only_value r" "only_value r \<Longrightarrow> rec_key r0 = rec_key r"
    and "length (pre @ framed L Extend' e r @ post) < 2 ^ 64"
  shows "ReadRecord L Extend (pread (pre @ framed L Extend' e r @ post))
     \<lparr>bh_offset = word_of_nat (length pre), bh_size = word_of_nat (length (framed L Extend' e r))\<rparr> r0
     = Inr (r, BlobRecord_EncodeTo r [])"
proof -
  obtain y c where c: "Compress L (enc_compression e) (BlobRecord_EncodeTo r []) = (y, c)" by fastforce
  obtain crc where f: "framed L Extend' e r = EncodeFixed32 crc @ EncodeFixed32 (word_of_nat (length y)) @ c # y"
    using framed_header_record [OF c] by blast
  have n: "unat (word_of_nat (length y) :: u32) = length y"
    using Compress_length [OF c] assms(2) by (intro unat_word_of_length) (simp add: record_ok_def)
  let ?d = "\<lparr>dec_crc = crc, dec_header_crc = Extend 0 (EncodeFixed32 (word_of_nat (length y)) @ [c]),
      dec_record_size = word_of_nat (length y), dec_compression = c\<rparr>"
  have H: "DecodeHeader Extend (framed L Extend' e r) = Inr (?d, y)"
    unfolding f by (rule DecodeHeader_encoded)
  have R: "DecodeRecord L ?d r0 y = Inr (r, [])"
    using DecodeRecord_compressed [OF assms(1-4) c, of _ _ "[]"] by simp
  have B: "decoded_buffer L ?d y = BlobRecord_EncodeTo r []"
    using Compress_none [of L "enc_compression e" _ y] Uncompress_Compress [OF assms(1) c] c n
    by (auto simp: decoded_buffer_def)
  show ?thesis
    unfolding ReadRecord_def BlobHandle.simps pread_slice [OF assms(5)] using H R B by simp
qed

lemma handles_from_nth:
  "i < length fs \<Longrightarrow> handles_from off fs ! i =
     \<lparr>bh_offset = word_of_nat (off + length (concat (take i fs))), bh_size = word_of_nat (length (fs ! i))\<rparr>"
  by (induction fs arbitrary: i off) (auto simp: nth_Cons less_Suc_eq_0_disj split: nat.splits)

lemma length_handles_from [simp]: "length (handles_from off fs) = length fs"
  by (induction fs arbitrary: off) simp_all

lemma concat_split_nth: "i < length fs \<Longrightarrow> concat fs = concat (take i fs) @ fs ! i @ concat (drop (Suc i) fs)"
  by (metis append_take_drop_id concat.simps(2) concat_append id_take_nth_drop)

text \<open>Every handle of a file that consists of a prefix, frames and a rest reads its record.\<close>

lemma ReadRecord_nth:
  assumes "libs_ok L" "i < length rs" "record_ok (rs ! i)" "only_value r0 = only_value (rs ! i)"
    "only_value (rs ! i) \<Longrightarrow> rec_key r0 = rec_key (rs ! i)"
    and c: "c = pre @ concat (map (framed L Extend' e) rs) @ post" "length c < 2 ^ 64"
  shows "ReadRecord L Extend (pread c) (handles_from (length pre) (map (framed L Extend' e) rs) ! i) r0
     = Inr (rs ! i, BlobRecord_EncodeTo (rs ! i) [])"
proof -
  let ?fs = "map (framed L Extend' e) rs"
  have i: "i < length ?fs" using assms(2) by simp
  have "c = (pre @ concat (take i ?fs)) @ framed L Extend' e (rs ! i) @ (concat (drop (Suc i) ?fs) @ post)"
    unfolding c(1) concat_split_nth [OF i] using assms(2) by simp
  then show ?thesis
    using ReadRecord_framed [OF assms(1,3-5), of "pre @ concat (take i ?fs)" Extend' e "concat (drop (Suc i) ?fs) @ post" Extend]
      handles_from_nth [OF i, of "length pre"] c(2) assms(2) by simp
qed

lemma BlobFileReader_Open_footer:
  assumes "length (pre @ BlobFileFooter_EncodeTo Extend f []) < 2 ^ 64"
  shows "BlobFileReader_Open Extend prefix (pread (pre @ BlobFileFooter_EncodeTo Extend f []))
      (word_of_nat (length (pre @ BlobFileFooter_EncodeTo Extend f [])))
    = Inr \<lparr>br_file = pread (pre @ BlobFileFooter_EncodeTo Extend f []), br_cache_prefix = prefix, br_footer = f\<rparr>"
proof -
  let ?F = "BlobFileFooter_EncodeTo Extend f []"
  have l: "length ?F = 32" by (simp add: length_BlobFileFooter)
  have n: "word_of_nat (length (pre @ ?F)) = (word_of_nat (length pre) + 32 :: u64)" by (simp add: l)
  have "unat (word_of_nat (length (pre @ ?F)) :: u64) = length (pre @ ?F)"
    using assms by (rule unat_word_of_length64)
  then have ge: "\<not> (word_of_nat (length (pre @ ?F)) :: u64) < 32"
    unfolding word_less_nat_alt by (simp add: l)
  have r: "pread (pre @ ?F) (word_of_nat (length pre)) 32 = Inr ?F"
    using pread_slice [of pre ?F "[]"] assms by (simp add: l)
  have d: "DecodeInto (BlobFileFooter_DecodeFrom Extend) ?F = Inr f"
    using BlobFileFooter_Decode_Encode [of Extend f "[]"] by (simp add: DecodeInto_def)
  show ?thesis
    using ge unfolding BlobFileReader_Open_def n by (simp add: r d)
qed

section \<open>The cache of records\<close>

text \<open>The cache agrees with the records of a file: an entry under the offset of a record is that record.\<close>

definition cache_ok :: "bytes \<Rightarrow> (BlobHandle \<times> BlobRecord) list \<Rightarrow> blob_cache option \<Rightarrow> bool" where
  "cache_ok prefix hrs cache \<longleftrightarrow>
     (\<forall>c v h r. cache = Some c \<longrightarrow> (h, r) \<in> set hrs \<longrightarrow> map_of c (EncodeBlobCache prefix (bh_offset h)) = Some v \<longrightarrow>
        v = BlobRecord_EncodeTo r [])"

lemma EncodeBlobCache_inject [simp]: "EncodeBlobCache p a = EncodeBlobCache p b \<longleftrightarrow> a = b"
  using varint64.put_prefix_free [of a "[]" b "[]"] by (auto simp: EncodeBlobCache_def put_append)

text \<open>Records that sit at the same offset are the same.\<close>

definition offsets_ok :: "(BlobHandle \<times> BlobRecord) list \<Rightarrow> bool" where
  "offsets_ok hrs \<longleftrightarrow> (\<forall>(h, r) \<in> set hrs. \<forall>(h', r') \<in> set hrs. bh_offset h = bh_offset h' \<longrightarrow> r = r')"

lemma BlobFileReader_Get_ok:
  assumes r: "record_ok r" "only_value r0 = only_value r" "only_value r \<Longrightarrow> rec_key r0 = rec_key r"
    and "ReadRecord L Extend (br_file rd) h r0 = Inr (r, BlobRecord_EncodeTo r [])"
    and hr: "(h, r) \<in> set hrs" "offsets_ok hrs" and c: "cache_ok (br_cache_prefix rd) hrs cache"
  shows "fst (BlobFileReader_Get L Extend rd h r0 cache) = Inr r"
    "cache_ok (br_cache_prefix rd) hrs (snd (BlobFileReader_Get L Extend rd h r0 cache))"
proof -
  let ?k = "EncodeBlobCache (br_cache_prefix rd) (bh_offset h)"
  have hit: "blob = BlobRecord_EncodeTo r []" if "Option.bind cache (\<lambda>c. map_of c ?k) = Some blob" for blob
    using that c hr(1) unfolding cache_ok_def bind_eq_Some_conv by blast
  have dec: "DecodeInto (BlobRecord_DecodeFrom r0) (BlobRecord_EncodeTo r []) = Inr r"
    using r by (intro DecodeInto_BlobRecord)
  show "fst (BlobFileReader_Get L Extend rd h r0 cache) = Inr r"
  proof (cases "Option.bind cache (\<lambda>c. map_of c ?k)")
    case (Some blob)
    then show ?thesis unfolding hit [OF Some] using dec by (simp add: BlobFileReader_Get_def Let_def)
  qed (use assms(4) in \<open>simp add: BlobFileReader_Get_def Let_def\<close>)
  have "cache_ok (br_cache_prefix rd) hrs (map_option (AList.update ?k (BlobRecord_EncodeTo r [])) cache)"
    unfolding cache_ok_def
  proof (intro allI impI)
    fix c' v h' r'
    assume a: "map_option (AList.update ?k (BlobRecord_EncodeTo r [])) cache = Some c'" "(h', r') \<in> set hrs"
      "map_of c' (EncodeBlobCache (br_cache_prefix rd) (bh_offset h')) = Some v"
    then obtain c0 where c0: "cache = Some c0" "c' = AList.update ?k (BlobRecord_EncodeTo r []) c0" by auto
    show "v = BlobRecord_EncodeTo r' []"
    proof (cases "bh_offset h' = bh_offset h")
      case True
      then have "r' = r" using hr a(2) unfolding offsets_ok_def by fastforce
      then show ?thesis using a(3) True c0 by (simp add: AList.update_conv')
    next
      case False
      then have "map_of c0 (EncodeBlobCache (br_cache_prefix rd) (bh_offset h')) = Some v"
        using a(3) c0 by (simp add: AList.update_conv')
      then show ?thesis using c c0(1) a(2) unfolding cache_ok_def by blast
    qed
  qed
  then show "cache_ok (br_cache_prefix rd) hrs (snd (BlobFileReader_Get L Extend rd h r0 cache))"
    using assms(4) c
    by (cases "Option.bind cache (\<lambda>c. map_of c ?k)") (simp_all add: BlobFileReader_Get_def Let_def)
qed
section \<open>The key range of a built file\<close>

lemma add_records_options [simp]: "bb_cf_options (snd (add_records L Extend ap rs b)) = bb_cf_options b"
  by (induction rs arbitrary: b) (simp_all add: BlobFileBuilder_Add_def Let_def split_beta)

definition key_range :: "bytes set \<Rightarrow> BlobFileBuilder \<Rightarrow> bool" where
  "key_range K b \<longleftrightarrow>
     (if K = {} then bb_smallest_key b = []
      else bb_smallest_key b \<in> K \<and> bb_largest_key b \<in> K \<and>
        (\<forall>k \<in> K. comparator (bb_cf_options b) (bb_smallest_key b) k \<le> 0 \<and>
                 comparator (bb_cf_options b) k (bb_largest_key b) \<le> 0))"

lemma key_range_extend:
  assumes c: "comparator_ok (comparator (bb_cf_options b))" and K: "key_range K b" "[] \<notin> K"
  shows "key_range (insert k K) (extend_keys k b)"
proof (cases "K = {}")
  case True
  then show ?thesis
    using K(1) comparator_refl [OF c] by (simp add: key_range_def extend_keys_def Let_def)
next
  case False
  let ?c = "comparator (bb_cf_options b)" and ?s = "bb_smallest_key b" and ?l = "bb_largest_key b"
  have s: "?s \<in> K" "?l \<in> K" "\<And>x. x \<in> K \<Longrightarrow> ?c ?s x \<le> 0 \<and> ?c x ?l \<le> 0" "?s \<noteq> []"
    using K False by (auto simp: key_range_def)
  have flip: "?c x y < 0 \<longleftrightarrow> 0 < ?c y x" and eq: "?c x y = 0 \<longleftrightarrow> x = y" for x y
    using c unfolding comparator_ok_def by blast+
  have le: "?c x y \<le> 0 \<longleftrightarrow> \<not> ?c y x < 0" for x y
    using flip [of y x] by auto
  have tr: "?c x z \<le> 0" if "?c x y \<le> 0" "?c y z \<le> 0" for x y z
    using comparator_le_trans [OF c that] .
  show ?thesis
  proof (cases "0 < ?c k ?l")
    case True
    then have "?c ?l k \<le> 0" using flip [of ?l k] by simp
    then show ?thesis
      using True s tr comparator_refl [OF c, of k] False by (auto simp: key_range_def extend_keys_def Let_def)
  next
    case l: False
    then show ?thesis
    proof (cases "?c k ?s < 0")
      case True
      then show ?thesis
        using l s tr [of k ?s] comparator_refl [OF c, of k] False by (auto simp: key_range_def extend_keys_def Let_def)
    next
      case f: False
      then have "?c ?s k \<le> 0" using le [of ?s k] by simp
      then show ?thesis
        using l f s False by (auto simp: key_range_def extend_keys_def Let_def)
    qed
  qed
qed

lemma BlobFileBuilder_Add_keys:
  assumes "BlobFileBuilder_Add L Extend ap r h b = (h', b')" "bb_status b' = OK"
  shows "bb_smallest_key b' = bb_smallest_key (extend_keys (rec_key r) b) \<and>
    bb_largest_key b' = bb_largest_key (extend_keys (rec_key r) b) \<and> bb_cf_options b' = bb_cf_options b"
  using assms BlobFileBuilder_Add_failed [of b L Extend ap r h]
  by (cases "bb_status b = OK")
    (auto simp: BlobFileBuilder_Add_def Let_def ok_def extend_keys_def split: prod.splits if_splits)

lemma add_records_keys:
  assumes "add_records L Extend ap rs b = (hs, b')" "bb_status b' = OK"
    and "comparator_ok (comparator (bb_cf_options b))" "key_range K b" "[] \<notin> K \<union> rec_key ` set rs"
  shows "key_range (K \<union> rec_key ` set rs) b'"
  using assms
proof (induction rs arbitrary: b hs K)
  case (Cons r rs)
  obtain h b1 where 1: "BlobFileBuilder_Add L Extend ap r \<lparr>bh_offset = 0, bh_size = 0\<rparr> b = (h, b1)" by fastforce
  obtain hs' where 2: "add_records L Extend ap rs b1 = (hs', b')" using Cons.prems(1) 1 by (auto split: prod.splits)
  have "bb_status b1 = OK"
    using add_records_failed [of b1 L Extend ap rs] 2 Cons.prems(2) by auto
  note A = BlobFileBuilder_Add_keys [OF 1 this]
  have "key_range (insert (rec_key r) K) b1"
    using key_range_extend [OF Cons.prems(3,4), of "rec_key r"] Cons.prems(5) A by (simp add: key_range_def)
  moreover have "comparator_ok (comparator (bb_cf_options b1))" using Cons.prems(3) A by simp
  ultimately show ?case
    using Cons.IH [OF 2 Cons.prems(2), of "insert (rec_key r) K"] Cons.prems(5) by simp
qed simp

lemma length_framed_pos: "0 < length (framed L Extend e r)"
  by (simp add: length_framed GetEncodedSize_def)

lemma length_concat_take: "i \<le> length fs \<Longrightarrow> length (concat (take i fs)) \<le> length (concat fs)"
  by (metis append_take_drop_id concat_append le_add1 length_append)

lemma handles_offsets_inj:
  assumes "i < length fs" "j < length fs" "off + length (concat fs) < 2 ^ 64" "\<And>f. f \<in> set fs \<Longrightarrow> f \<noteq> []"
    and "bh_offset (handles_from off fs ! i) = bh_offset (handles_from off fs ! j)"
  shows "i = j"
proof -
  have lt: "length (concat (take a fs)) < length (concat (take b fs))" if "a < b" "b \<le> length fs" for a b
  proof -
    have "a < length (take b fs)" using that by simp
    from concat_split_nth [OF this]
    have "concat (take b fs) = concat (take a fs) @ fs ! a @ concat (drop (Suc a) (take b fs))" using that by simp
    moreover have "fs ! a \<noteq> []" using that assms(4) by simp
    ultimately show ?thesis by simp
  qed
  have "unat (word_of_nat (off + length (concat (take k fs))) :: u64) = off + length (concat (take k fs))"
    if "k < length fs" for k
    using length_concat_take [of k fs] that assms(3) by (intro unat_word_of_length64) simp
  then have "length (concat (take i fs)) = length (concat (take j fs))"
    using assms(1,2,5) handles_from_nth [of i fs off] handles_from_nth [of j fs off]
    by (metis BlobHandle.select_convs(1) add_left_cancel)
  then show ?thesis using lt [of i j] lt [of j i] assms(1,2) by (cases i j rule: linorder_cases) auto
qed
lemma built_file:
  assumes "append_ok ap" "add_records L Extend ap rs (new_BlobFileBuilder ap cf) = (hs, b)"
    "BlobFileBuilder_Finish Extend ap flush b = (OK, b')"
  shows "bb_file b' = file_header @ concat (map (framed L Extend (bb_encoder (new_BlobFileBuilder ap cf))) rs)
      @ BlobFileFooter_EncodeTo Extend null_footer [] \<and>
    hs = handles_from (length file_header) (map (framed L Extend (bb_encoder (new_BlobFileBuilder ap cf))) rs) \<and>
    bb_num_entries b' = word_of_nat (length rs)"
proof -
  note fin = BlobFileBuilder_Finish_ok [OF assms(1,3)]
  note add = add_records_spec [OF assms(1,2) fin(1)]
  then have "bb_status (new_BlobFileBuilder ap cf) = OK" by simp
  note new = new_BlobFileBuilder_ok [OF assms(1) this]
  show ?thesis using add fin new by simp
qed

text \<open>A blob file with the given records and handles, as the builder leaves it.\<close>

definition built_from ::
  "compression_libs \<Rightarrow> checksum \<Rightarrow> BlobRecord list \<Rightarrow> BlobHandle list \<Rightarrow> bytes \<Rightarrow> bool" where
  "built_from L Extend rs hs c \<longleftrightarrow>
     length c < 2 ^ 64 \<and> (\<forall>r \<in> set rs. record_ok r) \<and>
     (\<exists>ap cf flush b b'. append_ok ap \<and> add_records L Extend ap rs (new_BlobFileBuilder ap cf) = (hs, b) \<and>
        BlobFileBuilder_Finish Extend ap flush b = (OK, b') \<and> c = bb_file b')"

lemma built_from_content:
  assumes "built_from L Extend rs hs c"
  obtains e where "c = file_header @ concat (map (framed L Extend e) rs) @ BlobFileFooter_EncodeTo Extend null_footer []"
    "hs = handles_from 8 (map (framed L Extend e) rs)"
proof -
  obtain ap cf flush b b' where "append_ok ap" "add_records L Extend ap rs (new_BlobFileBuilder ap cf) = (hs, b)"
    "BlobFileBuilder_Finish Extend ap flush b = (OK, b')" "c = bb_file b'"
    using assms by (auto simp: built_from_def)
  from built_file [OF this(1-3)] this(4) show ?thesis by (intro that) simp_all
qed

text \<open>A record without key comes back with the key that the caller's record has.\<close>

definition as_read :: "BlobRecord \<Rightarrow> BlobRecord \<Rightarrow> BlobRecord" where
  "as_read r0 r = (if only_value r then r\<lparr>rec_key := rec_key r0\<rparr> else r)"

lemma as_read_simps [simp]:
  "rec_value (as_read r0 r) = rec_value r" "only_value (as_read r0 r) = only_value r"
  "BlobRecord_EncodeTo (as_read r0 r) dst = BlobRecord_EncodeTo r dst" "framed L Extend e (as_read r0 r) = framed L Extend e r"
  "only_value r \<Longrightarrow> rec_key (as_read r0 r) = rec_key r0"
  by (simp_all add: as_read_def framed_def EncodeRecord_def BlobRecord_EncodeTo_def)

lemma map_framed_as_read [simp]: "map (framed L Extend e) (map (as_read r0) rs) = map (framed L Extend e) rs"
  by simp

lemma cache_ok_as_read: "cache_ok prefix (zip hs (map (as_read r0) rs)) cache = cache_ok prefix (zip hs rs) cache"
proof -
  have "set (zip hs (map (as_read r0) rs)) = (\<lambda>(h, r). (h, as_read r0 r)) ` set (zip hs rs)"
    by (simp add: zip_map2 image_image split_beta)
  then show ?thesis unfolding cache_ok_def by fastforce
qed

text \<open>Opening a built file and reading any of its records.\<close>

lemma built_from_reads:
  assumes "libs_ok L" "built_from L Extend rs hs c"
  obtains rd where "BlobFileReader_Open Extend prefix (pread c) (word_of_nat (length c)) = Inr rd"
    "\<And>i r0 cache. i < length rs \<Longrightarrow> only_value r0 = only_value (rs ! i) \<Longrightarrow> cache_ok prefix (zip hs rs) cache \<Longrightarrow>
      fst (BlobFileReader_Get L Extend rd (hs ! i) r0 cache) = Inr (as_read r0 (rs ! i)) \<and>
      cache_ok prefix (zip hs rs) (snd (BlobFileReader_Get L Extend rd (hs ! i) r0 cache))"
proof -
  obtain e where c: "c = file_header @ concat (map (framed L Extend e) rs) @ BlobFileFooter_EncodeTo Extend null_footer []"
    and hs: "hs = handles_from 8 (map (framed L Extend e) rs)"
    by (rule built_from_content [OF assms(2)])
  have small: "length c < 2 ^ 64" and ok: "\<forall>r \<in> set rs. record_ok r" using assms(2) by (simp_all add: built_from_def)
  let ?fs = "map (framed L Extend e) rs"
  let ?rd = "\<lparr>br_file = pread c, br_cache_prefix = prefix, br_footer = null_footer\<rparr>"
  have open_: "BlobFileReader_Open Extend prefix (pread c) (word_of_nat (length c)) = Inr ?rd"
    using BlobFileReader_Open_footer [of "file_header @ concat ?fs"] small unfolding c by simp
  have "8 + length (concat ?fs) < 2 ^ 64" using small unfolding c by simp
  have inj: "i = j" if "i < length rs" "j < length rs" "bh_offset (hs ! i) = bh_offset (hs ! j)" for i j
  proof (rule handles_offsets_inj [of i ?fs j 8])
    show "f \<noteq> []" if "f \<in> set ?fs" for f using that length_framed_pos [of L Extend] by auto
  qed (use that \<open>8 + length (concat ?fs) < 2 ^ 64\<close> hs in simp_all)
  have get: "fst (BlobFileReader_Get L Extend ?rd (hs ! i) r0 cache) = Inr (as_read r0 (rs ! i)) \<and>
      cache_ok prefix (zip hs rs) (snd (BlobFileReader_Get L Extend ?rd (hs ! i) r0 cache))"
    if i: "i < length rs" and r0: "only_value r0 = only_value (rs ! i)" and cache: "cache_ok prefix (zip hs rs) cache" for i r0 cache
  proof -
    let ?rs = "map (as_read r0) rs"
    have len: "length hs = length rs" by (simp add: hs)
    have offs: "offsets_ok (zip hs ?rs)" unfolding offsets_ok_def using inj len by (clarsimp simp: in_set_zip) blast
    have "record_ok (rs ! i)" using ok i by simp
    then have "record_ok (as_read r0 (rs ! i))" by (cases "only_value (rs ! i)") (simp_all add: record_ok_def, simp add: as_read_def)
    then have r: "record_ok (?rs ! i)" using i by simp
    have key: "only_value r0 = only_value (?rs ! i)" "only_value (?rs ! i) \<Longrightarrow> rec_key r0 = rec_key (?rs ! i)"
      using r0 i by simp_all
    have "c = file_header @ concat (map (framed L Extend e) ?rs) @ BlobFileFooter_EncodeTo Extend null_footer []"
      unfolding map_framed_as_read by (rule c)
    then have "ReadRecord L Extend (pread c) (handles_from (length file_header) (map (framed L Extend e) ?rs) ! i) r0
        = Inr (?rs ! i, BlobRecord_EncodeTo (?rs ! i) [])"
      using i small by (intro ReadRecord_nth [OF assms(1) _ r key]) simp_all
    then have "ReadRecord L Extend (br_file ?rd) (hs ! i) r0 = Inr (?rs ! i, BlobRecord_EncodeTo (?rs ! i) [])"
      unfolding map_framed_as_read by (simp only: BlobFileReader.simps hs length_file_header)
    moreover have "(hs ! i, ?rs ! i) \<in> set (zip hs ?rs)" using i len by (auto simp: in_set_zip)
    ultimately show ?thesis
      using BlobFileReader_Get_ok [OF r key, of L Extend ?rd "hs ! i" "zip hs ?rs" cache] offs cache i
      by (simp add: cache_ok_as_read)
  qed
  show ?thesis by (rule that [OF open_ get])
qed

section \<open>Properties\<close>

text \<open>
  C10. A blob file that was built without an error can be read back: the reader opens it, and
  every handle that the builder returned reads exactly the record it was returned for, whatever
  the compression and whatever the record cache holds of this file; the cache stays consistent.
  A record that was written without its key comes back with the key the caller supplied. The
  builder counts the records.
\<close>

theorem blob_file_roundtrip:
  assumes "append_ok ap" "libs_ok L" "\<forall>r \<in> set rs. record_ok r"
    and build: "add_records L Extend ap rs (new_BlobFileBuilder ap cf) = (hs, b)"
      "BlobFileBuilder_Finish Extend ap flush b = (OK, b')"
    and small: "length (bb_file b') < 2 ^ 64"
  shows "length hs = length rs \<and> bb_num_entries b' = word_of_nat (length rs) \<and>
    (\<exists>rd. BlobFileReader_Open Extend prefix (pread (bb_file b')) (word_of_nat (length (bb_file b'))) = Inr rd \<and>
      (\<forall>i r0 cache. i < length rs \<and> only_value r0 = only_value (rs ! i) \<and> cache_ok prefix (zip hs rs) cache \<longrightarrow>
         fst (BlobFileReader_Get L Extend rd (hs ! i) r0 cache) = Inr (as_read r0 (rs ! i)) \<and>
         cache_ok prefix (zip hs rs) (snd (BlobFileReader_Get L Extend rd (hs ! i) r0 cache))))"
proof -
  have "built_from L Extend rs hs (bb_file b')" using assms unfolding built_from_def by blast
  from built_from_reads [OF assms(2) this, of prefix] show ?thesis
    using built_file [OF assms(1) build] by (metis length_handles_from length_map)
qed

definition w_append :: append_io where
  "w_append d = (OK, d)"

definition w_blob_cf :: TitanCFOptions where
  "w_blob_cf = default_TitanCFOptions \<lparr>num_levels = 7, comparator = bytewise\<rparr>"

definition w_records :: "BlobRecord list" where
  "w_records = [\<lparr>rec_key = [2], rec_value = [7, 8], only_value = False\<rparr>, \<lparr>rec_key = [1], rec_value = [9], only_value = False\<rparr>]"

definition w_built :: "BlobHandle list \<times> BlobFileBuilder" where
  "w_built = add_records zero_libs (\<lambda>a _. a) w_append w_records (new_BlobFileBuilder w_append w_blob_cf)"

definition w_finished :: BlobFileBuilder where
  "w_finished = snd (BlobFileBuilder_Finish (\<lambda>a _. a) w_append OK (snd w_built))"

lemma w_append_ok: "append_ok w_append"
  by (simp add: append_ok_def w_append_def)

lemma w_records_ok: "\<forall>r \<in> set w_records. record_ok r"
proof -
  have "map (\<lambda>r. length (BlobRecord_EncodeTo r [])) w_records = [5, 4]" by code_simp
  then show ?thesis by (simp add: w_records_def record_ok_def)
qed

lemma w_built_eq: "add_records zero_libs (\<lambda>a _. a) w_append w_records (new_BlobFileBuilder w_append w_blob_cf) = (fst w_built, snd w_built)"
  by (simp add: w_built_def)

lemma w_built_status: "bb_status (snd w_built) = OK" "bb_smallest_key (snd w_built) = [1]" "bb_largest_key (snd w_built) = [2]"
  by code_simp+

lemma w_finish: "BlobFileBuilder_Finish (\<lambda>a _. a) w_append OK (snd w_built) = (OK, w_finished)"
proof -
  have "fst (BlobFileBuilder_Finish (\<lambda>a _. a) w_append OK (snd w_built)) = OK"
    by (simp add: BlobFileBuilder_Finish_def w_built_status w_append_def)
  then show ?thesis unfolding w_finished_def by (metis prod.collapse)
qed

lemma w_finished_length: "length (bb_file w_finished) = 67"
  by code_simp

lemma w_built_from: "built_from zero_libs (\<lambda>a _. a) w_records (fst w_built) (bb_file w_finished)"
  unfolding built_from_def using w_records_ok w_append_ok w_built_eq w_finish w_finished_length
  by (intro conjI exI [of _ w_append] exI [of _ w_blob_cf] exI [of _ OK] exI [of _ "snd w_built"] exI [of _ w_finished]) simp_all

theorem blob_file_roundtrip_witness:
  "\<exists>rd. BlobFileReader_Open (\<lambda>a _. a) [1] (pread (bb_file w_finished)) 67 = Inr rd \<and>
     fst (BlobFileReader_Get zero_libs (\<lambda>a _. a) rd (fst w_built ! 1) (w_records ! 0) (Some [])) = Inr (w_records ! 1)"
proof -
  have "length (bb_file w_finished) < 2 ^ 64" by (simp add: w_finished_length)
  from blob_file_roundtrip [OF w_append_ok zero_libs_ok w_records_ok w_built_eq w_finish this, of "[1]"]
  obtain rd where "BlobFileReader_Open (\<lambda>a _. a) [1] (pread (bb_file w_finished)) 67 = Inr rd"
    "\<forall>i r0 cache. i < length w_records \<and> only_value r0 = only_value (w_records ! i) \<and>
       cache_ok [1] (zip (fst w_built) w_records) cache \<longrightarrow>
       fst (BlobFileReader_Get zero_libs (\<lambda>a _. a) rd (fst w_built ! i) r0 cache) = Inr (as_read r0 (w_records ! i))"
    by (auto simp: w_finished_length)
  moreover have "cache_ok [1] (zip (fst w_built) w_records) (Some [])" by (simp add: cache_ok_def)
  moreover have "only_value (w_records ! 0) = only_value (w_records ! 1)" "as_read (w_records ! 0) (w_records ! 1) = w_records ! 1" "1 < length w_records"
    by (simp_all add: w_records_def as_read_def)
  ultimately show ?thesis by metis
qed

text \<open>
  The key range recorded for a built file is exact: for records with non-empty keys the
  smallest and the largest key are keys of the file and bound all of them in the order of the
  column family's comparator.
\<close>

theorem builder_key_range:
  assumes "add_records L Extend ap rs (new_BlobFileBuilder ap cf) = (hs, b)" "bb_status b = OK"
    and "comparator_ok (comparator cf)" "rs \<noteq> []" "\<forall>r \<in> set rs. rec_key r \<noteq> []"
  shows "bb_smallest_key b \<in> rec_key ` set rs \<and> bb_largest_key b \<in> rec_key ` set rs \<and>
    (\<forall>r \<in> set rs. comparator cf (bb_smallest_key b) (rec_key r) \<le> 0 \<and> comparator cf (rec_key r) (bb_largest_key b) \<le> 0)"
proof -
  have o: "bb_cf_options (new_BlobFileBuilder ap cf) = cf" "bb_smallest_key (new_BlobFileBuilder ap cf) = []"
    by (simp_all add: new_BlobFileBuilder_def split_beta)
  have k: "key_range ({} \<union> rec_key ` set rs) b"
  proof (rule add_records_keys [OF assms(1,2)])
    show "[] \<notin> {} \<union> rec_key ` set rs" using assms(5) by auto
  qed (use assms(3) o in \<open>simp_all add: key_range_def\<close>)
  have "bb_cf_options b = cf" using add_records_options [of L Extend ap rs "new_BlobFileBuilder ap cf"] assms(1) o by simp
  then show ?thesis using k assms(4) by (simp add: key_range_def)
qed

theorem builder_key_range_witness:
  "bb_smallest_key (snd w_built) = [1] \<and> bytewise [1] (rec_key (w_records ! 0)) \<le> 0"
proof -
  have "comparator w_blob_cf = bytewise"
    by (simp add: w_blob_cf_def default_TitanCFOptions_def TitanCFOptions.defs ColumnFamilyOptions.defs)
  moreover have "w_records \<noteq> []" "\<forall>r \<in> set w_records. rec_key r \<noteq> []" "w_records ! 0 \<in> set w_records"
    by (simp_all add: w_records_def)
  ultimately show ?thesis
    using builder_key_range [OF w_built_eq w_built_status(1)] bytewise_ok w_built_status by metis
qed

end
