(* ===== verification/Blob_Storage.thy ===== *)
theory Blob_Storage
  imports Blob_File_Meta Blob_File
begin

text \<open>
  \<^verbatim>\<open>BlobStorage\<close> of \<^verbatim>\<open>blob_storage.h/.cc\<close>: the blob files of one column family.

  \<^verbatim>\<open>files_\<close> owns the metas; every other structure refers to the same shared object, so the
  model stores a meta once, in \<open>files\<close>, and identifies it by its file number: an entry of
  \<open>blob_ranges\<close> is a smallest key with a file number. \<^verbatim>\<open>building_files_\<close> is the list of its
  keys; the reader of an entry reads the blob file of that number. \<open>stats\<close> is the object
  that \<^verbatim>\<open>stats_->internal_stats(cf_id_)\<close> resolves to, and \<open>file_cache\<close> holds the open readers
  by file number. The methods run under \<^verbatim>\<open>mutex_\<close>, so each is one step.
  Logging, the printing of file states and timers are not modelled.
\<close>

record GCScore =
  gcs_file_number :: u64
  gcs_score :: rat

record BlobStorage =
  db_options :: TitanDBOptions
  cf_options :: TitanCFOptions
  cf_id :: u32
  files :: "(u64 \<times> BlobFileMeta) list"
  building_files :: "u64 list"
  blob_ranges :: "(bytes \<times> u64) list"
  file_cache :: file_readers
  gc_score :: "GCScore list"
  obsolete_files :: "(u64 \<times> u64) list"
  destroyed :: bool
  stats :: "TitanInternalStats option"
  level_blob_size :: "u64 list"

definition new_BlobStorage ::
  "TitanDBOptions \<Rightarrow> TitanCFOptions \<Rightarrow> u32 \<Rightarrow> TitanInternalStats option \<Rightarrow> BlobStorage" where
  "new_BlobStorage db cf cid st =
     \<lparr>db_options = db, cf_options = cf, cf_id = cid, files = [], building_files = [],
      blob_ranges = [], file_cache = [], gc_score = [], obsolete_files = [], destroyed = False,
      stats = st, level_blob_size = replicate (num_levels cf + 1) 0\<rparr>"

section \<open>Lookups\<close>

definition FindFile :: "BlobStorage \<Rightarrow> u64 \<Rightarrow> BlobFileMeta option" where
  "FindFile s n = map_of (files s) n"

definition FindBuildingFile :: "BlobStorage \<Rightarrow> u64 \<Rightarrow> u64 option" where
  "FindBuildingFile s n = (if n \<in> set (building_files s) then Some n else None)"

definition NumBlobFiles :: "BlobStorage \<Rightarrow> nat" where
  "NumBlobFiles s = length (files s)"

definition NumObsoleteBlobFiles :: "BlobStorage \<Rightarrow> nat" where
  "NumObsoleteBlobFiles s = length (obsolete_files s)"

definition ShouldGCLowLevel :: "BlobStorage \<Rightarrow> bool" where
  "ShouldGCLowLevel s =
     (let k = num_levels (cf_options s) - 2;
          low_size = sum_list (take k (level_blob_size s));
          high_size = sum_list (take (num_levels (cf_options s) + 1 - k) (drop k (level_blob_size s)))
      in high_size > low_size \<and> low_size > 0 \<and> low_size + high_size > 100 * 2 ^ 30 \<and>
         (low_size + high_size) div low_size \<le> 10)"

text \<open>
  A range is a pair of optional bounds. The iteration from \<^verbatim>\<open>lower_bound\<close> of the start runs until
  it meets \<^verbatim>\<open>upper_bound\<close> of the limit; when the former lies behind the latter the iterator
  passes the end of the map.
\<close>

type_synonym RangePtr = "bytes option \<times> bytes option"

definition lower_bound :: "(bytes \<Rightarrow> bytes \<Rightarrow> int) \<Rightarrow> bytes \<Rightarrow> (bytes \<times> 'a) list \<Rightarrow> nat" where
  "lower_bound cmp k rs = length (takeWhile (\<lambda>(k', _). cmp k' k < 0) rs)"

definition upper_bound :: "(bytes \<Rightarrow> bytes \<Rightarrow> int) \<Rightarrow> bytes \<Rightarrow> (bytes \<times> 'a) list \<Rightarrow> nat" where
  "upper_bound cmp k rs = length (takeWhile (\<lambda>(k', _). \<not> cmp k k' < 0) rs)"

definition in_range_file :: "BlobStorage \<Rightarrow> bytes option \<Rightarrow> bool \<Rightarrow> u64 \<Rightarrow> bool" where
  "in_range_file s limit include_end n =
     (case FindFile s n of
        None \<Rightarrow> False
      | Some f \<Rightarrow>
          (if is_obsolete f then False
           else (case limit of
                   None \<Rightarrow> True
                 | Some e \<Rightarrow> largest_key f \<noteq> [] \<and>
                     (let c = comparator (cf_options s) (largest_key f) e
                      in if include_end then c \<le> 0 else c < 0))))"

definition GetBlobFilesInRange :: "BlobStorage \<Rightarrow> bool \<Rightarrow> RangePtr \<Rightarrow> Status + u64 list" where
  "GetBlobFilesInRange s include_end r =
     (let cmp = comparator (cf_options s); rs = blob_ranges s;
          lo = (case fst r of Some b \<Rightarrow> lower_bound cmp b rs | None \<Rightarrow> 0);
          hi = (case snd r of Some e \<Rightarrow> upper_bound cmp e rs | None \<Rightarrow> length rs)
      in if hi < lo then Inl Undefined
         else Inr (filter (in_range_file s (snd r) include_end) (map snd (take (hi - lo) (drop lo rs)))))"

fun GetBlobFilesInRanges :: "BlobStorage \<Rightarrow> bool \<Rightarrow> RangePtr list \<Rightarrow> u64 list \<Rightarrow> Status + u64 list" where
  "GetBlobFilesInRanges s include_end [] fs = Inr fs"
| "GetBlobFilesInRanges s include_end (r # rs) fs =
     (case GetBlobFilesInRange s include_end r of
        Inl e \<Rightarrow> Inl e
      | Inr gs \<Rightarrow> GetBlobFilesInRanges s include_end rs (fs @ gs))"

section \<open>Reading values\<close>

text \<open>
  \<open>building n\<close> reads the file of number \<open>n\<close> while it is still being written. The record that
  \<^verbatim>\<open>ReadBuildingFile\<close> returns points into a buffer local to it; the model returns its bytes.
\<close>

definition ReadBuildingFile ::
  "compression_libs \<Rightarrow> checksum \<Rightarrow> (u64 \<Rightarrow> random_file) \<Rightarrow> BlobIndex \<Rightarrow> BlobRecord \<Rightarrow> BlobStorage \<Rightarrow> Status + BlobRecord" where
  "ReadBuildingFile L Extend building idx r0 s =
     (case FindBuildingFile s (bi_file_number idx) of
        None \<Rightarrow> Inl Corruption
      | Some n \<Rightarrow> map_sum id fst (ReadRecord L Extend (building n) (blob_handle idx) r0))"

definition BlobStorage_Get ::
  "compression_libs \<Rightarrow> checksum \<Rightarrow> open_io \<Rightarrow> (u64 \<Rightarrow> random_file) \<Rightarrow> BlobIndex \<Rightarrow> BlobRecord \<Rightarrow> blob_cache option \<Rightarrow> BlobStorage
     \<Rightarrow> (Status + BlobRecord) \<times> blob_cache option \<times> BlobStorage" where
  "BlobStorage_Get L Extend open_file building idx r0 cache s =
     (case FindFile s (bi_file_number idx) of
        None \<Rightarrow>
          (if sep_before_flush (db_options s) then ReadBuildingFile L Extend building idx r0 s else Inl Corruption, cache, s)
      | Some f \<Rightarrow>
          (let r0 = r0\<lparr>only_value := level_merge (cf_options s) \<and> file_type f = kSorted\<rparr>;
               (r, rs, cache) = BlobFileCache_Get L Extend open_file (file_number f) (file_size f) (blob_handle idx) r0
                                  (file_cache s) cache
           in (r, cache, s\<lparr>file_cache := rs\<rparr>)))"

definition BlobStorage_NewPrefetcher ::
  "checksum \<Rightarrow> open_io \<Rightarrow> u64 \<Rightarrow> BlobStorage \<Rightarrow> (Status + BlobFilePrefetcher) \<times> BlobStorage" where
  "BlobStorage_NewPrefetcher Extend open_file n s =
     (case FindFile s n of
        None \<Rightarrow> (Inl Corruption, s)
      | Some f \<Rightarrow>
          (let (p, rs) = BlobFileCache_NewPrefetcher Extend open_file (file_number f) (file_size f)
                           (file_type f = kSorted \<and> level_merge (cf_options s)) (file_cache s)
           in (p, s\<lparr>file_cache := rs\<rparr>)))"

definition ExportBlobFiles :: "BlobStorage \<Rightarrow> (u64 \<times> BlobFileMeta) list \<Rightarrow> (u64 \<times> BlobFileMeta) list" where
  "ExportBlobFiles s ret = fold (\<lambda>(n, f). emplace n f) (files s) ret"

section \<open>Updates\<close>

text \<open>The slot of \<^verbatim>\<open>level_blob_size_\<close> that accounts for a file: its level, or the one past the last
  level for an unsorted file. The vector has \<^verbatim>\<open>num_levels + 1\<close> slots and is indexed unchecked.\<close>

definition slot :: "nat \<Rightarrow> BlobFileMeta \<Rightarrow> nat" where
  "slot levels f = (if file_type f = kSorted then unat (file_level f) else levels)"

definition fetch_add :: "nat \<Rightarrow> u64 \<Rightarrow> u64 list \<Rightarrow> u64 list" where
  "fetch_add i v xs = xs[i := xs ! i + v]"

definition fetch_sub :: "nat \<Rightarrow> u64 \<Rightarrow> u64 list \<Rightarrow> u64 list" where
  "fetch_sub i v xs = xs[i := xs ! i - v]"

definition ranges_emplace ::
  "(bytes \<Rightarrow> bytes \<Rightarrow> int) \<Rightarrow> bytes \<Rightarrow> u64 \<Rightarrow> (bytes \<times> u64) list \<Rightarrow> (bytes \<times> u64) list" where
  "ranges_emplace cmp k n rs = take (upper_bound cmp k rs) rs @ (k, n) # drop (upper_bound cmp k rs) rs"

definition AddBlobFile :: "BlobFileMeta \<Rightarrow> BlobStorage \<Rightarrow> BlobStorage" where
  "AddBlobFile f s =
     s\<lparr>files := emplace (file_number f) f (files s),
       blob_ranges := ranges_emplace (comparator (cf_options s)) (smallest_key f) (file_number f) (blob_ranges s),
       stats := AddStats NUM_LIVE_BLOB_FILE 1 (AddStats LIVE_BLOB_FILE_SIZE (file_size f) (stats s)),
       level_blob_size := fetch_add (slot (num_levels (cf_options s)) f) (file_size f) (level_blob_size s),
       building_files := (if sep_before_flush (db_options s)
                          then removeAll (file_number f) (building_files s) else building_files s)\<rparr>"

text \<open>\<open>open_result\<close> is what \<^verbatim>\<open>NewRandomAccessFile\<close> returns for the file.\<close>

definition AddBuildingFile :: "Status \<Rightarrow> u64 \<Rightarrow> BlobStorage \<Rightarrow> Status \<times> BlobStorage" where
  "AddBuildingFile open_result n s =
     (if \<not> ok open_result then (open_result, s)
      else (open_result, s\<lparr>building_files := List.insert n (building_files s)\<rparr>))"

definition MarkFileObsoleteLocked :: "BlobFileMeta \<Rightarrow> u64 \<Rightarrow> BlobStorage \<Rightarrow> BlobStorage" where
  "MarkFileObsoleteLocked f obsolete_sequence s =
     s\<lparr>obsolete_files := obsolete_files s @ [(file_number f, obsolete_sequence)],
       files := alter (file_number f) (transit kDelete) (files s),
       stats := AddStats NUM_OBSOLETE_BLOB_FILE 1
                 (AddStats OBSOLETE_BLOB_FILE_SIZE (file_size f)
                   (SubStats NUM_LIVE_BLOB_FILE 1
                     (SubStats LIVE_BLOB_FILE_SIZE (file_size f)
                       (SubStats LIVE_BLOB_SIZE (file_size f - discardable_size f) (stats s))))),
       level_blob_size := fetch_sub (slot (num_levels (cf_options s)) f) (file_size f) (level_blob_size s)\<rparr>"

definition MarkFileObsolete :: "u64 \<Rightarrow> u64 \<Rightarrow> BlobStorage \<Rightarrow> bool \<times> BlobStorage" where
  "MarkFileObsolete n obsolete_sequence s =
     (case map_of (files s) n of
        None \<Rightarrow> (False, s)
      | Some f \<Rightarrow> (True, MarkFileObsoleteLocked f obsolete_sequence s))"

fun erase_first :: "('a \<Rightarrow> bool) \<Rightarrow> 'a list \<Rightarrow> 'a list" where
  "erase_first P [] = []"
| "erase_first P (x # xs) = (if P x then xs else x # erase_first P xs)"

definition RemoveFile :: "u64 \<Rightarrow> BlobStorage \<Rightarrow> bool \<times> BlobStorage" where
  "RemoveFile n s =
     (case map_of (files s) n of
        None \<Rightarrow> (False, s)
      | Some f \<Rightarrow>
          (True,
           s\<lparr>blob_ranges := erase_first (\<lambda>(k, m). comparator (cf_options s) k (smallest_key f) = 0 \<and> m = file_number f)
                              (blob_ranges s),
             stats := SubStats NUM_OBSOLETE_BLOB_FILE 1
                        (SubStats OBSOLETE_BLOB_FILE_SIZE (file_size f) (stats s)),
             files := AList.delete n (files s),
             file_cache := Evict n (file_cache s)\<rparr>))"

text \<open>The loop over the obsolete list: the entries kept, the numbers of the files removed.\<close>

fun drop_obsolete ::
  "u64 \<Rightarrow> (u64 \<times> u64) list \<Rightarrow> BlobStorage \<Rightarrow> BlobStorage \<times> (u64 \<times> u64) list \<times> u64 list" where
  "drop_obsolete oldest [] s = (s, [], [])"
| "drop_obsolete oldest ((n, obsolete_sequence) # xs) s =
     (if oldest > obsolete_sequence then
        (let (s, kept, names) = drop_obsolete oldest xs (snd (RemoveFile n s))
         in (s, kept, n # names))
      else
        (let (s, kept, names) = drop_obsolete oldest xs s
         in (s, (n, obsolete_sequence) # kept, names)))"

definition GetObsoleteFiles :: "u64 \<Rightarrow> BlobStorage \<Rightarrow> BlobStorage \<times> u64 list" where
  "GetObsoleteFiles oldest s =
     (let (s', kept, names) = drop_obsolete oldest (obsolete_files s) s
      in (s'\<lparr>obsolete_files := kept\<rparr>, names))"

definition gc_score_of :: "TitanCFOptions \<Rightarrow> u64 \<times> BlobFileMeta \<Rightarrow> GCScore" where
  "gc_score_of cf p =
     \<lparr>gcs_file_number = fst p,
      gcs_score = (if file_size (snd p) < merge_small_file_threshold cf
                   then blob_file_discardable_ratio cf else GetDiscardableRatio (snd p))\<rparr>"

definition needs_no_score :: "TitanCFOptions \<Rightarrow> BlobFileMeta \<Rightarrow> bool" where
  "needs_no_score cf f \<longleftrightarrow>
     is_obsolete f \<or>
     (level_merge cf \<and> (file_type f = kSorted \<or> GetDiscardableRatio f < blob_file_discardable_ratio cf))"

definition ComputeGCScore :: "BlobStorage \<Rightarrow> BlobStorage \<times> nat" where
  "ComputeGCScore s =
     (let cf = cf_options s;
          scores = map (gc_score_of cf) (filter (\<lambda>p. \<not> needs_no_score cf (snd p)) (files s));
          sorted = (if \<not> level_merge cf
                    then sort_by (\<lambda>a b. gcs_file_number a < gcs_file_number b) scores
                    else sort_by (\<lambda>a b. gcs_score a > gcs_score b) scores)
      in (s\<lparr>gc_score := sorted\<rparr>, length sorted))"

definition MarkAllFilesForGC :: "BlobStorage \<Rightarrow> BlobStorage" where
  "MarkAllFilesForGC s =
     s\<lparr>files := map (\<lambda>(n, f). (n, transit kDbRestart (f\<lparr>gc_mark := True\<rparr>))) (files s),
       stats := fold (\<lambda>(n, f). AddStats (GetDiscardableRatioLevel f) 1) (files s) (stats s)\<rparr>"

definition MarkDestroyed :: "BlobStorage \<Rightarrow> BlobStorage" where
  "MarkDestroyed s = s\<lparr>destroyed := True\<rparr>"

definition MaybeRemove :: "BlobStorage \<Rightarrow> bool" where
  "MaybeRemove s \<longleftrightarrow> destroyed s \<and> obsolete_files s = []"

text \<open>A transition or a size update of the shared meta object of a file.\<close>

definition on_file :: "u64 \<Rightarrow> (BlobFileMeta \<Rightarrow> BlobFileMeta) \<Rightarrow> BlobStorage \<Rightarrow> BlobStorage" where
  "on_file n g s = s\<lparr>files := alter n g (files s)\<rparr>"

section \<open>Sorted runs\<close>

text \<open>\<^verbatim>\<open>CountSortedRun\<close> packs the files first-fit into runs of disjoint key ranges.\<close>

fun place_in_runs :: "BlobFileMeta \<Rightarrow> BlobFileMeta list list \<Rightarrow> BlobFileMeta list list" where
  "place_in_runs f [] = [[f]]"
| "place_in_runs f (r # rs) =
     (if bytewise (smallest_key f) (largest_key (last r)) > 0 then (r @ [f]) # rs
      else r # place_in_runs f rs)"

definition sorted_runs :: "BlobFileMeta list \<Rightarrow> BlobFileMeta list list" where
  "sorted_runs fs =
     fold place_in_runs (sort_by (\<lambda>f1 f2. bytewise (smallest_key f1) (smallest_key f2) < 0) fs) []"

definition CountSortedRun :: "BlobFileMeta list \<Rightarrow> nat list" where
  "CountSortedRun fs = map length (sorted_runs fs)"

section \<open>The invariant\<close>

definition live_size :: "BlobFileMeta \<Rightarrow> u64" where
  "live_size f = (if is_obsolete f then 0 else file_size f)"

definition dead_size :: "BlobFileMeta \<Rightarrow> u64" where
  "dead_size f = (if is_obsolete f then file_size f else 0)"

definition live_one :: "BlobFileMeta \<Rightarrow> u64" where
  "live_one f = (if is_obsolete f then 0 else 1)"

definition dead_one :: "BlobFileMeta \<Rightarrow> u64" where
  "dead_one f = (if is_obsolete f then 1 else 0)"

definition slot_size :: "nat \<Rightarrow> nat \<Rightarrow> BlobFileMeta \<Rightarrow> u64" where
  "slot_size levels i f = (if slot levels f = i then live_size f else 0)"

lemmas weight_defs = live_size_def dead_size_def live_one_def dead_one_def slot_size_def

text \<open>Files are stored under their number, each once.\<close>

definition ids_ok :: "BlobStorage \<Rightarrow> bool" where
  "ids_ok s \<longleftrightarrow> distinct (keys (files s)) \<and> (\<forall>(n, f) \<in> set (files s). file_number f = n)"

text \<open>The obsolete list names exactly the files in the obsolete state, each once.\<close>

definition obsolete_ok :: "BlobStorage \<Rightarrow> bool" where
  "obsolete_ok s \<longleftrightarrow>
     distinct (keys (obsolete_files s)) \<and>
     (\<forall>n. n \<in> set (keys (obsolete_files s)) \<longleftrightarrow> (\<exists>f. FindFile s n = Some f \<and> is_obsolete f))"

text \<open>The range map has one entry for each file, in comparator order.\<close>

definition range_entry :: "u64 \<times> BlobFileMeta \<Rightarrow> bytes \<times> u64" where
  "range_entry p = (smallest_key (snd p), fst p)"

definition ranges_ok :: "BlobStorage \<Rightarrow> bool" where
  "ranges_ok s \<longleftrightarrow>
     mset (blob_ranges s) = mset (map range_entry (files s)) \<and>
     sorted_wrt (\<lambda>p q. comparator (cf_options s) (fst p) (fst q) \<le> 0) (blob_ranges s)"

text \<open>A file can be accounted for: its level has a slot.\<close>

definition level_fits :: "nat \<Rightarrow> BlobFileMeta \<Rightarrow> bool" where
  "level_fits levels f \<longleftrightarrow> slot levels f \<le> levels"

definition slots_ok :: "BlobStorage \<Rightarrow> bool" where
  "slots_ok s \<longleftrightarrow> (\<forall>(n, f) \<in> set (files s). level_fits (num_levels (cf_options s)) f)"

abbreviation level_in_range :: "BlobStorage \<Rightarrow> BlobFileMeta \<Rightarrow> bool" where
  "level_in_range s f \<equiv> level_fits (num_levels (cf_options s)) f"

text \<open>Each level counter is the total size of the live files it accounts for.\<close>

definition levels_ok :: "BlobStorage \<Rightarrow> bool" where
  "levels_ok s \<longleftrightarrow>
     length (level_blob_size s) = num_levels (cf_options s) + 1 \<and>
     (\<forall>i < num_levels (cf_options s) + 1.
        level_blob_size s ! i = wsum (slot_size (num_levels (cf_options s)) i) (files s))"

text \<open>The file counters agree with the files.\<close>

definition stats_ok :: "BlobStorage \<Rightarrow> bool" where
  "stats_ok s \<longleftrightarrow>
     (\<forall>c. stats s = Some c \<longrightarrow>
        c NUM_LIVE_BLOB_FILE = wsum live_one (files s) \<and>
        c LIVE_BLOB_FILE_SIZE = wsum live_size (files s) \<and>
        c NUM_OBSOLETE_BLOB_FILE = wsum dead_one (files s) \<and>
        c OBSOLETE_BLOB_FILE_SIZE = wsum dead_size (files s))"

definition storage_inv :: "BlobStorage \<Rightarrow> bool" where
  "storage_inv s \<longleftrightarrow>
     comparator_ok (comparator (cf_options s)) \<and>
     ids_ok s \<and> obsolete_ok s \<and> ranges_ok s \<and> slots_ok s \<and> levels_ok s \<and> stats_ok s"

lemma storage_inv_new:
  "comparator_ok (comparator cf) \<Longrightarrow> st \<in> {None, Some Stats_Clear} \<Longrightarrow>
   storage_inv (new_BlobStorage db cf cid st)"
  by (auto simp: storage_inv_def new_BlobStorage_def ids_ok_def obsolete_ok_def ranges_ok_def
      slots_ok_def levels_ok_def stats_ok_def FindFile_def Stats_Clear_def nth_append simp del: replicate_Suc)

section \<open>Adding a file\<close>

lemma FindFile_AddBlobFile:
  "FindFile s (file_number f) = None \<Longrightarrow>
   FindFile (AddBlobFile f s) n = (if n = file_number f then Some f else FindFile s n)"
  by (simp add: FindFile_def AddBlobFile_def map_of_emplace_new)

lemma AddBlobFile_fields [storage_simps, simp]:
  "cf_options (AddBlobFile f s) = cf_options s" "db_options (AddBlobFile f s) = db_options s"
  "cf_id (AddBlobFile f s) = cf_id s" "obsolete_files (AddBlobFile f s) = obsolete_files s"
  "file_cache (AddBlobFile f s) = file_cache s" "destroyed (AddBlobFile f s) = destroyed s"
  "gc_score (AddBlobFile f s) = gc_score s"
  "blob_ranges (AddBlobFile f s) =
     ranges_emplace (comparator (cf_options s)) (smallest_key f) (file_number f) (blob_ranges s)"
  "stats (AddBlobFile f s) =
     AddStats NUM_LIVE_BLOB_FILE 1 (AddStats LIVE_BLOB_FILE_SIZE (file_size f) (stats s))"
  "level_blob_size (AddBlobFile f s) =
     fetch_add (slot (num_levels (cf_options s)) f) (file_size f) (level_blob_size s)"
  by (simp_all add: AddBlobFile_def)

lemma FindFile_None_iff: "FindFile s n = None \<longleftrightarrow> n \<notin> set (keys (files s))"
  by (simp add: FindFile_def map_of_eq_None_iff)

lemma emplace_new: "k \<notin> set (keys m) \<Longrightarrow> emplace k v m = m @ [(k, v)]"
  by (simp add: emplace_def map_of_eq_None_iff [THEN iffD2])

lemma upper_bound_sorted:
  assumes "comparator_ok cmp" "sorted_wrt (\<lambda>p q. cmp (fst p) (fst q) \<le> 0) rs"
  shows "\<forall>p \<in> set (take (upper_bound cmp k rs) rs). cmp (fst p) k \<le> 0"
    and "\<forall>p \<in> set (drop (upper_bound cmp k rs) rs). cmp k (fst p) \<le> 0"
proof -
  have nl: "\<not> cmp k x < 0 \<Longrightarrow> cmp x k \<le> 0" for x
    using assms(1) comparator_linear [of cmp x k] unfolding comparator_ok_def
    by (metis linorder_not_le not_less_iff_gr_or_eq)
  have t: "take (upper_bound cmp k rs) rs = takeWhile (\<lambda>(k', _). \<not> cmp k k' < 0) rs"
    unfolding upper_bound_def by (rule takeWhile_eq_take [symmetric])
  have d: "drop (upper_bound cmp k rs) rs = dropWhile (\<lambda>(k', _). \<not> cmp k k' < 0) rs"
    unfolding upper_bound_def by (rule dropWhile_eq_drop [symmetric])
  show "\<forall>p \<in> set (take (upper_bound cmp k rs) rs). cmp (fst p) k \<le> 0"
    unfolding t by (auto dest!: set_takeWhileD intro: nl)
  show "\<forall>p \<in> set (drop (upper_bound cmp k rs) rs). cmp k (fst p) \<le> 0"
  proof (cases "dropWhile (\<lambda>(k', _). \<not> cmp k k' < 0) rs")
    case Nil
    then show ?thesis unfolding d by (simp only: set_simps ball_simps)
  next
    case (Cons q qs)
    then have "cmp k (fst q) \<le> 0"
      using hd_dropWhile [of "\<lambda>(k', _). \<not> cmp k k' < 0" rs] by (cases q) auto
    moreover have "sorted_wrt (\<lambda>p q. cmp (fst p) (fst q) \<le> 0) (q # qs)"
      using assms(2) unfolding Cons [symmetric] dropWhile_eq_drop by (rule sorted_wrt_drop)
    ultimately show ?thesis
      unfolding d Cons using comparator_le_trans [OF assms(1)] by auto
  qed
qed

lemma sorted_ranges_emplace:
  assumes "comparator_ok cmp" "sorted_wrt (\<lambda>p q. cmp (fst p) (fst q) \<le> 0) rs"
  shows "sorted_wrt (\<lambda>p q. cmp (fst p) (fst q) \<le> 0) (ranges_emplace cmp k n rs)"
proof -
  let ?u = "upper_bound cmp k rs"
  have "sorted_wrt (\<lambda>p q. cmp (fst p) (fst q) \<le> 0) (take ?u rs @ drop ?u rs)"
    using assms(2) by simp
  then show ?thesis
    using upper_bound_sorted [OF assms]
    unfolding ranges_emplace_def sorted_wrt_append by auto
qed

lemma mset_ranges_emplace: "mset (ranges_emplace cmp k n rs) = add_mset (k, n) (mset rs)"
proof -
  have "mset (ranges_emplace cmp k n rs)
      = add_mset (k, n) (mset (take (upper_bound cmp k rs) rs @ drop (upper_bound cmp k rs) rs))"
    unfolding ranges_emplace_def mset_append by simp
  then show ?thesis by (simp only: append_take_drop_id)
qed

lemma files_AddBlobFile:
  "FindFile s (file_number f) = None \<Longrightarrow> files (AddBlobFile f s) = files s @ [(file_number f, f)]"
  by (simp add: AddBlobFile_def emplace_new FindFile_None_iff)

lemma storage_inv_AddBlobFile:
  assumes inv: "storage_inv s" and new: "FindFile s (file_number f) = None"
    and live: "\<not> is_obsolete f" and lvl: "level_in_range s f"
  shows "storage_inv (AddBlobFile f s)"
proof -
  note F = files_AddBlobFile [OF new]
  have k: "file_number f \<notin> set (keys (files s))" using new by (simp add: FindFile_None_iff)
  have "ids_ok (AddBlobFile f s)"
    using inv k by (auto simp: F storage_inv_def ids_ok_def)
  moreover have "obsolete_ok (AddBlobFile f s)"
    using inv live new by (auto simp: storage_inv_def obsolete_ok_def FindFile_AddBlobFile)
  moreover have "ranges_ok (AddBlobFile f s)"
    using inv by (auto simp: F storage_inv_def ranges_ok_def range_entry_def mset_ranges_emplace
        sorted_ranges_emplace)
  moreover have "slots_ok (AddBlobFile f s)"
    using inv lvl by (auto simp: F storage_inv_def slots_ok_def)
  moreover have "levels_ok (AddBlobFile f s)"
    using inv live lvl
    by (auto simp: F storage_inv_def levels_ok_def level_fits_def fetch_add_def
        nth_list_update slot_size_def live_size_def)
  moreover have "stats_ok (AddBlobFile f s)"
    using inv live
    by (cases "stats s") (auto simp: F storage_inv_def stats_ok_def weight_defs)
  ultimately show ?thesis using inv by (simp add: storage_inv_def)
qed

section \<open>Updating a file in place\<close>

text \<open>Updates that keep the persistent part of a meta and do not touch the obsolete state.\<close>

definition benign :: "(BlobFileMeta \<Rightarrow> BlobFileMeta) \<Rightarrow> bool" where
  "benign g \<longleftrightarrow> (\<forall>f. file_number (g f) = file_number f \<and> file_size (g f) = file_size f \<and>
     file_type (g f) = file_type f \<and> file_level (g f) = file_level f \<and>
     smallest_key (g f) = smallest_key f \<and> largest_key (g f) = largest_key f \<and>
     is_obsolete (g f) = is_obsolete f)"

lemma benign_AddDiscardableSize [intro, simp]: "benign (AddDiscardableSize d)"
  by (simp add: benign_def)

lemma FindFile_on_file: "FindFile (on_file n g s) m = (if m = n then map_option g (FindFile s n) else FindFile s m)"
  by (simp add: FindFile_def on_file_def map_of_alter)

lemma on_file_fields [storage_simps, simp]:
  "cf_options (on_file n g s) = cf_options s" "db_options (on_file n g s) = db_options s"
  "cf_id (on_file n g s) = cf_id s" "obsolete_files (on_file n g s) = obsolete_files s"
  "blob_ranges (on_file n g s) = blob_ranges s" "stats (on_file n g s) = stats s"
  "level_blob_size (on_file n g s) = level_blob_size s" "gc_score (on_file n g s) = gc_score s"
  "destroyed (on_file n g s) = destroyed s" "files (on_file n g s) = alter n g (files s)"
  by (simp_all add: on_file_def)

lemma map_range_entry_alter:
  "(\<And>f. smallest_key (g f) = smallest_key f) \<Longrightarrow> map range_entry (alter n g m) = map range_entry m"
  by (induction m) (auto simp: alter_def range_entry_def)

lemma slots_ok_alter:
  assumes "slots_ok s" "\<And>f. file_type (g f) = file_type f \<and> file_level (g f) = file_level f"
  shows "\<forall>(m, f) \<in> set (alter n g (files s)). level_fits (num_levels (cf_options s)) f"
proof -
  have "level_fits l (g f) = level_fits l f" for l f
    using assms(2) by (simp add: level_fits_def slot_def)
  then show ?thesis using assms(1) by (auto simp: slots_ok_def alter_def)
qed

lemma ids_ok_alter:
  assumes "ids_ok s" "\<And>f. file_number (g f) = file_number f"
  shows "distinct (keys (alter n g (files s))) \<and> (\<forall>(m, f) \<in> set (alter n g (files s)). file_number f = m)"
  using assms by (auto simp: ids_ok_def keys_alter) (auto simp: alter_def)

lemma wsum_benign:
  assumes "benign g"
  shows "wsum live_one (alter n g m) = wsum live_one m" "wsum live_size (alter n g m) = wsum live_size m"
    "wsum dead_one (alter n g m) = wsum dead_one m" "wsum dead_size (alter n g m) = wsum dead_size m"
    "wsum (slot_size l i) (alter n g m) = wsum (slot_size l i) m"
  using assms by (intro wsum_alter_same; simp add: weight_defs benign_def slot_def)+

lemma storage_inv_on_file:
  assumes inv: "storage_inv s" and g: "benign g"
  shows "storage_inv (on_file n g s)"
proof -
  have "ids_ok (on_file n g s)"
    using inv g ids_ok_alter [of s g n] by (simp add: storage_inv_def ids_ok_def benign_def)
  moreover have "obsolete_ok (on_file n g s)"
    using inv g by (auto simp: storage_inv_def obsolete_ok_def FindFile_on_file benign_def)
  moreover have "ranges_ok (on_file n g s)"
  proof -
    have "map range_entry (alter n g (files s)) = map range_entry (files s)"
      using g by (intro map_range_entry_alter) (simp add: benign_def)
    then show ?thesis using inv unfolding storage_inv_def ranges_ok_def by (simp only: on_file_fields)
  qed
  moreover have "slots_ok (on_file n g s)"
    using inv g slots_ok_alter [of s g n] by (simp add: storage_inv_def slots_ok_def benign_def)
  moreover have "levels_ok (on_file n g s)"
    using inv g by (auto simp: storage_inv_def levels_ok_def wsum_benign)
  moreover have "stats_ok (on_file n g s)"
    using inv g by (auto simp: storage_inv_def stats_ok_def wsum_benign split: option.splits)
  ultimately show ?thesis using inv by (simp add: storage_inv_def)
qed

section \<open>Retiring a file\<close>

lemma MarkFileObsolete_found: "fst (MarkFileObsolete n q s) \<longleftrightarrow> FindFile s n \<noteq> None"
  by (simp add: MarkFileObsolete_def FindFile_def split: option.splits)

lemma FindFile_number: "ids_ok s \<Longrightarrow> FindFile s n = Some f \<Longrightarrow> file_number f = n"
  unfolding ids_ok_def FindFile_def by (auto dest: map_of_SomeD)

lemma MarkFileObsolete_Some:
  "FindFile s n = Some f \<Longrightarrow> MarkFileObsolete n q s = (True, MarkFileObsoleteLocked f q s)"
  by (simp add: MarkFileObsolete_def FindFile_def)

lemma MarkFileObsoleteLocked_fields [storage_simps, simp]:
  "cf_options (MarkFileObsoleteLocked f q s) = cf_options s"
  "db_options (MarkFileObsoleteLocked f q s) = db_options s"
  "cf_id (MarkFileObsoleteLocked f q s) = cf_id s"
  "blob_ranges (MarkFileObsoleteLocked f q s) = blob_ranges s"
  "building_files (MarkFileObsoleteLocked f q s) = building_files s"
  "gc_score (MarkFileObsoleteLocked f q s) = gc_score s"
  "destroyed (MarkFileObsoleteLocked f q s) = destroyed s"
  "obsolete_files (MarkFileObsoleteLocked f q s) = obsolete_files s @ [(file_number f, q)]"
  "files (MarkFileObsoleteLocked f q s) = alter (file_number f) (transit kDelete) (files s)"
  "level_blob_size (MarkFileObsoleteLocked f q s) =
     fetch_sub (slot (num_levels (cf_options s)) f) (file_size f) (level_blob_size s)"
  by (simp_all add: MarkFileObsoleteLocked_def)

lemma FindFile_MarkFileObsolete:
  assumes "ids_ok s"
  shows "FindFile (snd (MarkFileObsolete n q s)) m =
     (if m = n then map_option (transit kDelete) (FindFile s n) else FindFile s m)"
  using assms
  by (cases "FindFile s n")
    (auto simp: MarkFileObsolete_Some FindFile_number FindFile_def map_of_alter
      MarkFileObsolete_def [of n q s] split: option.splits)

lemma weights_transit_delete:
  assumes "\<not> is_obsolete f"
  shows "live_one (transit kDelete f) = live_one f - 1" "live_size (transit kDelete f) = live_size f - file_size f"
    "dead_one (transit kDelete f) = dead_one f + 1" "dead_size (transit kDelete f) = dead_size f + file_size f"
    "slot_size l i (transit kDelete f) = slot_size l i f - (if slot l f = i then file_size f else 0)"
  using assms by (simp_all add: weight_defs slot_def)

lemma storage_inv_MarkFileObsolete:
  assumes inv: "storage_inv s" and f: "FindFile s n = Some f" and live: "\<not> is_obsolete f"
  shows "storage_inv (snd (MarkFileObsolete n q s))"
proof -
  let ?s = "MarkFileObsoleteLocked f q s"
  have ids: "ids_ok s" using inv by (simp add: storage_inv_def)
  have n: "file_number f = n" using FindFile_number [OF ids f] .
  have d: "distinct (keys (files s))" using ids by (simp add: ids_ok_def)
  have m: "map_of (files s) n = Some f" using f by (simp add: FindFile_def)
  note W = wsum_alter [OF d m, of _ "transit kDelete"]
  have "ids_ok ?s"
    using ids_ok_alter [OF ids, of "transit kDelete" n] by (simp add: ids_ok_def n)
  moreover have "obsolete_ok ?s"
  proof -
    have "n \<notin> set (keys (obsolete_files s))" using inv f live by (simp add: storage_inv_def obsolete_ok_def)
    moreover have "FindFile ?s k = (if k = n then Some (transit kDelete f) else FindFile s k)" for k
      using m by (simp add: FindFile_def n map_of_alter)
    ultimately show ?thesis using inv by (auto simp: storage_inv_def obsolete_ok_def n)
  qed
  moreover have "ranges_ok ?s"
  proof -
    have "map range_entry (alter n (transit kDelete) (files s)) = map range_entry (files s)"
      by (intro map_range_entry_alter) simp
    then show ?thesis
      using inv unfolding storage_inv_def ranges_ok_def by (simp only: MarkFileObsoleteLocked_fields n)
  qed
  moreover have "slots_ok ?s"
    using inv slots_ok_alter [of s "transit kDelete" n] by (simp add: storage_inv_def slots_ok_def n)
  moreover have "levels_ok ?s"
    using inv map_of_SomeD [OF m]
    by (auto simp: storage_inv_def slots_ok_def levels_ok_def level_fits_def fetch_sub_def nth_list_update n W
        weights_transit_delete [OF live])
  moreover have "stats_ok ?s"
    using inv
    by (cases "stats s")
      (auto simp: storage_inv_def stats_ok_def n W weights_transit_delete [OF live]
        MarkFileObsoleteLocked_def)
  ultimately show ?thesis using inv f by (simp add: storage_inv_def MarkFileObsolete_Some)
qed

section \<open>Dropping obsolete files\<close>

text \<open>The obsolete relation for an arbitrary list, as the loop sees it.\<close>

definition obsolete_rel :: "(u64 \<times> u64) list \<Rightarrow> BlobStorage \<Rightarrow> bool" where
  "obsolete_rel xs s \<longleftrightarrow>
     distinct (keys xs) \<and> (\<forall>n. n \<in> set (keys xs) \<longleftrightarrow> (\<exists>f. FindFile s n = Some f \<and> is_obsolete f))"

definition core_inv :: "BlobStorage \<Rightarrow> bool" where
  "core_inv s \<longleftrightarrow>
     comparator_ok (comparator (cf_options s)) \<and> ids_ok s \<and> ranges_ok s \<and> slots_ok s \<and> levels_ok s \<and> stats_ok s"

lemma storage_inv_iff: "storage_inv s \<longleftrightarrow> core_inv s \<and> obsolete_rel (obsolete_files s) s"
  by (auto simp: storage_inv_def core_inv_def obsolete_ok_def obsolete_rel_def)

lemma mset_map_delete:
  assumes "distinct (keys m)" "map_of m k = Some v"
  shows "mset (map h (AList.delete k m)) = mset (map h m) - {#h (k, v)#}"
  using assms
proof (induction m)
  case (Cons p m)
  show ?case
  proof (cases "fst p = k")
    case True
    with Cons.prems have "p = (k, v)" "k \<notin> set (keys m)" by (cases p; auto)+
    then show ?thesis by (simp add: AList.delete_idem image_iff)
  next
    case False
    then have "map_of m k = Some v" using Cons.prems by (cases p) auto
    then have "h (k, v) \<in># mset (map h m)" by (force dest: map_of_SomeD)
    then show ?thesis using False Cons \<open>map_of m k = Some v\<close> by (cases p) (simp add: add_mset_diff_bothsides)
  qed
qed simp

lemma mset_erase_first:
  assumes "\<And>y. P y \<longleftrightarrow> y = x" "x \<in> set xs"
  shows "mset (erase_first P xs) = mset xs - {#x#}"
  using assms(2)
proof (induction xs)
  case (Cons y xs)
  show ?case
  proof (cases "y = x")
    case False
    then have "x \<in># mset xs" using Cons.prems by auto
    then show ?thesis using False Cons assms(1) by (simp add: add_mset_diff_bothsides)
  qed (simp add: assms(1))
qed simp

lemma set_erase_first: "set (erase_first P xs) \<subseteq> set xs"
  by (induction xs) auto

lemma sorted_wrt_erase_first: "sorted_wrt R xs \<Longrightarrow> sorted_wrt R (erase_first P xs)"
  using set_erase_first by (induction xs) fastforce+

lemma RemoveFile_Some:
  assumes "FindFile s n = Some f"
  shows "fst (RemoveFile n s)"
    and "files (snd (RemoveFile n s)) = AList.delete n (files s)"
    and "obsolete_files (snd (RemoveFile n s)) = obsolete_files s"
    and "cf_options (snd (RemoveFile n s)) = cf_options s"
    and "level_blob_size (snd (RemoveFile n s)) = level_blob_size s"
    and "stats (snd (RemoveFile n s)) = SubStats NUM_OBSOLETE_BLOB_FILE 1
           (SubStats OBSOLETE_BLOB_FILE_SIZE (file_size f) (stats s))"
    and "blob_ranges (snd (RemoveFile n s)) = erase_first
           (\<lambda>(k, m). comparator (cf_options s) k (smallest_key f) = 0 \<and> m = file_number f) (blob_ranges s)"
  using assms by (simp_all add: RemoveFile_def FindFile_def)

lemma FindFile_RemoveFile: "FindFile (snd (RemoveFile n s)) m = (if m = n then None else FindFile s m)"
  by (auto simp: RemoveFile_def FindFile_def AList.delete_conv' split: option.splits)

lemma core_inv_RemoveFile:
  assumes inv: "core_inv s" and f: "FindFile s n = Some f" and obs: "is_obsolete f"
  shows "core_inv (snd (RemoveFile n s))"
proof -
  note R = RemoveFile_Some [OF f]
  have ids: "ids_ok s" and cmp: "comparator_ok (comparator (cf_options s))"
    using inv by (simp_all add: core_inv_def)
  have n: "file_number f = n" using FindFile_number [OF ids f] .
  have d: "distinct (keys (files s))" using ids by (simp add: ids_ok_def)
  have m: "map_of (files s) n = Some f" using f by (simp add: FindFile_def)
  have "ids_ok (snd (RemoveFile n s))"
    using ids distinct_delete [OF d] unfolding ids_ok_def R by (auto simp: AList.delete_eq)
  moreover have "ranges_ok (snd (RemoveFile n s))"
  proof -
    let ?P = "\<lambda>(k, m). comparator (cf_options s) k (smallest_key f) = 0 \<and> m = file_number f"
    have P: "?P y \<longleftrightarrow> y = range_entry (n, f)" for y
      using cmp by (cases y) (auto simp: comparator_ok_def range_entry_def n)
    have M: "mset (blob_ranges s) = mset (map range_entry (files s))"
      using inv by (simp add: core_inv_def ranges_ok_def)
    have "range_entry (n, f) \<in> set (map range_entry (files s))"
      using map_of_SomeD [OF m] by force
    then have "range_entry (n, f) \<in> set (blob_ranges s)" by (simp only: mset_eq_setD [OF M])
    then have "mset (erase_first ?P (blob_ranges s)) = mset (map range_entry (AList.delete n (files s)))"
      using mset_erase_first [of ?P, OF P] M mset_map_delete [OF d m, of range_entry] by simp
    then show ?thesis
      using inv by (simp add: R core_inv_def ranges_ok_def sorted_wrt_erase_first)
  qed
  moreover have "slots_ok (snd (RemoveFile n s))"
    using inv by (auto simp: core_inv_def slots_ok_def R AList.delete_eq)
  moreover have "levels_ok (snd (RemoveFile n s))"
    using inv obs by (simp add: core_inv_def levels_ok_def R wsum_delete [OF d m] weight_defs)
  moreover have "stats_ok (snd (RemoveFile n s))"
    using inv obs
    by (cases "stats s") (simp_all add: core_inv_def stats_ok_def R wsum_delete [OF d m] weight_defs)
  ultimately show ?thesis using inv by (simp add: core_inv_def R)
qed

lemma drop_obsolete_spec:
  assumes "drop_obsolete oldest xs s = (s', kept, names)"
    and "core_inv s" and "obsolete_rel (pre @ xs) s"
  shows "core_inv s' \<and> obsolete_rel (pre @ kept) s'
     \<and> kept = filter (\<lambda>(n, q). \<not> oldest > q) xs
     \<and> names = map fst (filter (\<lambda>(n, q). oldest > q) xs)
     \<and> (\<forall>n. FindFile s' n = (if n \<in> set names then None else FindFile s n))"
  using assms
proof (induction oldest xs s arbitrary: s' kept names pre rule: drop_obsolete.induct)
  case (2 oldest n q xs s)
  show ?case
  proof (cases "oldest > q")
    case True
    obtain f where f: "FindFile s n = Some f" "is_obsolete f"
      using 2(5) unfolding obsolete_rel_def by (metis in_set_conv_decomp list.simps(9) map_append fst_conv)
    let ?s = "snd (RemoveFile n s)"
    obtain k ns where r: "drop_obsolete oldest xs ?s = (s', k, ns)" "kept = k" "names = n # ns"
      using 2(3) True by (auto split: prod.splits)
    have "obsolete_rel (pre @ xs) ?s"
      using 2(5) by (auto simp: obsolete_rel_def FindFile_RemoveFile)
    then show ?thesis
      using 2(1) [OF True r(1) core_inv_RemoveFile [OF 2(4) f]] True r
      by (auto simp: FindFile_RemoveFile)
  next
    case False
    obtain k where r: "drop_obsolete oldest xs s = (s', k, names)" "kept = (n, q) # k"
      using 2(3) False by (auto split: prod.splits)
    then show ?thesis
      using 2(2) [OF False r(1) 2(4), of "pre @ [(n, q)]"] 2(5) False by auto
  qed
qed simp

lemma GetObsoleteFiles_spec:
  assumes "storage_inv s" and "GetObsoleteFiles oldest s = (s', names)"
  shows "storage_inv s'"
    and "obsolete_files s' = filter (\<lambda>(n, q). \<not> oldest > q) (obsolete_files s)"
    and "names = map fst (filter (\<lambda>(n, q). oldest > q) (obsolete_files s))"
    and "FindFile s' n = (if n \<in> set names then None else FindFile s n)"
proof -
  obtain t kept where r: "drop_obsolete oldest (obsolete_files s) s = (t, kept, names)"
    "s' = t\<lparr>obsolete_files := kept\<rparr>"
    using assms(2) by (auto simp: GetObsoleteFiles_def split: prod.splits)
  have c: "core_inv (t\<lparr>obsolete_files := k\<rparr>) = core_inv t" for k
    by (simp add: core_inv_def ids_ok_def ranges_ok_def slots_ok_def levels_ok_def stats_ok_def)
  have F: "FindFile (t\<lparr>obsolete_files := k\<rparr>) n = FindFile t n" for k n
    by (simp add: FindFile_def)
  have O: "obsolete_rel xs (t\<lparr>obsolete_files := k\<rparr>) = obsolete_rel xs t" for k xs
    by (simp add: obsolete_rel_def F)
  have "core_inv s" "obsolete_rel ([] @ obsolete_files s) s"
    using assms(1) by (simp_all add: storage_inv_iff)
  note D = drop_obsolete_spec [OF r(1) this]
  then have "core_inv t \<and> obsolete_rel ([] @ kept) t" by blast
  then show "storage_inv s'"
    unfolding storage_inv_iff r(2) c O by simp
  show "obsolete_files s' = filter (\<lambda>(n, q). \<not> oldest > q) (obsolete_files s)"
    "names = map fst (filter (\<lambda>(n, q). oldest > q) (obsolete_files s))"
    "FindFile s' n = (if n \<in> set names then None else FindFile s n)"
    using D by (simp_all add: r(2) F)
qed

section \<open>GC scores\<close>

lemma ComputeGCScore_fields [storage_simps, simp]:
  "files (fst (ComputeGCScore s)) = files s" "FindFile (fst (ComputeGCScore s)) = FindFile s"
  "obsolete_files (fst (ComputeGCScore s)) = obsolete_files s"
  "cf_options (fst (ComputeGCScore s)) = cf_options s"
  "db_options (fst (ComputeGCScore s)) = db_options s"
  "stats (fst (ComputeGCScore s)) = stats s" "destroyed (fst (ComputeGCScore s)) = destroyed s"
  "cf_id (fst (ComputeGCScore s)) = cf_id s"
  "building_files (fst (ComputeGCScore s)) = building_files s"
  by (simp_all add: ComputeGCScore_def Let_def FindFile_def fun_eq_iff)

lemma storage_inv_ComputeGCScore [simp]: "storage_inv (fst (ComputeGCScore s)) = storage_inv s"
  by (simp add: ComputeGCScore_def Let_def storage_inv_def ids_ok_def obsolete_ok_def ranges_ok_def
      slots_ok_def levels_ok_def stats_ok_def FindFile_def)

lemma ComputeGCScore_content:
  "mset (gc_score (fst (ComputeGCScore s))) =
     mset (map (gc_score_of (cf_options s)) (filter (\<lambda>p. \<not> needs_no_score (cf_options s) (snd p)) (files s)))"
  by (simp add: ComputeGCScore_def Let_def)

lemma ComputeGCScore_sorted:
  assumes "level_merge (cf_options s)"
  shows "sorted_wrt (\<lambda>a b. gcs_score a \<ge> gcs_score b) (gc_score (fst (ComputeGCScore s)))"
  using assms by (simp add: ComputeGCScore_def Let_def sorted_sort_by)

lemma ComputeGCScore_by_number:
  assumes "\<not> level_merge (cf_options s)"
  shows "sorted_wrt (\<lambda>a b. gcs_file_number a \<le> gcs_file_number b) (gc_score (fst (ComputeGCScore s)))"
  using assms by (simp add: ComputeGCScore_def Let_def sorted_sort_by not_less)

lemma ComputeGCScore_scored_iff:
  assumes "ids_ok s"
  shows "n \<in> gcs_file_number ` set (gc_score (fst (ComputeGCScore s))) \<longleftrightarrow>
    (\<exists>f. FindFile s n = Some f \<and> \<not> needs_no_score (cf_options s) f)"
proof -
  have "set (gc_score (fst (ComputeGCScore s)))
      = gc_score_of (cf_options s) ` {p \<in> set (files s). \<not> needs_no_score (cf_options s) (snd p)}"
    using arg_cong [OF ComputeGCScore_content [of s], of set_mset] by simp
  moreover have "(n, f) \<in> set (files s) \<longleftrightarrow> FindFile s n = Some f" for f
    using assms by (auto simp: ids_ok_def FindFile_def intro: map_of_is_SomeI dest: map_of_SomeD)
  ultimately show ?thesis
    by (fastforce simp: image_iff gc_score_of_def)
qed

section \<open>Restart\<close>

lemma MarkAllFilesForGC_fields [storage_simps, simp]:
  "obsolete_files (MarkAllFilesForGC s) = obsolete_files s"
  "cf_options (MarkAllFilesForGC s) = cf_options s" "db_options (MarkAllFilesForGC s) = db_options s"
  "blob_ranges (MarkAllFilesForGC s) = blob_ranges s"
  "level_blob_size (MarkAllFilesForGC s) = level_blob_size s"
  "keys (files (MarkAllFilesForGC s)) = keys (files s)"
  by (simp_all add: MarkAllFilesForGC_def comp_def case_prod_beta)

lemma FindFile_MarkAllFilesForGC:
  "FindFile (MarkAllFilesForGC s) n =
     map_option (\<lambda>f. transit kDbRestart (f\<lparr>gc_mark := True\<rparr>)) (FindFile s n)"
  by (simp add: FindFile_def MarkAllFilesForGC_def map_of_map)

section \<open>Files in ranges\<close>

lemma lower_bound_le_upper_bound:
  assumes "comparator_ok cmp" "sorted_wrt (\<lambda>p q. cmp (fst p) (fst q) \<le> 0) rs" "cmp b e \<le> 0"
  shows "lower_bound cmp b rs \<le> upper_bound cmp e rs"
proof -
  have "cmp x b < 0 \<Longrightarrow> \<not> cmp e x < 0" for x
    using assms(1,3) unfolding comparator_ok_def by (metis le_less less_asym)
  then have "length (takeWhile (\<lambda>(k', _). cmp k' b < 0) rs) \<le> length (takeWhile (\<lambda>(k', _). \<not> cmp e k' < 0) rs)"
    by (induction rs) auto
  then show ?thesis by (simp add: lower_bound_def upper_bound_def)
qed

lemma bounds_le_length: "lower_bound cmp b rs \<le> length rs" "upper_bound cmp b rs \<le> length rs"
  by (simp_all add: lower_bound_def upper_bound_def length_takeWhile_le)

text \<open>A well-formed range: its start does not lie behind its limit.\<close>

definition range_ok :: "(bytes \<Rightarrow> bytes \<Rightarrow> int) \<Rightarrow> RangePtr \<Rightarrow> bool" where
  "range_ok cmp r = (case r of (Some b, Some e) \<Rightarrow> cmp b e \<le> 0 | _ \<Rightarrow> True)"

lemma GetBlobFilesInRange_defined:
  assumes "storage_inv s" "range_ok (comparator (cf_options s)) r"
  shows "\<exists>gs. GetBlobFilesInRange s include_end r = Inr gs"
  using assms lower_bound_le_upper_bound [of "comparator (cf_options s)" "blob_ranges s"]
    bounds_le_length [of "comparator (cf_options s)" _ "blob_ranges s"]
  by (cases r; cases "fst r"; cases "snd r")
    (auto simp: GetBlobFilesInRange_def Let_def range_ok_def storage_inv_def ranges_ok_def not_less)

lemma GetBlobFilesInRange_sound:
  assumes "GetBlobFilesInRange s include_end r = Inr gs" "n \<in> set gs"
  shows "in_range_file s (snd r) include_end n"
  using assms by (auto simp: GetBlobFilesInRange_def Let_def split: if_splits)

section \<open>Sorted runs\<close>

definition run_ok :: "BlobFileMeta list \<Rightarrow> bool" where
  "run_ok r \<longleftrightarrow> r \<noteq> [] \<and>
     (\<forall>i. Suc i < length r \<longrightarrow> bytewise (smallest_key (r ! Suc i)) (largest_key (r ! i)) > 0)"

lemma run_ok_snoc:
  assumes "run_ok r" "bytewise (smallest_key f) (largest_key (last r)) > 0"
  shows "run_ok (r @ [f])"
proof -
  have "r ! i = last r" if "Suc i = length r" for i
    using that assms(1) by (metis run_ok_def diff_Suc_1 last_conv_nth)
  then show ?thesis
    using assms by (auto simp: run_ok_def nth_append less_Suc_eq_le dest!: le_neq_implies_less)
qed

lemma place_in_runs_ok: "list_all run_ok rs \<Longrightarrow> list_all run_ok (place_in_runs f rs)"
  by (induction rs) (auto simp: run_ok_snoc, simp add: run_ok_def)

lemma mset_place_in_runs: "mset (concat (place_in_runs f rs)) = add_mset f (mset (concat rs))"
  by (induction rs) auto

lemma sorted_runs_fold:
  "list_all run_ok rs \<Longrightarrow> list_all run_ok (fold place_in_runs fs rs)
    \<and> mset (concat (fold place_in_runs fs rs)) = mset fs + mset (concat rs)"
  by (induction fs arbitrary: rs) (auto simp: place_in_runs_ok mset_place_in_runs simp del: mset_concat)

lemma sorted_runs_partition:
  "list_all run_ok (sorted_runs fs)" "mset (concat (sorted_runs fs)) = mset fs"
  unfolding sorted_runs_def using sorted_runs_fold [of "[]"] by (simp_all del: mset_concat)

lemma sum_CountSortedRun: "sum_list (CountSortedRun fs) = length fs"
  using arg_cong [OF sorted_runs_partition(2) [of fs], of size]
  by (simp add: CountSortedRun_def length_concat del: mset_concat)

section \<open>The contract of the storage\<close>

text \<open>
  What the edit collector relies on: a table of files by number with an invariant, in which a
  new file can be added and a live file retired, each touching that file only.
\<close>

locale file_table =
  fixes find :: "'s \<Rightarrow> u64 \<Rightarrow> BlobFileMeta option"
    and add :: "BlobFileMeta \<Rightarrow> 's \<Rightarrow> 's"
    and retire :: "u64 \<Rightarrow> u64 \<Rightarrow> 's \<Rightarrow> 's"
    and inv :: "'s \<Rightarrow> bool"
    and fits :: "'s \<Rightarrow> BlobFileMeta \<Rightarrow> bool"
  assumes find_add: "find s (file_number f) = None \<Longrightarrow>
      find (add f s) n = (if n = file_number f then Some f else find s n)"
    and find_retire: "inv s \<Longrightarrow>
      find (retire n q s) m = (if m = n then map_option (transit kDelete) (find s n) else find s m)"
    and inv_add: "inv s \<Longrightarrow> find s (file_number f) = None \<Longrightarrow> \<not> is_obsolete f \<Longrightarrow> fits s f \<Longrightarrow> inv (add f s)"
    and inv_retire: "inv s \<Longrightarrow> find s n = Some f \<Longrightarrow> \<not> is_obsolete f \<Longrightarrow> inv (retire n q s)"
    and fits_add: "fits (add f s) g = fits s g"
    and fits_retire: "fits (retire n q s) g = fits s g"
begin

lemma fits_fold_add: "fits (fold add fs s) g = fits s g"
  by (induction fs arbitrary: s) (simp_all add: fits_add)

lemma fold_add:
  assumes "inv s" "distinct (map file_number fs)"
    and "\<And>f. f \<in> set fs \<Longrightarrow> find s (file_number f) = None \<and> \<not> is_obsolete f \<and> fits s f"
  shows "inv (fold add fs s) \<and>
    (\<forall>n. find (fold add fs s) n =
       (case map_of (map (\<lambda>f. (file_number f, f)) fs) n of Some f \<Rightarrow> Some f | None \<Rightarrow> find s n))"
  using assms
proof (induction fs arbitrary: s)
  case (Cons f fs)
  have f: "find s (file_number f) = None" "\<not> is_obsolete f" "fits s f" using Cons.prems(3) by auto
  have ne: "g \<in> set fs \<Longrightarrow> file_number g \<noteq> file_number f" for g 
    using Cons.prems(2) by (auto simp: image_iff)
  have "inv (fold add fs (add f s)) \<and>
    (\<forall>n. find (fold add fs (add f s)) n =
       (case map_of (map (\<lambda>f. (file_number f, f)) fs) n of Some f \<Rightarrow> Some f | None \<Rightarrow> find (add f s) n))"
    using Cons.prems f ne by (intro Cons.IH) (auto simp: inv_add find_add fits_add)
  moreover have "map_of (map (\<lambda>f. (file_number f, f)) fs) (file_number f) = None"
    using Cons.prems(2) by (auto simp: map_of_eq_None_iff)
  ultimately show ?case by (auto simp: find_add [OF f(1)] split: option.splits)
qed simp

lemma fold_retire:
  assumes "inv s" "distinct (keys ds)"
    and "\<And>n. n \<in> set (keys ds) \<Longrightarrow> \<exists>f. find s n = Some f \<and> \<not> is_obsolete f"
  shows "inv (fold (\<lambda>(n, q). retire n q) ds s) \<and>
    (\<forall>n. find (fold (\<lambda>(n, q). retire n q) ds s) n =
       (if n \<in> set (keys ds) then map_option (transit kDelete) (find s n) else find s n))"
  using assms
proof (induction ds arbitrary: s)
  case (Cons d ds)
  obtain n q where d: "d = (n, q)" by (cases d)
  obtain f where f: "find s n = Some f" "\<not> is_obsolete f"
    using Cons.prems(3) [of n] d by auto
  have inv': "inv (retire n q s)" using inv_retire [OF Cons.prems(1) f] .
  have others: "\<exists>g. find (retire n q s) m = Some g \<and> \<not> is_obsolete g"
    if "m \<in> set (keys ds)" for m
  proof -
    have "m \<noteq> n" using that Cons.prems(2) d by auto
    then have "find (retire n q s) m = find s m" by (simp add: find_retire [OF Cons.prems(1)])
    moreover have "\<exists>g. find s m = Some g \<and> \<not> is_obsolete g"
      using that by (intro Cons.prems(3)) simp
    ultimately show ?thesis by simp
  qed
  have "distinct (keys ds)" using Cons.prems(2) by simp
  have "inv (fold (\<lambda>(n, q). retire n q) ds (retire n q s)) \<and>
    (\<forall>m. find (fold (\<lambda>(n, q). retire n q) ds (retire n q s)) m =
       (if m \<in> set (keys ds) then map_option (transit kDelete) (find (retire n q s) m)
        else find (retire n q s) m))"
    by (rule Cons.IH [OF inv' \<open>distinct (keys ds)\<close> others])
  then show ?case
    using Cons.prems(2) by (simp add: d find_retire [OF Cons.prems(1)])
qed simp

end

lemma MarkFileObsolete_options [storage_simps, simp]:
  "cf_options (snd (MarkFileObsolete n q s)) = cf_options s"
  "db_options (snd (MarkFileObsolete n q s)) = db_options s"
  by (simp_all add: MarkFileObsolete_def split: option.splits)

interpretation blob_storage: file_table FindFile AddBlobFile
  "\<lambda>n q s. snd (MarkFileObsolete n q s)" storage_inv "\<lambda>s f. level_in_range s f"
proof unfold_locales
  show "FindFile (snd (MarkFileObsolete n q s)) m =
      (if m = n then map_option (transit kDelete) (FindFile s n) else FindFile s m)"
    if "storage_inv s" for s n q m
    using that by (intro FindFile_MarkFileObsolete) (simp add: storage_inv_def)
qed (simp_all add: FindFile_AddBlobFile storage_inv_AddBlobFile storage_inv_MarkFileObsolete)

end
