(* ===== verification/Edit_Collector.thy ===== *)
theory Edit_Collector
  imports Version_Edit Blob_Storage
begin

text \<open>
  \<^verbatim>\<open>EditCollector\<close> of \<^verbatim>\<open>edit_collector.h\<close>: version edits are batched per column family, the batch
  is validated against the storages (\<^verbatim>\<open>Seal\<close>) and then carried out (\<^verbatim>\<open>Apply\<close>). The column
  families of the blob file set are the association list from family id to storage; a family
  whose storage is gone is skipped, as in the source. Each operation returns its status with
  the collector it leaves behind, and \<^verbatim>\<open>Apply\<close> also the storages.
\<close>

record CFEditCollector =
  cfc_added_files :: "(u64 \<times> BlobFileMeta) list"
  cfc_deleted_files :: "(u64 \<times> u64) list"
  cfc_updated_discardable_size :: "(u64 \<times> u64) list"

record EditCollector =
  ec_status :: Status
  ec_sealed :: bool
  ec_has_next_file_number :: bool
  ec_next_file_number :: u64
  ec_column_families :: "(u32 \<times> CFEditCollector) list"

type_synonym families = "(u32 \<times> BlobStorage) list"

definition new_CFEditCollector :: CFEditCollector where
  "new_CFEditCollector =
     \<lparr>cfc_added_files = [], cfc_deleted_files = [], cfc_updated_discardable_size = []\<rparr>"

definition new_EditCollector :: EditCollector where
  "new_EditCollector =
     \<lparr>ec_status = OK, ec_sealed = False, ec_has_next_file_number = False, ec_next_file_number = 0,
      ec_column_families = []\<rparr>"

section \<open>Collecting\<close>

definition CFEditCollector_AddFile :: "BlobFileMeta \<Rightarrow> CFEditCollector \<Rightarrow> Status \<times> CFEditCollector" where
  "CFEditCollector_AddFile f c =
     (let number = file_number f in
      if number \<in> set (keys (cfc_added_files c)) then (Corruption, c)
      else (OK, c\<lparr>cfc_added_files := emplace number f (cfc_added_files c)\<rparr>))"

definition CFEditCollector_DeleteFile :: "u64 \<times> u64 \<Rightarrow> CFEditCollector \<Rightarrow> Status \<times> CFEditCollector" where
  "CFEditCollector_DeleteFile d c =
     (if fst d \<in> set (keys (cfc_deleted_files c)) then (Corruption, c)
      else (OK, c\<lparr>cfc_deleted_files := emplace (fst d) (snd d) (cfc_deleted_files c)\<rparr>))"

definition CFEditCollector_UpdateFile :: "u64 \<times> u64 \<Rightarrow> CFEditCollector \<Rightarrow> CFEditCollector" where
  "CFEditCollector_UpdateFile u c =
     c\<lparr>cfc_updated_discardable_size := emplace (fst u) (snd u) (cfc_updated_discardable_size c)\<rparr>"

text \<open>A \<^verbatim>\<open>for\<close> loop that returns at the first status that is not OK.\<close>

fun until_error :: "('a \<Rightarrow> 'c \<Rightarrow> Status \<times> 'c) \<Rightarrow> 'a list \<Rightarrow> 'c \<Rightarrow> Status \<times> 'c" where
  "until_error g [] c = (OK, c)"
| "until_error g (x # xs) c =
     (let (st, c) = g x c in if \<not> ok st then (st, c) else until_error g xs c)"

definition AddEdit :: "VersionEdit \<Rightarrow> EditCollector \<Rightarrow> Status \<times> EditCollector" where
  "AddEdit e c =
     (if ec_sealed c then (Incomplete, c)
      else
        let cf = ve_column_family_id e;
            coll = (case map_of (ec_column_families c) cf of Some k \<Rightarrow> k | None \<Rightarrow> new_CFEditCollector);
            put = (\<lambda>st k. c\<lparr>ec_status := st,
                             ec_column_families := AList.update cf k (ec_column_families c)\<rparr>);
            (st, coll) = until_error CFEditCollector_AddFile (ve_added_files e) coll
        in if \<not> ok st then (st, put st coll)
           else
             let (st, coll) = until_error CFEditCollector_DeleteFile (ve_deleted_files e) coll
             in if \<not> ok st then (st, put st coll)
                else
                  let coll = fold CFEditCollector_UpdateFile (ve_updated_discardable_size e) coll;
                      c' = put (if ve_added_files e = [] \<and> ve_deleted_files e = [] then ec_status c else OK) coll
                  in if ve_has_next_file_number e then
                       if ve_next_file_number e < ec_next_file_number c
                       then (Corruption, c'\<lparr>ec_status := Corruption\<rparr>)
                       else (OK, c'\<lparr>ec_next_file_number := ve_next_file_number e,
                                    ec_has_next_file_number := True\<rparr>)
                     else (OK, c'))"

section \<open>Sealing\<close>

definition CFEditCollector_Seal :: "CFEditCollector \<Rightarrow> BlobStorage \<Rightarrow> Status" where
  "CFEditCollector_Seal c s =
     (if \<exists>(n, f) \<in> set (cfc_added_files c). FindFile s n \<noteq> None then Corruption
      else if \<exists>(n, q) \<in> set (cfc_deleted_files c).
                n \<notin> set (keys (cfc_added_files c)) \<and>
                (case FindFile s n of None \<Rightarrow> True | Some f \<Rightarrow> is_obsolete f)
      then Corruption
      else OK)"

fun Seal_families :: "(u32 \<times> CFEditCollector) list \<Rightarrow> families \<Rightarrow> Status" where
  "Seal_families [] fam = OK"
| "Seal_families ((cf, c) # cs) fam =
     (case map_of fam cf of
        None \<Rightarrow> Seal_families cs fam
      | Some s \<Rightarrow>
          (let st = CFEditCollector_Seal c s in if \<not> ok st then st else Seal_families cs fam))"

definition Seal :: "families \<Rightarrow> EditCollector \<Rightarrow> Status \<times> EditCollector" where
  "Seal fam c =
     (if \<not> ok (ec_status c) then (ec_status c, c)
      else
        let st = Seal_families (ec_column_families c) fam in
        if \<not> ok st then (st, c\<lparr>ec_status := st\<rparr>)
        else (OK, c\<lparr>ec_sealed := True\<rparr>))"

section \<open>Applying\<close>

fun mark_deleted :: "(u64 \<times> u64) list \<Rightarrow> (u64 \<times> BlobFileMeta) list \<Rightarrow> BlobStorage \<Rightarrow> Status \<times> BlobStorage" where
  "mark_deleted [] added s = (OK, s)"
| "mark_deleted ((n, q) # ds) added s =
     (if n \<in> set (keys added) then mark_deleted ds added s
      else
        let (found, s) = MarkFileObsolete n q s in
        if \<not> found then (NotFound, s) else mark_deleted ds added s)"

definition update_discardable :: "u64 \<times> u64 \<Rightarrow> BlobStorage \<Rightarrow> BlobStorage" where
  "update_discardable u s =
     (case FindFile s (fst u) of
        None \<Rightarrow> s | Some f \<Rightarrow> on_file (fst u) (AddDiscardableSize (snd u)) s)"

definition CFEditCollector_Apply :: "CFEditCollector \<Rightarrow> BlobStorage \<Rightarrow> Status \<times> BlobStorage" where
  "CFEditCollector_Apply c s =
     (let s = fold (\<lambda>(n, f) s. if n \<in> set (keys (cfc_deleted_files c)) then s else AddBlobFile f s)
                   (cfc_added_files c) s;
          (st, s) = mark_deleted (cfc_deleted_files c) (cfc_added_files c) s
      in if \<not> ok st then (st, s)
         else
           let s = fold update_discardable (cfc_updated_discardable_size c) s
           in (OK, fst (ComputeGCScore s)))"

fun Apply_families :: "(u32 \<times> CFEditCollector) list \<Rightarrow> families \<Rightarrow> Status \<times> families" where
  "Apply_families [] fam = (OK, fam)"
| "Apply_families ((cf, c) # cs) fam =
     (case map_of fam cf of
        None \<Rightarrow> Apply_families cs fam
      | Some s \<Rightarrow>
          (let (st, s) = CFEditCollector_Apply c s;
               fam = alter cf (\<lambda>_. s) fam
           in if \<not> ok st then (st, fam) else Apply_families cs fam))"

definition Apply :: "families \<Rightarrow> EditCollector \<Rightarrow> Status \<times> EditCollector \<times> families" where
  "Apply fam c =
     (if \<not> ok (ec_status c) then (ec_status c, c, fam)
      else if \<not> ec_sealed c then (Incomplete, c, fam)
      else
        let (st, fam) = Apply_families (ec_column_families c) fam in
        if \<not> ok st then (st, c\<lparr>ec_status := st\<rparr>, fam) else (OK, c, fam))"

definition GetNextFileNumber :: "EditCollector \<Rightarrow> Status + u64" where
  "GetNextFileNumber c =
     (if \<not> ok (ec_status c) then Inl (ec_status c)
      else if ec_has_next_file_number c then Inr (ec_next_file_number c)
      else Inl Corruption)"

section \<open>What a collector holds\<close>

definition cfc_ok :: "CFEditCollector \<Rightarrow> bool" where
  "cfc_ok c \<longleftrightarrow>
     distinct (keys (cfc_added_files c)) \<and> distinct (keys (cfc_deleted_files c)) \<and>
     distinct (keys (cfc_updated_discardable_size c)) \<and>
     (\<forall>(n, f) \<in> set (cfc_added_files c). file_number f = n)"

definition collectors_ok :: "(u32 \<times> CFEditCollector) list \<Rightarrow> bool" where
  "collectors_ok m \<longleftrightarrow> distinct (keys m) \<and> (\<forall>(cf, k) \<in> set m. cfc_ok k)"

definition ec_ok :: "EditCollector \<Rightarrow> bool" where
  "ec_ok c \<longleftrightarrow> collectors_ok (ec_column_families c)"

lemma cfc_ok_new [simp]: "cfc_ok new_CFEditCollector"
  by (simp add: cfc_ok_def new_CFEditCollector_def)

lemma ec_ok_new [simp]: "ec_ok new_EditCollector"
  by (simp add: ec_ok_def collectors_ok_def new_EditCollector_def)

lemma until_error_inv:
  assumes "\<And>x c. P c \<Longrightarrow> P (snd (g x c))"
  shows "P c \<Longrightarrow> P (snd (until_error g xs c))"
  using assms by (induction xs arbitrary: c) (simp_all add: split_beta Let_def)

lemma cfc_ok_AddFile: "cfc_ok c \<Longrightarrow> cfc_ok (snd (CFEditCollector_AddFile f c))"
  by (auto simp: cfc_ok_def CFEditCollector_AddFile_def Let_def emplace_new)

lemma cfc_ok_DeleteFile: "cfc_ok c \<Longrightarrow> cfc_ok (snd (CFEditCollector_DeleteFile d c))"
  by (auto simp: cfc_ok_def CFEditCollector_DeleteFile_def emplace_new)

lemma cfc_ok_UpdateFile: "cfc_ok c \<Longrightarrow> cfc_ok (CFEditCollector_UpdateFile u c)"
  by (simp add: cfc_ok_def CFEditCollector_UpdateFile_def distinct_emplace)

lemma cfc_ok_fold_UpdateFile: "cfc_ok c \<Longrightarrow> cfc_ok (fold CFEditCollector_UpdateFile us c)"
  by (induction us arbitrary: c) (simp_all add: cfc_ok_UpdateFile)

lemma set_update: "(k', v') \<in> set (AList.update k v m) \<Longrightarrow> (k', v') = (k, v) \<or> (k', v') \<in> set m"
  by (induction m) (auto split: if_splits)

lemma collectors_ok_update:
  "collectors_ok m \<Longrightarrow> cfc_ok k \<Longrightarrow> collectors_ok (AList.update cf k m)"
  by (auto simp: collectors_ok_def distinct_update dest!: set_update)

lemma ec_ok_AddEdit:
  assumes "ec_ok c"
  shows "ec_ok (snd (AddEdit e c))"
proof -
  let ?k = "case map_of (ec_column_families c) (ve_column_family_id e) of
      Some k \<Rightarrow> k | None \<Rightarrow> new_CFEditCollector"
  have k: "cfc_ok ?k"
    using assms by (auto simp: ec_ok_def collectors_ok_def split: option.splits dest!: map_of_SomeD)
  obtain s1 k1 where 1: "until_error CFEditCollector_AddFile (ve_added_files e) ?k = (s1, k1)"
    by fastforce
  obtain s2 k2 where 2: "until_error CFEditCollector_DeleteFile (ve_deleted_files e) k1 = (s2, k2)"
    by fastforce
  have k1: "cfc_ok k1"
    using until_error_inv [of cfc_ok CFEditCollector_AddFile, OF cfc_ok_AddFile k, of "ve_added_files e"] 1
    by simp
  then have k2: "cfc_ok k2"
    using until_error_inv [of cfc_ok CFEditCollector_DeleteFile, OF cfc_ok_DeleteFile, of k1] 2
    by (metis snd_conv)
  show ?thesis
    using assms k1 k2
    by (simp add: AddEdit_def Let_def 1 2 ec_ok_def collectors_ok_update cfc_ok_fold_UpdateFile)
qed

section \<open>Applying a sealed batch\<close>

text \<open>The new files fit the storage: they are not obsolete and their level has a slot.\<close>

definition added_ok :: "CFEditCollector \<Rightarrow> BlobStorage \<Rightarrow> bool" where
  "added_ok c s \<longleftrightarrow> (\<forall>(n, f) \<in> set (cfc_added_files c). \<not> is_obsolete f \<and> level_in_range s f)"

definition discard :: "(u64 \<times> u64) list \<Rightarrow> u64 \<Rightarrow> BlobFileMeta \<Rightarrow> BlobFileMeta" where
  "discard us n f = (case map_of us n of None \<Rightarrow> f | Some d \<Rightarrow> AddDiscardableSize d f)"

text \<open>The reference: what the batch makes of a file number.\<close>

definition apply_spec :: "CFEditCollector \<Rightarrow> BlobStorage \<Rightarrow> u64 \<Rightarrow> BlobFileMeta option" where
  "apply_spec c s n =
     map_option (discard (cfc_updated_discardable_size c) n)
       (if n \<in> set (keys (cfc_deleted_files c)) then
          (if n \<in> set (keys (cfc_added_files c)) then None
           else map_option (transit kDelete) (FindFile s n))
        else (case map_of (cfc_added_files c) n of Some f \<Rightarrow> Some f | None \<Rightarrow> FindFile s n))"

lemma Seal_OK_iff:
  "CFEditCollector_Seal c s = OK \<longleftrightarrow>
     (\<forall>n \<in> set (keys (cfc_added_files c)). FindFile s n = None) \<and>
     (\<forall>n \<in> set (keys (cfc_deleted_files c)) - set (keys (cfc_added_files c)).
        \<exists>f. FindFile s n = Some f \<and> \<not> is_obsolete f)"
proof -
  have "(\<exists>(n, f) \<in> set (cfc_added_files c). FindFile s n \<noteq> None) \<longleftrightarrow>
      (\<exists>n \<in> set (keys (cfc_added_files c)). FindFile s n \<noteq> None)"
    by force
  moreover have "(\<exists>(n, q) \<in> set (cfc_deleted_files c). n \<notin> set (keys (cfc_added_files c)) \<and>
        (case FindFile s n of None \<Rightarrow> True | Some f \<Rightarrow> is_obsolete f)) \<longleftrightarrow>
      (\<exists>n \<in> set (keys (cfc_deleted_files c)) - set (keys (cfc_added_files c)).
        \<not> (\<exists>f. FindFile s n = Some f \<and> \<not> is_obsolete f))"
    by (force split: option.splits)
  ultimately show ?thesis unfolding CFEditCollector_Seal_def by auto
qed

lemma fold_add_eq:
  "fold (\<lambda>(n, f) s. if n \<in> D then s else AddBlobFile f s) m s =
     fold AddBlobFile (map snd (filter (\<lambda>(n, f). n \<notin> D) m)) s"
  by (induction m arbitrary: s) auto

lemma mark_deleted_eq:
  assumes "storage_inv s" "distinct (keys ds)"
    and "\<And>n. n \<in> set (keys ds) \<Longrightarrow> n \<notin> set (keys added) \<Longrightarrow> \<exists>f. FindFile s n = Some f \<and> \<not> is_obsolete f"
  shows "mark_deleted ds added s =
     (OK, fold (\<lambda>(n, q) s. snd (MarkFileObsolete n q s)) (filter (\<lambda>(n, q). n \<notin> set (keys added)) ds) s)"
  using assms
proof (induction ds added s rule: mark_deleted.induct)
  case (2 n q ds added s)
  show ?case
  proof (cases "n \<in> set (keys added)")
    case True
    then show ?thesis using 2 by simp
  next
    case False
    obtain f where f: "FindFile s n = Some f" "\<not> is_obsolete f" using 2(5) [of n] False by auto
    obtain s' where M: "MarkFileObsolete n q s = (True, s')" using MarkFileObsolete_Some [OF f(1)] by simp
    then have s': "s' = snd (MarkFileObsolete n q s)" by simp
    have inv: "storage_inv s'" unfolding s' using blob_storage.inv_retire [OF 2(3) f] .
    have "\<exists>g. FindFile s' m = Some g \<and> \<not> is_obsolete g"
      if "m \<in> set (keys ds)" "m \<notin> set (keys added)" for m
    proof -
      have "m \<noteq> n" using that 2(4) by auto
      then have "FindFile s' m = FindFile s m" by (simp add: s' blob_storage.find_retire [OF 2(3)])
      then show ?thesis using 2(5) [of m] that by simp
    qed
    then have "mark_deleted ds added s' =
        (OK, fold (\<lambda>(n, q) s. snd (MarkFileObsolete n q s)) (filter (\<lambda>(n, q). n \<notin> set (keys added)) ds) s')"
      using 2(2) [OF False M [symmetric]] 2(4) inv by simp
    then show ?thesis using False by (simp add: M)
  qed
qed simp

lemma discard_other: "n \<notin> set (keys us) \<Longrightarrow> discard us n = id"
  by (auto simp: discard_def fun_eq_iff map_of_eq_None_iff [THEN iffD2] image_iff)

lemma update_discardable_spec:
  assumes "storage_inv s"
  shows "storage_inv (update_discardable u s)"
    "FindFile (update_discardable u s) n = map_option (discard [u] n) (FindFile s n)"
proof -
  show "storage_inv (update_discardable u s)"
    using assms by (simp add: update_discardable_def storage_inv_on_file split: option.splits)
  show "FindFile (update_discardable u s) n = map_option (discard [u] n) (FindFile s n)"
  proof (cases "n = fst u")
    case True
    then have "discard [u] n = AddDiscardableSize (snd u)" by (cases u) (simp add: discard_def fun_eq_iff)
    then show ?thesis using True
      by (simp add: update_discardable_def FindFile_on_file split: option.splits)
  next
    case False
    then show ?thesis
      by (simp add: update_discardable_def FindFile_on_file discard_other option.map_id split: option.splits)
  qed
qed

lemma fold_update_discardable:
  assumes "storage_inv s" "distinct (keys us)"
  shows "storage_inv (fold update_discardable us s) \<and>
     (\<forall>n. FindFile (fold update_discardable us s) n = map_option (discard us n) (FindFile s n))"
  using assms
proof (induction us arbitrary: s)
  case (Cons u us)
  have "map_of us (fst u) = None" using Cons.prems(2) by (simp add: map_of_eq_None_iff)
  then have "discard us n (discard [u] n f) = discard (u # us) n f" for n f
    by (cases u) (auto simp: discard_def split: option.splits)
  then show ?case
    using Cons.IH [OF update_discardable_spec(1) [OF Cons.prems(1)], of u] Cons.prems(2)
    by (simp add: update_discardable_spec(2) [OF Cons.prems(1)] option.map_comp comp_def)
qed (simp add: discard_other option.map_id)

lemma map_of_snd_filter:
  assumes "distinct (keys m)" "\<And>n f. (n, f) \<in> set m \<Longrightarrow> file_number f = n"
  shows "map_of (map (\<lambda>f. (file_number f, f)) (map snd (filter (\<lambda>(n, f). n \<notin> D) m))) k =
    (if k \<in> D then None else map_of m k)"
  using assms
proof (induction m)
  case (Cons p m)
  have "file_number (snd p) = fst p" using Cons.prems(2) [of "fst p" "snd p"] by simp
  moreover have "map_of m (fst p) = None" using Cons.prems(1) by (simp add: map_of_eq_None_iff)
  moreover have "map_of (map (\<lambda>f. (file_number f, f)) (map snd (filter (\<lambda>(n, f). n \<notin> D) m))) k =
      (if k \<in> D then None else map_of m k)"
    by (rule Cons.IH) (use Cons.prems in \<open>simp_all\<close>)
  ultimately show ?case by (cases p) auto
qed simp

text \<open>The storage after the additions of the batch.\<close>

lemma Apply_added:
  fixes c s
  defines "s1 \<equiv> fold (\<lambda>(n, f) s. if n \<in> set (keys (cfc_deleted_files c)) then s else AddBlobFile f s)
                   (cfc_added_files c) s"
  assumes "storage_inv s" "cfc_ok c" "added_ok c s" "CFEditCollector_Seal c s = OK"
  shows "storage_inv s1"
    "FindFile s1 n = (if n \<in> set (keys (cfc_deleted_files c)) then FindFile s n
       else case map_of (cfc_added_files c) n of Some f \<Rightarrow> Some f | None \<Rightarrow> FindFile s n)"
proof -
  let ?D = "set (keys (cfc_deleted_files c))"
  let ?fs = "map snd (filter (\<lambda>(n, f). n \<notin> ?D) (cfc_added_files c))"
  have num: "file_number f = n" if "(n, f) \<in> set (cfc_added_files c)" for n f
    using assms(3) that by (auto simp: cfc_ok_def)
  have k: "map file_number ?fs = keys (filter (\<lambda>(n, f). n \<notin> ?D) (cfc_added_files c))"
    using num by auto
  have "distinct (map file_number ?fs)"
    unfolding k using assms(3) by (simp add: cfc_ok_def distinct_map_filter)
  moreover have "FindFile s (file_number f) = None \<and> \<not> is_obsolete f \<and> level_in_range s f"
    if f: "f \<in> set ?fs" for f
  proof -
    obtain n where "(n, f) \<in> set (cfc_added_files c)" using f by auto
    moreover from this have "n \<in> set (keys (cfc_added_files c))" by force
    ultimately show ?thesis
      using assms(4,5) num by (auto simp: added_ok_def Seal_OK_iff)
  qed
  ultimately have A: "storage_inv (fold AddBlobFile ?fs s) \<and>
    (\<forall>n. FindFile (fold AddBlobFile ?fs s) n =
       (case map_of (map (\<lambda>f. (file_number f, f)) ?fs) n of Some f \<Rightarrow> Some f | None \<Rightarrow> FindFile s n))"
    by (rule blob_storage.fold_add [OF assms(2)])
  have s1: "s1 = fold AddBlobFile ?fs s"
    unfolding s1_def by (rule fold_add_eq)
  have M: "map_of (map (\<lambda>f. (file_number f, f)) ?fs) n = (if n \<in> ?D then None else map_of (cfc_added_files c) n)"
    using assms(3) num by (intro map_of_snd_filter) (auto simp: cfc_ok_def)
  show "storage_inv s1" using A s1 by simp
  have "FindFile s1 n = (case map_of (map (\<lambda>f. (file_number f, f)) ?fs) n of
      Some f \<Rightarrow> Some f | None \<Rightarrow> FindFile s n)"
    using A unfolding s1 by blast
  then show "FindFile s1 n = (if n \<in> ?D then FindFile s n
       else case map_of (cfc_added_files c) n of Some f \<Rightarrow> Some f | None \<Rightarrow> FindFile s n)"
    unfolding M by simp
qed

lemma CFEditCollector_Apply_spec:
  assumes "storage_inv s" "cfc_ok c" "added_ok c s" "CFEditCollector_Seal c s = OK"
  shows "fst (CFEditCollector_Apply c s) = OK"
    "storage_inv (snd (CFEditCollector_Apply c s))"
    "FindFile (snd (CFEditCollector_Apply c s)) n = apply_spec c s n"
proof -
  let ?A = "set (keys (cfc_added_files c))" and ?D = "set (keys (cfc_deleted_files c))"
  let ?ds = "filter (\<lambda>(n, q). n \<notin> ?A) (cfc_deleted_files c)"
  define s1 where "s1 = fold (\<lambda>(n, f) s. if n \<in> ?D then s else AddBlobFile f s) (cfc_added_files c) s"
  note s1 = Apply_added [OF assms, folded s1_def]
  have del: "\<exists>f. FindFile s1 n = Some f \<and> \<not> is_obsolete f" if "n \<in> ?D" "n \<notin> ?A" for n
    using that assms(4) s1(2) [of n] by (auto simp: Seal_OK_iff)
  define s2 where "s2 = fold (\<lambda>(n, q) s. snd (MarkFileObsolete n q s)) ?ds s1"
  have md: "mark_deleted (cfc_deleted_files c) (cfc_added_files c) s1 = (OK, s2)"
    unfolding s2_def using assms(2) del by (intro mark_deleted_eq s1(1)) (simp_all add: cfc_ok_def)
  have dk: "n \<in> set (keys ?ds) \<longleftrightarrow> n \<in> ?D \<and> n \<notin> ?A" for n by force
  have "distinct (keys ?ds)" using assms(2) by (simp add: cfc_ok_def distinct_map_filter)
  moreover have "\<exists>f. FindFile s1 n = Some f \<and> \<not> is_obsolete f" if "n \<in> set (keys ?ds)" for n
    using that del unfolding dk by blast
  ultimately have s2: "storage_inv s2" "FindFile s2 n =
      (if n \<in> set (keys ?ds) then map_option (transit kDelete) (FindFile s1 n) else FindFile s1 n)" for n
    unfolding s2_def using blob_storage.fold_retire [OF s1(1), of ?ds] by blast+
  define s3 where "s3 = fold update_discardable (cfc_updated_discardable_size c) s2"
  have "distinct (keys (cfc_updated_discardable_size c))" using assms(2) by (simp add: cfc_ok_def)
  then have s3: "storage_inv s3"
    "FindFile s3 n = map_option (discard (cfc_updated_discardable_size c) n) (FindFile s2 n)" for n
    unfolding s3_def using fold_update_discardable [OF s2(1)] by blast+
  have E: "CFEditCollector_Apply c s = (OK, fst (ComputeGCScore s3))"
    unfolding CFEditCollector_Apply_def Let_def s1_def [symmetric] md by (simp add: s3_def)
  show "fst (CFEditCollector_Apply c s) = OK" "storage_inv (snd (CFEditCollector_Apply c s))"
    using s3(1) by (simp_all add: E)
  have AD: "FindFile s n = None" if "n \<in> ?A" using that assms(4) unfolding Seal_OK_iff by blast
  have F2: "FindFile s2 n = (if n \<in> ?D then
          (if n \<in> ?A then None else map_option (transit kDelete) (FindFile s n))
        else (case map_of (cfc_added_files c) n of Some f \<Rightarrow> Some f | None \<Rightarrow> FindFile s n))"
    unfolding s2(2) dk s1(2) using AD by simp
  show "FindFile (snd (CFEditCollector_Apply c s)) n = apply_spec c s n"
    unfolding E snd_conv ComputeGCScore_fields s3(2) F2 apply_spec_def ..
qed

section \<open>All column families\<close>

definition families_ok :: "families \<Rightarrow> bool" where
  "families_ok fam \<longleftrightarrow> distinct (keys fam) \<and> (\<forall>(cf, s) \<in> set fam. storage_inv s)"

definition collectors_fit :: "(u32 \<times> CFEditCollector) list \<Rightarrow> families \<Rightarrow> bool" where
  "collectors_fit cs fam \<longleftrightarrow> (\<forall>(cf, c) \<in> set cs. \<forall>s. map_of fam cf = Some s \<longrightarrow> added_ok c s)"

lemma families_ok_storage: "families_ok fam \<Longrightarrow> map_of fam cf = Some s \<Longrightarrow> storage_inv s"
  by (auto simp: families_ok_def dest: map_of_SomeD)

lemma families_ok_alter: "families_ok fam \<Longrightarrow> storage_inv s \<Longrightarrow> families_ok (alter cf (\<lambda>_. s) fam)"
  by (auto simp: families_ok_def keys_alter) (auto simp: alter_def)

lemma Seal_families_cong:
  "(\<And>cf. cf \<in> set (keys cs) \<Longrightarrow> map_of fam' cf = map_of fam cf) \<Longrightarrow>
   Seal_families cs fam' = Seal_families cs fam"
  by (induction cs) (auto simp: Let_def split: option.splits)

text \<open>The reference for a whole batch: each family with a collector follows it, the rest stay.\<close>

definition batch_find :: "(u32 \<times> CFEditCollector) list \<Rightarrow> families \<Rightarrow> u32 \<Rightarrow> u64 \<Rightarrow> BlobFileMeta option" where
  "batch_find cs fam cf n =
     (case map_of fam cf of
        None \<Rightarrow> None
      | Some s \<Rightarrow> (case map_of cs cf of None \<Rightarrow> FindFile s n | Some c \<Rightarrow> apply_spec c s n))"

definition find_in :: "families \<Rightarrow> u32 \<Rightarrow> u64 \<Rightarrow> BlobFileMeta option" where
  "find_in fam cf n = (case map_of fam cf of None \<Rightarrow> None | Some s \<Rightarrow> FindFile s n)"

lemma Apply_families_spec:
  assumes "families_ok fam" "distinct (keys cs)" "\<forall>(cf, c) \<in> set cs. cfc_ok c"
    and "collectors_fit cs fam" "Seal_families cs fam = OK"
  shows "fst (Apply_families cs fam) = OK \<and> families_ok (snd (Apply_families cs fam)) \<and>
    keys (snd (Apply_families cs fam)) = keys fam \<and>
    (\<forall>cf n. find_in (snd (Apply_families cs fam)) cf n = batch_find cs fam cf n)"
  using assms
proof (induction cs arbitrary: fam)
  case Nil
  then show ?case by (simp add: find_in_def batch_find_def split: option.splits)
next
  case (Cons p cs)
  obtain cf c where p: "p = (cf, c)" by (cases p)
  have new: "map_of cs cf = None" using Cons.prems(2) p by (simp add: map_of_eq_None_iff)
  show ?case
  proof (cases "map_of fam cf")
    case None
    have "fst (Apply_families cs fam) = OK \<and> families_ok (snd (Apply_families cs fam)) \<and>
      keys (snd (Apply_families cs fam)) = keys fam \<and>
      (\<forall>cf n. find_in (snd (Apply_families cs fam)) cf n = batch_find cs fam cf n)"
      using Cons.prems None p by (intro Cons.IH) (auto simp: collectors_fit_def)
    then show ?thesis using None p by (auto simp: batch_find_def split: option.splits)
  next
    case (Some s)
    have "CFEditCollector_Seal c s = OK" and sealed: "Seal_families cs fam = OK"
      using Cons.prems(5) Some p by (auto simp: ok_def Let_def split: if_splits)
    moreover have "storage_inv s" "cfc_ok c" "added_ok c s"
      using Cons.prems Some p by (auto simp: families_ok_storage collectors_fit_def)
    ultimately have A: "fst (CFEditCollector_Apply c s) = OK"
      "storage_inv (snd (CFEditCollector_Apply c s))"
      "FindFile (snd (CFEditCollector_Apply c s)) n = apply_spec c s n" for n
      using CFEditCollector_Apply_spec by blast+
    let ?fam = "alter cf (\<lambda>_. snd (CFEditCollector_Apply c s)) fam"
    have M: "map_of ?fam k = (if k = cf then Some (snd (CFEditCollector_Apply c s)) else map_of fam k)" for k
      using Some by (simp add: map_of_alter)
    have ncf: "k \<in> set (keys cs) \<Longrightarrow> k \<noteq> cf" for k using Cons.prems(2) p by auto
    have "Seal_families cs ?fam = OK"
      using sealed Seal_families_cong [of cs ?fam fam] ncf M by simp
    moreover have "collectors_fit cs ?fam"
      using Cons.prems(4) ncf p unfolding collectors_fit_def M by force
    ultimately have IH: "fst (Apply_families cs ?fam) = OK \<and> families_ok (snd (Apply_families cs ?fam)) \<and>
      keys (snd (Apply_families cs ?fam)) = keys ?fam \<and>
      (\<forall>cf n. find_in (snd (Apply_families cs ?fam)) cf n = batch_find cs ?fam cf n)"
      using Cons.prems A(2) p by (intro Cons.IH) (auto simp: families_ok_alter)
    have "Apply_families (p # cs) fam = Apply_families cs ?fam"
      using A(1) Some p by (simp add: split_beta)
    moreover have "batch_find cs ?fam k n = batch_find (p # cs) fam k n" for k n
      using new A(3) Some p by (auto simp: batch_find_def M split: option.splits)
    ultimately show ?thesis using IH by (simp add: keys_alter)
  qed
qed

lemma Apply_after_Seal:
  assumes "families_ok fam" "ec_ok c" "collectors_fit (ec_column_families c) fam"
    and "Seal fam c = (OK, c')"
  shows "fst (Apply fam c') = OK" "families_ok (snd (snd (Apply fam c')))"
    "find_in (snd (snd (Apply fam c'))) cf n = batch_find (ec_column_families c) fam cf n"
    "keys (snd (snd (Apply fam c'))) = keys fam"
proof -
  have c': "c' = c\<lparr>ec_sealed := True\<rparr>" "ok (ec_status c)" "Seal_families (ec_column_families c) fam = OK"
    using assms(4) by (auto simp: Seal_def Let_def ok_def split: if_splits)
  note A = Apply_families_spec [OF assms(1) _ _ assms(3) c'(3)]
  have E: "Apply fam c' = (OK, c', snd (Apply_families (ec_column_families c) fam))"
    using A assms(2) c' by (simp add: Apply_def ec_ok_def collectors_ok_def split_beta)
  show "fst (Apply fam c') = OK" "families_ok (snd (snd (Apply fam c')))"
    "find_in (snd (snd (Apply fam c'))) cf n = batch_find (ec_column_families c) fam cf n"
    "keys (snd (snd (Apply fam c'))) = keys fam"
    unfolding E using A assms(2) by (simp_all add: ec_ok_def collectors_ok_def)
qed

end
