(* ===== verification/Blob_File_Set.thy ===== *)
theory Blob_File_Set
  imports Edit_Collector
begin

text \<open>
  \<^verbatim>\<open>BlobFileSet\<close> of \<^verbatim>\<open>blob_file_set.h/.cc\<close>: the storages of all column families, the manifest
  that makes their changes durable, and recovery from it.

  The manifest is the list of the records appended to it (framing and checksums of the log
  format are RocksDB's). What the file system and the log reader answer is a parameter: the
  statuses of the calls, the records and corruption reports the reader delivers, the
  directory listing. A null \<^verbatim>\<open>manifest_\<close> is \<^const>\<open>None\<close>. Methods run under the DB mutex.
\<close>

record BlobFileSet =
  fs_db_options :: TitanDBOptions
  obsolete_manifests :: "u64 list"
  obsolete_columns :: "u32 list"
  column_families :: families
  manifest :: "bytes list option"
  next_file_number :: u64

definition new_BlobFileSet :: "TitanDBOptions \<Rightarrow> BlobFileSet" where
  "new_BlobFileSet db =
     \<lparr>fs_db_options = db, obsolete_manifests = [], obsolete_columns = [], column_families = [],
      manifest = None, next_file_number = 1\<rparr>"

definition NewFileNumber :: "BlobFileSet \<Rightarrow> u64 \<times> BlobFileSet" where
  "NewFileNumber fs = (next_file_number fs, fs\<lparr>next_file_number := next_file_number fs + 1\<rparr>)"

definition GetBlobStorage :: "BlobFileSet \<Rightarrow> u32 \<Rightarrow> BlobStorage option" where
  "GetBlobStorage fs cf = map_of (column_families fs) cf"

definition IsColumnFamilyObsolete :: "BlobFileSet \<Rightarrow> u32 \<Rightarrow> bool" where
  "IsColumnFamilyObsolete fs cf \<longleftrightarrow> cf \<in> set (obsolete_columns fs)"

text \<open>\<open>st\<close> resolves the statistics object of a family.\<close>

definition AddColumnFamilies ::
  "(u32 \<Rightarrow> TitanInternalStats option) \<Rightarrow> (u32 \<times> TitanCFOptions) list \<Rightarrow> BlobFileSet \<Rightarrow> BlobFileSet" where
  "AddColumnFamilies st cfs fs =
     fs\<lparr>column_families :=
          fold (\<lambda>(cf, opts) m. emplace cf (new_BlobStorage (fs_db_options fs) opts cf (st cf)) m)
               cfs (column_families fs)\<rparr>"

section \<open>The manifest\<close>

definition snapshot_head :: "BlobFileSet \<Rightarrow> VersionEdit" where
  "snapshot_head fs = SetNextFileNumber (next_file_number fs) new_VersionEdit"

definition snapshot_edit :: "u32 \<times> BlobStorage \<Rightarrow> VersionEdit" where
  "snapshot_edit p =
     fold (\<lambda>(n, f) e. if is_obsolete f then e else VersionEdit_AddBlobFile f e)
          (files (snd p)) (SetColumnFamilyID (fst p) new_VersionEdit)"

text \<open>The records are appended one by one; \<open>add i\<close> is the status of the \<open>i\<close>-th append.\<close>

fun write_records :: "(nat \<Rightarrow> Status) \<Rightarrow> nat \<Rightarrow> bytes list \<Rightarrow> bytes list \<Rightarrow> Status \<times> bytes list" where
  "write_records add i [] recs = (OK, recs)"
| "write_records add i (r # rs) recs =
     (if \<not> ok (add i) then (add i, recs) else write_records add (Suc i) rs (recs @ [r]))"

definition WriteSnapshot :: "(nat \<Rightarrow> Status) \<Rightarrow> BlobFileSet \<Rightarrow> Status \<times> bytes list" where
  "WriteSnapshot add fs =
     write_records add 0
       (VersionEdit_EncodeTo (snapshot_head fs) []
        # map (\<lambda>p. VersionEdit_EncodeTo (snapshot_edit p) []) (column_families fs)) []"

record manifest_io =
  io_new_file :: Status
  io_add_record :: "nat \<Rightarrow> Status"
  io_sync :: Status
  io_set_current :: Status

definition OpenManifest :: "manifest_io \<Rightarrow> u64 \<Rightarrow> BlobFileSet \<Rightarrow> Status \<times> BlobFileSet" where
  "OpenManifest io n fs =
     (if \<not> ok (io_new_file io) then (io_new_file io, fs)
      else
        let (s, recs) = WriteSnapshot (io_add_record io) fs;
            s = (if ok s then io_sync io else s);
            s = (if ok s then io_set_current io else s)
        in if \<not> ok s
           then (s, fs\<lparr>manifest := None, obsolete_manifests := obsolete_manifests fs @ [n]\<rparr>)
           else (s, fs\<lparr>manifest := Some recs\<rparr>))"

text \<open>\<open>add\<close> and \<open>sync\<close> are the answers of the log writer.\<close>

definition LogAndApply :: "Status \<Rightarrow> Status \<Rightarrow> VersionEdit \<Rightarrow> BlobFileSet \<Rightarrow> Status \<times> BlobFileSet" where
  "LogAndApply add sync e fs =
     (let e = SetNextFileNumber (next_file_number fs) e;
          rcd = VersionEdit_EncodeTo e [];
          (s, c) = AddEdit e new_EditCollector
      in if \<not> ok s then (s, fs)
         else
           let (s, c) = Seal (column_families fs) c in
           if \<not> ok s then (s, fs)
           else
             (case manifest fs of
                None \<Rightarrow> (Undefined, fs)
              | Some recs \<Rightarrow>
                  (if \<not> ok add then (add, fs)
                   else
                     let fs = fs\<lparr>manifest := Some (recs @ [rcd])\<rparr> in
                     if \<not> ok sync then (sync, fs)
                     else
                       let (s, c, fam) = Apply (column_families fs) c
                       in (s, fs\<lparr>column_families := fam\<rparr>))))"

section \<open>Recovery\<close>

text \<open>
  The reader delivers records; on a damaged part of the log it calls the reporter, which sets
  the status variable of \<^verbatim>\<open>Recover\<close> unless it already holds an error.
\<close>

datatype log_event = Record bytes | Report Status

fun recover_edits :: "log_event list \<Rightarrow> Status \<Rightarrow> EditCollector \<Rightarrow> Status + EditCollector" where
  "recover_edits [] s c = Inr c"
| "recover_edits (Report e # evs) s c = recover_edits evs (if ok s then e else s) c"
| "recover_edits (Record r # evs) s c =
     (if \<not> ok s then Inr c
      else
        (case VersionEdit_DecodeFrom new_VersionEdit r of
           Inl e \<Rightarrow> Inl e
         | Inr edit \<Rightarrow>
             (let (s, c) = AddEdit edit c in if \<not> ok s then Inl s else recover_edits evs s c)))"

datatype FileType = kBlobFile | kDescriptorFile | kOtherFile

definition purge_list :: "u64 \<Rightarrow> families \<Rightarrow> (u64 \<times> FileType) list \<Rightarrow> (u64 \<times> FileType) list" where
  "purge_list manifest_number fam children =
     (let alive = manifest_number # concat (map (\<lambda>(cf, s). map (file_number \<circ> snd) (files s)) fam)
      in filter (\<lambda>(n, ty). n \<notin> set alive \<and> (ty = kBlobFile \<or> ty = kDescriptorFile)) children)"

abbreviation (input) kMaxSequenceNumber :: u64 where "kMaxSequenceNumber \<equiv> 2 ^ 56 - 1"

definition on_families :: "(BlobStorage \<Rightarrow> BlobStorage) \<Rightarrow> BlobFileSet \<Rightarrow> BlobFileSet" where
  "on_families g fs = fs\<lparr>column_families := map (\<lambda>(cf, s). (cf, g s)) (column_families fs)\<rparr>"

text \<open>The part of \<^verbatim>\<open>Recover\<close> after the \<^verbatim>\<open>CURRENT\<close> file has been read and the manifest opened.\<close>

definition recover_log :: "log_event list \<Rightarrow> BlobFileSet \<Rightarrow> Status \<times> BlobFileSet" where
  "recover_log evs fs =
     (case recover_edits evs OK new_EditCollector of
        Inl s \<Rightarrow> (s, fs)
      | Inr c \<Rightarrow>
          let (s, c) = Seal (column_families fs) c in
          if \<not> ok s then (s, fs)
          else
            let (s, c, fam) = Apply (column_families fs) c;
                fs = fs\<lparr>column_families := fam\<rparr>
            in if \<not> ok s then (s, fs)
               else
                 (case GetNextFileNumber c of
                    Inl s \<Rightarrow> (s, fs)
                  | Inr n \<Rightarrow> (OK, fs\<lparr>next_file_number := n\<rparr>)))"

definition Recover ::
  "Status + bytes \<Rightarrow> Status \<Rightarrow> log_event list \<Rightarrow> manifest_io \<Rightarrow> (u64 \<times> FileType) list \<Rightarrow> BlobFileSet \<Rightarrow>
   Status \<times> BlobFileSet \<times> (u64 \<times> FileType) list" where
  "Recover current open_file evs io children fs =
     (case current of
        Inl s \<Rightarrow> (s, fs, [])
      | Inr name \<Rightarrow>
          if name = [] \<or> last name \<noteq> 10 then (Corruption, fs, [])
          else if \<not> ok open_file then (open_file, fs, [])
          else
            (let (s, fs) = recover_log evs fs in
             if \<not> ok s then (s, fs, [])
             else
                 let fs = on_families (\<lambda>s. fst (ComputeGCScore s)) (on_families MarkAllFilesForGC fs);
                     (n, fs) = NewFileNumber fs;
                     (s, fs) = OpenManifest io n fs
                 in if \<not> ok s then (s, fs, [])
                    else
                      let fs = on_families (\<lambda>s. fst (GetObsoleteFiles kMaxSequenceNumber s)) fs
                      in (OK, fs, purge_list n (column_families fs) children)))"

definition Open ::
  "Status \<Rightarrow> Status + bytes \<Rightarrow> Status \<Rightarrow> log_event list \<Rightarrow> manifest_io \<Rightarrow> (u64 \<times> FileType) list \<Rightarrow>
   (u32 \<Rightarrow> TitanInternalStats option) \<Rightarrow> (u32 \<times> TitanCFOptions) list \<Rightarrow> BlobFileSet \<Rightarrow>
   Status \<times> BlobFileSet \<times> (u64 \<times> FileType) list" where
  "Open exists_current current open_file evs io children st cfs fs =
     (let fs = AddColumnFamilies st cfs fs in
      if ok exists_current then Recover current open_file evs io children fs
      else if exists_current \<noteq> NotFound then (exists_current, fs, [])
      else let (n, fs) = NewFileNumber fs; (s, fs) = OpenManifest io n fs in (s, fs, []))"

section \<open>Dropping families and ranges\<close>

definition drop_edit :: "u64 \<Rightarrow> u32 \<Rightarrow> BlobStorage \<Rightarrow> VersionEdit" where
  "drop_edit obsolete_sequence cf s =
     fold (\<lambda>(n, f) e. if \<not> is_obsolete f then DeleteBlobFile n obsolete_sequence e else e)
          (files s) (SetColumnFamilyID cf new_VersionEdit)"

text \<open>\<open>io i\<close> holds the answers of the log writer in the \<open>i\<close>-th turn of the loop.\<close>

fun BlobFileSet_DropColumnFamilies ::
  "(nat \<Rightarrow> Status \<times> Status) \<Rightarrow> nat \<Rightarrow> u32 list \<Rightarrow> u64 \<Rightarrow> BlobFileSet \<Rightarrow> Status \<times> BlobFileSet" where
  "BlobFileSet_DropColumnFamilies io i [] q fs = (OK, fs)"
| "BlobFileSet_DropColumnFamilies io i (cf # cfs) q fs =
     (case map_of (column_families fs) cf of
        None \<Rightarrow> (NotFound, fs)
      | Some s \<Rightarrow>
          (let (st, fs) = LogAndApply (fst (io i)) (snd (io i)) (drop_edit q cf s) fs in
           if \<not> ok st then (st, fs)
           else BlobFileSet_DropColumnFamilies io (Suc i) cfs q
                  (fs\<lparr>obsolete_columns := List.insert cf (obsolete_columns fs)\<rparr>)))"

definition MaybeDestroyColumnFamily :: "u32 \<Rightarrow> BlobFileSet \<Rightarrow> Status \<times> BlobFileSet" where
  "MaybeDestroyColumnFamily cf fs =
     (let fs = fs\<lparr>obsolete_columns := removeAll cf (obsolete_columns fs)\<rparr> in
      case map_of (column_families fs) cf of
        None \<Rightarrow> (NotFound, fs)
      | Some s \<Rightarrow>
          (let s = MarkDestroyed s in
           if MaybeRemove s then (OK, fs\<lparr>column_families := AList.delete cf (column_families fs)\<rparr>)
           else (OK, fs\<lparr>column_families := alter cf (\<lambda>_. s) (column_families fs)\<rparr>)))"

definition DeleteBlobFilesInRanges ::
  "Status \<Rightarrow> Status \<Rightarrow> u32 \<Rightarrow> RangePtr list \<Rightarrow> bool \<Rightarrow> u64 \<Rightarrow> BlobFileSet \<Rightarrow> Status \<times> BlobFileSet" where
  "DeleteBlobFilesInRanges add sync cf ranges include_end obsolete_sequence fs =
     (case map_of (column_families fs) cf of
        None \<Rightarrow> (NotFound, fs)
      | Some st \<Rightarrow>
          (case GetBlobFilesInRanges st include_end ranges [] of
             Inl s \<Rightarrow> (s, fs)
           | Inr fls \<Rightarrow>
               LogAndApply add sync
                 (fold (\<lambda>n. DeleteBlobFile n 0) fls (SetColumnFamilyID cf new_VersionEdit)) fs))"

fun obsolete_loop :: "u32 list \<Rightarrow> u64 \<Rightarrow> families \<Rightarrow> families \<times> u64 list" where
  "obsolete_loop cols oldest [] = ([], [])"
| "obsolete_loop cols oldest ((cf, s) # fam) =
     (let (fam', ns) = obsolete_loop cols oldest fam in
      if cf \<in> set cols then ((cf, s) # fam', ns)
      else
        let (s, names) = GetObsoleteFiles oldest s
        in (if MaybeRemove s then fam' else (cf, s) # fam', names @ ns))"

text \<open>The files to delete: the numbers of blob files, then those of manifests.\<close>

definition BlobFileSet_GetObsoleteFiles :: "u64 \<Rightarrow> BlobFileSet \<Rightarrow> BlobFileSet \<times> u64 list \<times> u64 list" where
  "BlobFileSet_GetObsoleteFiles oldest fs =
     (let (fam, names) = obsolete_loop (obsolete_columns fs) oldest (column_families fs)
      in (fs\<lparr>column_families := fam, obsolete_manifests := []\<rparr>, names, obsolete_manifests fs))"

section \<open>What a successful edit leaves in the collector\<close>

definition collector_of :: "EditCollector \<Rightarrow> u32 \<Rightarrow> CFEditCollector" where
  "collector_of c cf = (case map_of (ec_column_families c) cf of Some k \<Rightarrow> k | None \<Rightarrow> new_CFEditCollector)"

definition number_files :: "BlobFileMeta list \<Rightarrow> (u64 \<times> BlobFileMeta) list" where
  "number_files fs = map (\<lambda>f. (file_number f, f)) fs"

lemma keys_number_files [simp]: "keys (number_files fs) = map file_number fs"
  by (simp add: number_files_def)

lemma until_error_AddFile:
  "until_error CFEditCollector_AddFile fs k = (OK, k') \<longleftrightarrow>
     distinct (map file_number fs) \<and> set (map file_number fs) \<inter> set (keys (cfc_added_files k)) = {} \<and>
     k' = k\<lparr>cfc_added_files := cfc_added_files k @ number_files fs\<rparr>"
proof (induction fs arbitrary: k)
  case Nil
  then show ?case by (auto simp: number_files_def)
next
  case (Cons f fs)
  show ?case
  proof (cases "file_number f \<in> set (keys (cfc_added_files k))")
    case True
    then show ?thesis by (auto simp: CFEditCollector_AddFile_def Let_def)
  next
    case False
    then have "CFEditCollector_AddFile f k = (OK, k\<lparr>cfc_added_files := cfc_added_files k @ [(file_number f, f)]\<rparr>)"
      by (simp add: CFEditCollector_AddFile_def Let_def emplace_new)
    then show ?thesis using False by (auto simp: Cons number_files_def)
  qed
qed

lemma until_error_DeleteFile:
  "until_error CFEditCollector_DeleteFile ds k = (OK, k') \<longleftrightarrow>
     distinct (keys ds) \<and> set (keys ds) \<inter> set (keys (cfc_deleted_files k)) = {} \<and>
     k' = k\<lparr>cfc_deleted_files := cfc_deleted_files k @ ds\<rparr>"
proof (induction ds arbitrary: k)
  case (Cons d ds)
  show ?case
  proof (cases "fst d \<in> set (keys (cfc_deleted_files k))")
    case True
    then show ?thesis by (auto simp: CFEditCollector_DeleteFile_def)
  next
    case False
    then have "CFEditCollector_DeleteFile d k = (OK, k\<lparr>cfc_deleted_files := cfc_deleted_files k @ [d]\<rparr>)"
      by (simp add: CFEditCollector_DeleteFile_def emplace_new)
    then show ?thesis using False by (auto simp: Cons)
  qed
qed auto

definition collect :: "VersionEdit \<Rightarrow> CFEditCollector \<Rightarrow> CFEditCollector" where
  "collect e k =
     fold CFEditCollector_UpdateFile (ve_updated_discardable_size e)
       (k\<lparr>cfc_added_files := cfc_added_files k @ number_files (ve_added_files e),
          cfc_deleted_files := cfc_deleted_files k @ ve_deleted_files e\<rparr>)"

lemma collect_fields [simp]:
  "cfc_added_files (collect e k) = cfc_added_files k @ number_files (ve_added_files e)"
  "cfc_deleted_files (collect e k) = cfc_deleted_files k @ ve_deleted_files e"
proof -
  have "cfc_added_files (fold CFEditCollector_UpdateFile us k) = cfc_added_files k \<and>
      cfc_deleted_files (fold CFEditCollector_UpdateFile us k) = cfc_deleted_files k" for us k
    by (induction us arbitrary: k) (simp_all add: CFEditCollector_UpdateFile_def)
  then show "cfc_added_files (collect e k) = cfc_added_files k @ number_files (ve_added_files e)"
    "cfc_deleted_files (collect e k) = cfc_deleted_files k @ ve_deleted_files e"
    by (simp_all add: collect_def)
qed

text \<open>The edits a collector takes: nothing added or deleted twice, file numbers not going back.\<close>

definition takes :: "VersionEdit \<Rightarrow> EditCollector \<Rightarrow> bool" where
  "takes e c \<longleftrightarrow>
     (let k = collector_of c (ve_column_family_id e) in
      distinct (map file_number (ve_added_files e)) \<and>
      set (map file_number (ve_added_files e)) \<inter> set (keys (cfc_added_files k)) = {} \<and>
      distinct (keys (ve_deleted_files e)) \<and>
      set (keys (ve_deleted_files e)) \<inter> set (keys (cfc_deleted_files k)) = {} \<and>
      (ve_has_next_file_number e \<longrightarrow> ec_next_file_number c \<le> ve_next_file_number e))"

definition after_edit :: "VersionEdit \<Rightarrow> EditCollector \<Rightarrow> EditCollector" where
  "after_edit e c =
     c\<lparr>ec_column_families := AList.update (ve_column_family_id e)
         (collect e (collector_of c (ve_column_family_id e))) (ec_column_families c),
       ec_next_file_number := (if ve_has_next_file_number e then ve_next_file_number e else ec_next_file_number c),
       ec_has_next_file_number := (ve_has_next_file_number e \<or> ec_has_next_file_number c)\<rparr>"

lemma AddEdit_iff:
  assumes "\<not> ec_sealed c" "ec_status c = OK"
  shows "AddEdit e c = (OK, c') \<longleftrightarrow> takes e c \<and> c' = after_edit e c"
proof -
  let ?k = "collector_of c (ve_column_family_id e)"
  obtain s1 k1 where 1: "until_error CFEditCollector_AddFile (ve_added_files e) ?k = (s1, k1)"
    by fastforce
  obtain s2 k2 where 2: "until_error CFEditCollector_DeleteFile (ve_deleted_files e) k1 = (s2, k2)"
    by fastforce
  note A = until_error_AddFile [of "ve_added_files e" ?k] and D = until_error_DeleteFile [of "ve_deleted_files e"]
  show ?thesis
  proof (cases "s1 = OK \<and> s2 = OK")
    case True
    then have "k1 = ?k\<lparr>cfc_added_files := cfc_added_files ?k @ number_files (ve_added_files e)\<rparr>"
      "k2 = k1\<lparr>cfc_deleted_files := cfc_deleted_files k1 @ ve_deleted_files e\<rparr>"
      using 1 2 A [of k1] D [of k1 k2] by auto
    then have k2: "collect e ?k = fold CFEditCollector_UpdateFile (ve_updated_discardable_size e) k2"
      by (simp add: collect_def)
    have "takes e c \<longleftrightarrow> (ve_has_next_file_number e \<longrightarrow> ec_next_file_number c \<le> ve_next_file_number e)"
      using True 1 2 A [of k1] D [of k1 k2] by (auto simp: takes_def Let_def)
    then show ?thesis
      using True assms 1 2
      by (auto simp: AddEdit_def Let_def k2 after_edit_def collector_of_def [symmetric] not_less
          split del: option.split)
  next
    case False
    have "s1 = OK \<and> s2 = OK" if "takes e c"
    proof -
      have "s1 = OK" and k1: "k1 = ?k\<lparr>cfc_added_files := cfc_added_files ?k @ number_files (ve_added_files e)\<rparr>"
        using that 1 A [of "?k\<lparr>cfc_added_files := cfc_added_files ?k @ number_files (ve_added_files e)\<rparr>"]
        by (simp_all add: takes_def Let_def)
      moreover have "s2 = OK"
        using that 2 D [of k1 "k1\<lparr>cfc_deleted_files := cfc_deleted_files k1 @ ve_deleted_files e\<rparr>"]
        by (simp add: takes_def Let_def k1)
      ultimately show ?thesis by simp
    qed
    with False have "\<not> takes e c" by blast
    moreover have "fst (AddEdit e c) \<noteq> OK"
      using False assms 1 2
      by (auto simp: AddEdit_def Let_def collector_of_def [symmetric] ok_def)
    ultimately show ?thesis by auto
  qed
qed

lemma after_edit_fields [simp]:
  "ec_status (after_edit e c) = ec_status c" "ec_sealed (after_edit e c) = ec_sealed c"
  by (simp_all add: after_edit_def)

lemma collector_of_after_edit:
  "collector_of (after_edit e c) cf =
     (if cf = ve_column_family_id e then collect e (collector_of c cf) else collector_of c cf)"
  by (simp add: collector_of_def after_edit_def AList.update_conv')

section \<open>The effect of logging an edit\<close>

lemma new_EditCollector_fields [simp]:
  "ec_status new_EditCollector = OK" "\<not> ec_sealed new_EditCollector"
  "ec_column_families new_EditCollector = []" "ec_next_file_number new_EditCollector = 0"
  "collector_of new_EditCollector cf = new_CFEditCollector"
  by (simp_all add: new_EditCollector_def collector_of_def)

lemma new_CFEditCollector_fields [simp]:
  "cfc_added_files new_CFEditCollector = []" "cfc_deleted_files new_CFEditCollector = []"
  "cfc_updated_discardable_size new_CFEditCollector = []"
  by (simp_all add: new_CFEditCollector_def)

lemma ec_ok_after_edit: "\<not> ec_sealed c \<Longrightarrow> ec_status c = OK \<Longrightarrow> ec_ok c \<Longrightarrow> takes e c \<Longrightarrow> ec_ok (after_edit e c)"
  using AddEdit_iff [of c e "after_edit e c"] ec_ok_AddEdit [of c e] by simp

text \<open>The added files of an edit fit the storage they go to.\<close>

definition edit_fits :: "VersionEdit \<Rightarrow> families \<Rightarrow> bool" where
  "edit_fits e fam \<longleftrightarrow> (\<forall>s. map_of fam (ve_column_family_id e) = Some s \<longrightarrow>
     (\<forall>f \<in> set (ve_added_files e). \<not> is_obsolete f \<and> level_in_range s f))"

definition the_edit :: "VersionEdit \<Rightarrow> BlobFileSet \<Rightarrow> VersionEdit" where
  "the_edit e fs = SetNextFileNumber (next_file_number fs) e"

lemma the_edit_fields [simp]:
  "ve_column_family_id (the_edit e fs) = ve_column_family_id e"
  "ve_added_files (the_edit e fs) = ve_added_files e"
  "ve_deleted_files (the_edit e fs) = ve_deleted_files e"
  "ve_updated_discardable_size (the_edit e fs) = ve_updated_discardable_size e"
  "ve_has_next_file_number (the_edit e fs)" "ve_next_file_number (the_edit e fs) = next_file_number fs"
  by (simp_all add: the_edit_def SetNextFileNumber_def)

text \<open>What an edit asks of a family: the collector that holds just this edit.\<close>

abbreviation edit_of :: "VersionEdit \<Rightarrow> CFEditCollector" where
  "edit_of e \<equiv> collect e new_CFEditCollector"

lemma collect_the_edit [simp]: "collect (the_edit e fs) k = collect e k"
  by (simp add: collect_def)

lemma families_after_new_edit:
  "ec_column_families (after_edit (the_edit e fs) new_EditCollector) = [(ve_column_family_id e, edit_of e)]"
  by (simp add: after_edit_def)

definition accepts :: "VersionEdit \<Rightarrow> BlobFileSet \<Rightarrow> bool" where
  "accepts e fs \<longleftrightarrow>
     distinct (map file_number (ve_added_files e)) \<and> distinct (keys (ve_deleted_files e)) \<and>
     (\<forall>s. map_of (column_families fs) (ve_column_family_id e) = Some s \<longrightarrow>
        CFEditCollector_Seal (edit_of e) s = OK)"

lemma Seal_new_edit:
  "Seal fam (after_edit (the_edit e fs) new_EditCollector) =
     (let st = (case map_of fam (ve_column_family_id e) of
                  None \<Rightarrow> OK | Some s \<Rightarrow> CFEditCollector_Seal (edit_of e) s);
          c = after_edit (the_edit e fs) new_EditCollector
      in if ok st then (OK, c\<lparr>ec_sealed := True\<rparr>) else (st, c\<lparr>ec_status := st\<rparr>))"
  by (auto simp: Seal_def families_after_new_edit Let_def ok_def split: option.splits)

lemma takes_new: "takes (the_edit e fs) new_EditCollector \<longleftrightarrow>
    distinct (map file_number (ve_added_files e)) \<and> distinct (keys (ve_deleted_files e))"
  by (simp add: takes_def)

lemma LogAndApply_cases:
  assumes "families_ok (column_families fs)" "edit_fits e (column_families fs)"
    and "LogAndApply add sync e fs = (st, fs')"
  obtains (applied) recs where "st = OK" "accepts e fs" "manifest fs = Some recs"
    "manifest fs' = Some (recs @ [VersionEdit_EncodeTo (the_edit e fs) []])"
    "families_ok (column_families fs')" "keys (column_families fs') = keys (column_families fs)"
    "\<forall>cf n. find_in (column_families fs') cf n =
       batch_find [(ve_column_family_id e, edit_of e)] (column_families fs) cf n"
    "next_file_number fs' = next_file_number fs"
  | (failed) "st \<noteq> OK" "column_families fs' = column_families fs" "next_file_number fs' = next_file_number fs"
proof (cases "takes (the_edit e fs) new_EditCollector")
  case False
  then have "fst (AddEdit (the_edit e fs) new_EditCollector) \<noteq> OK"
    using AddEdit_iff [of new_EditCollector "the_edit e fs"] by (metis eq_fst_iff new_EditCollector_fields(1,2))
  then show thesis
    using assms(3) that(2) by (auto simp: LogAndApply_def the_edit_def [symmetric] Let_def ok_def split: prod.splits)
next
  case True
  let ?c = "after_edit (the_edit e fs) new_EditCollector"
  have A: "AddEdit (the_edit e fs) new_EditCollector = (OK, ?c)"
    using True AddEdit_iff [of new_EditCollector "the_edit e fs" ?c] by simp
  show thesis
  proof (cases "accepts e fs \<and> manifest fs \<noteq> None \<and> ok add \<and> ok sync")
    case False
    then show thesis
      using assms(3) True that(2)
      by (auto simp: LogAndApply_def the_edit_def [symmetric] A Seal_new_edit accepts_def takes_new Let_def
          ok_def split: option.splits if_splits)
  next
    case acc: True
    let ?c' = "?c\<lparr>ec_sealed := True\<rparr>"
    have S: "Seal (column_families fs) ?c = (OK, ?c')"
      using acc by (auto simp: Seal_new_edit accepts_def Let_def split: option.splits)
    have "ec_ok ?c" using True by (intro ec_ok_after_edit) simp_all
    moreover have "collectors_fit (ec_column_families ?c) (column_families fs)"
      using assms(2) by (auto simp: families_after_new_edit collectors_fit_def added_ok_def edit_fits_def
          number_files_def)
    ultimately have P: "fst (Apply (column_families fs) ?c') = OK"
      "families_ok (snd (snd (Apply (column_families fs) ?c')))"
      "keys (snd (snd (Apply (column_families fs) ?c'))) = keys (column_families fs)"
      "\<forall>cf n. find_in (snd (snd (Apply (column_families fs) ?c'))) cf n =
         batch_find [(ve_column_family_id e, edit_of e)] (column_families fs) cf n"
      using Apply_after_Seal [OF assms(1) _ _ S] by (simp_all add: families_after_new_edit)
    obtain recs where m: "manifest fs = Some recs" using acc by blast
    then have r: "st = OK" "fs' = fs\<lparr>manifest := Some (recs @ [VersionEdit_EncodeTo (the_edit e fs) []]),
        column_families := snd (snd (Apply (column_families fs) ?c'))\<rparr>"
      using assms(3) acc P(1)
      by (auto simp: LogAndApply_def the_edit_def [symmetric] A S split_beta Let_def)
    show thesis
      by (rule that(1) [of recs]) (use r acc m P in simp_all)
  qed
qed

section \<open>Durability: the manifest describes the live files\<close>

text \<open>The live file under a number, as far as the manifest records it.\<close>

definition live_in :: "families \<Rightarrow> u32 \<Rightarrow> u64 \<Rightarrow> BlobFileMeta option" where
  "live_in fam cf n =
     (case find_in fam cf n of
        None \<Rightarrow> None | Some f \<Rightarrow> (if is_obsolete f then None else Some (persistent f)))"

definition net :: "CFEditCollector \<Rightarrow> u64 \<Rightarrow> BlobFileMeta option" where
  "net k n = (if n \<in> set (keys (cfc_deleted_files k)) then None else map_of (cfc_added_files k) n)"

definition replay :: "bytes list \<Rightarrow> Status + EditCollector" where
  "replay recs = recover_edits (map Record recs) OK new_EditCollector"

definition logged_files :: "BlobFileSet \<Rightarrow> u32 \<Rightarrow> u64 list" where
  "logged_files fs cf =
     (case manifest fs of
        None \<Rightarrow> []
      | Some recs \<Rightarrow> (case replay recs of Inl _ \<Rightarrow> [] | Inr c \<Rightarrow> keys (cfc_added_files (collector_of c cf))))"

text \<open>\<open>lv\<close> is the number of levels of each family.\<close>

definition log_ok :: "(u32 \<Rightarrow> nat) \<Rightarrow> EditCollector \<Rightarrow> bool" where
  "log_ok lv c \<longleftrightarrow>
     ec_ok c \<and> ec_status c = OK \<and> \<not> ec_sealed c \<and> ec_has_next_file_number c \<and>
     (\<forall>cf. set (keys (cfc_deleted_files (collector_of c cf))) \<subseteq> set (keys (cfc_added_files (collector_of c cf)))
        \<and> (\<forall>(n, f) \<in> set (cfc_added_files (collector_of c cf)). persistent f = f \<and> level_fits (lv cf) f))"

definition describes :: "EditCollector \<Rightarrow> BlobFileSet \<Rightarrow> bool" where
  "describes c fs \<longleftrightarrow>
     ec_next_file_number c \<le> next_file_number fs \<and>
     (\<forall>cf n. map_of (column_families fs) cf \<noteq> None \<longrightarrow>
        net (collector_of c cf) n = live_in (column_families fs) cf n)"

definition manifest_ok :: "(u32 \<Rightarrow> nat) \<Rightarrow> BlobFileSet \<Rightarrow> bool" where
  "manifest_ok lv fs \<longleftrightarrow>
     (\<exists>recs c. manifest fs = Some recs \<and> replay recs = Inr c \<and> log_ok lv c \<and> describes c fs)"

lemma recover_edits_append:
  "recover_edits (map Record (rs @ rs')) OK c =
     (case recover_edits (map Record rs) OK c of
        Inl e \<Rightarrow> Inl e | Inr c' \<Rightarrow> recover_edits (map Record rs') OK c')"
  by (induction rs arbitrary: c) (auto simp: ok_def split: sum.splits prod.splits)

lemma persistent_edit_fields [simp]:
  "ve_column_family_id (persistent_edit e) = ve_column_family_id e"
  "ve_added_files (persistent_edit e) = map persistent (ve_added_files e)"
  "keys (ve_deleted_files (persistent_edit e)) = keys (ve_deleted_files e)"
  "ve_has_next_file_number (persistent_edit e) = ve_has_next_file_number e"
  "ve_updated_discardable_size (persistent_edit e) = ve_updated_discardable_size e"
  "ve_has_next_file_number e \<Longrightarrow> ve_next_file_number (persistent_edit e) = ve_next_file_number e"
  by (auto simp: persistent_edit_def)

lemma takes_persistent_edit: "takes (persistent_edit e) c = takes e c"
  by (auto simp: takes_def Let_def comp_def image_comp simp flip: set_map)

lemma recover_one:
  assumes "edit_ok e" "takes e c" "\<not> ec_sealed c" "ec_status c = OK"
  shows "recover_edits (map Record [VersionEdit_EncodeTo e []]) OK c = Inr (after_edit (persistent_edit e) c)"
proof -
  have "AddEdit (persistent_edit e) c = (OK, after_edit (persistent_edit e) c)"
    using assms AddEdit_iff [of c "persistent_edit e"] by (simp add: takes_persistent_edit)
  then show ?thesis using VersionEdit_Decode_Encode [OF assms(1)] by simp
qed

lemma net_collect:
  assumes "set (keys (cfc_deleted_files k)) \<subseteq> set (keys (cfc_added_files k))"
    and "set (map file_number (ve_added_files e)) \<inter> set (keys (cfc_added_files k)) = {}"
  shows "net (collect e k) n =
    (if n \<in> set (keys (ve_deleted_files e)) then None
     else case map_of (number_files (ve_added_files e)) n of Some f \<Rightarrow> Some f | None \<Rightarrow> net k n)"
proof -
  have 1: "n \<in> set (keys (cfc_deleted_files k)) \<Longrightarrow> map_of (number_files (ve_added_files e)) n = None"
    using assms unfolding map_of_eq_None_iff keys_number_files [of "ve_added_files e", symmetric] set_map by blast
  have 2: "map_of (number_files (ve_added_files e)) n = Some f \<Longrightarrow> map_of (cfc_added_files k) n = None" for f
    using assms(2) map_of_SomeD [of "number_files (ve_added_files e)" n f]
    by (force simp: map_of_eq_None_iff number_files_def)
  show ?thesis using 1 2 by (auto simp: net_def map_add_def split: option.splits)
qed

lemma map_of_number_persistent:
  "map_of (number_files (map persistent fs)) n = map_option persistent (map_of (number_files fs) n)"
  by (induction fs) (auto simp: number_files_def)

lemma persistent_discard [simp]: "persistent (discard us n f) = persistent f"
  "is_obsolete (discard us n f) = is_obsolete f"
  by (simp_all add: discard_def persistent_def AddDiscardableSize_def is_obsolete_def split: option.splits)

lemma live_in_applied:
  assumes s: "map_of fam cf = Some s"
    and find: "\<And>n. find_in fam' cf n = apply_spec (edit_of e) s n"
    and added: "\<And>f. f \<in> set (ve_added_files e) \<Longrightarrow> \<not> is_obsolete f"
    and seal: "CFEditCollector_Seal (edit_of e) s = OK"
  shows "live_in fam' cf n =
    (if n \<in> set (keys (ve_deleted_files e)) then None
     else case map_of (number_files (ve_added_files e)) n of
       Some f \<Rightarrow> Some (persistent f) | None \<Rightarrow> live_in fam cf n)"
proof -
  have a: "map_of (number_files (ve_added_files e)) n = Some f \<Longrightarrow> \<not> is_obsolete f" for f
    using added by (auto simp: number_files_def dest!: map_of_SomeD)
  have L: "live_in fam cf n = (case FindFile s n of None \<Rightarrow> None
      | Some f \<Rightarrow> (if is_obsolete f then None else Some (persistent f)))"
    by (simp add: live_in_def find_in_def s)
  show ?thesis
    unfolding live_in_def [of fam'] find apply_spec_def L using a
    by (auto split: option.splits if_splits)
qed

text \<open>The files an edit adds do not occur in the log, its family exists and has its levels.\<close>

definition edit_fresh :: "(u32 \<Rightarrow> nat) \<Rightarrow> VersionEdit \<Rightarrow> BlobFileSet \<Rightarrow> bool" where
  "edit_fresh lv e fs \<longleftrightarrow>
     set (map file_number (ve_added_files e)) \<inter> set (logged_files fs (ve_column_family_id e)) = {} \<and>
     (\<exists>s. map_of (column_families fs) (ve_column_family_id e) = Some s \<and>
        num_levels (cf_options s) = lv (ve_column_family_id e))"

lemma log_ok_after_edit:
  assumes c: "log_ok lv c" and t: "takes e c"
    and new: "\<And>f. f \<in> set (ve_added_files e) \<Longrightarrow> persistent f = f \<and> level_fits (lv (ve_column_family_id e)) f"
    and del: "set (keys (ve_deleted_files e)) \<subseteq>
      set (keys (cfc_added_files (collector_of c (ve_column_family_id e)))) \<union> set (map file_number (ve_added_files e))"
  shows "log_ok lv (after_edit e c)"
proof -
  have "ec_ok (after_edit e c)" using c t by (intro ec_ok_after_edit) (simp_all add: log_ok_def)
  moreover have "ec_has_next_file_number (after_edit e c)"
    using c by (simp add: log_ok_def after_edit_def)
  moreover have "set (keys (cfc_deleted_files (collector_of (after_edit e c) cf)))
      \<subseteq> set (keys (cfc_added_files (collector_of (after_edit e c) cf)))" for cf
  proof (cases "cf = ve_column_family_id e")
    case True
    have "set (keys (cfc_deleted_files (collector_of c cf))) \<subseteq> set (keys (cfc_added_files (collector_of c cf)))"
      using c by (simp only: log_ok_def)
    then show ?thesis
      using del unfolding True collector_of_after_edit
      by (simp only: if_True collect_fields map_append set_append keys_number_files refl) blast
  next
    case False
    then show ?thesis using c by (simp add: collector_of_after_edit log_ok_def)
  qed
  moreover have "\<forall>(n, f) \<in> set (cfc_added_files (collector_of (after_edit e c) cf)).
      persistent f = f \<and> level_fits (lv cf) f" for cf
    using c new by (auto simp: log_ok_def collector_of_after_edit number_files_def)
  ultimately show ?thesis using c by (simp add: log_ok_def)
qed

lemma level_fits_persistent [simp]: "level_fits l (persistent f) = level_fits l f"
  by (simp add: level_fits_def slot_def)

text \<open>An accepted edit, seen from the log that describes the files before it.\<close>

definition loggable :: "(u32 \<Rightarrow> nat) \<Rightarrow> EditCollector \<Rightarrow> VersionEdit \<Rightarrow> BlobFileSet \<Rightarrow> BlobStorage \<Rightarrow> bool" where
  "loggable lv c e fs s \<longleftrightarrow>
     log_ok lv c \<and> describes c fs \<and> accepts e fs \<and> edit_fits e (column_families fs) \<and>
     map_of (column_families fs) (ve_column_family_id e) = Some s \<and>
     num_levels (cf_options s) = lv (ve_column_family_id e) \<and>
     set (map file_number (ve_added_files e)) \<inter>
       set (keys (cfc_added_files (collector_of c (ve_column_family_id e)))) = {}"

lemma loggable_deleted:
  assumes "loggable lv c e fs s"
    and n: "n \<in> set (keys (ve_deleted_files e))" "n \<notin> set (map file_number (ve_added_files e))"
  shows "n \<in> set (keys (cfc_added_files (collector_of c (ve_column_family_id e))))"
    "n \<notin> set (keys (cfc_deleted_files (collector_of c (ve_column_family_id e))))"
proof -
  let ?k = "collector_of c (ve_column_family_id e)"
  have s: "map_of (column_families fs) (ve_column_family_id e) = Some s"
    and seal: "CFEditCollector_Seal (edit_of e) s = OK"
    using assms(1) by (auto simp: loggable_def accepts_def)
  have "n \<in> set (keys (cfc_deleted_files (edit_of e))) - set (keys (cfc_added_files (edit_of e)))"
    using n by simp
  then obtain f where "FindFile s n = Some f" "\<not> is_obsolete f"
    using seal unfolding Seal_OK_iff by blast
  then have "net ?k n = Some (persistent f)"
    using assms(1) by (simp add: loggable_def describes_def live_in_def find_in_def s)
  then show "n \<in> set (keys (cfc_added_files ?k))" "n \<notin> set (keys (cfc_deleted_files ?k))"
    by (force simp: net_def dest: map_of_SomeD split: if_splits)+
qed

lemma loggable_takes:
  assumes "loggable lv c e fs s"
  shows "takes (the_edit e fs) c"
proof -
  let ?k = "collector_of c (ve_column_family_id e)"
  have "set (keys (cfc_deleted_files ?k)) \<subseteq> set (keys (cfc_added_files ?k))"
    using assms by (auto simp: loggable_def log_ok_def)
  then have "set (keys (ve_deleted_files e)) \<inter> set (keys (cfc_deleted_files ?k)) = {}"
    using loggable_deleted(2) [OF assms] assms unfolding loggable_def by blast
  then show ?thesis
    using assms by (simp only: loggable_def takes_def Let_def accepts_def describes_def the_edit_fields) simp
qed

lemma loggable_log_ok:
  assumes "loggable lv c e fs s"
  shows "log_ok lv (after_edit (persistent_edit (the_edit e fs)) c)"
  using assms loggable_takes [OF assms] loggable_deleted(1) [OF assms]
  by (intro log_ok_after_edit) (auto simp: loggable_def takes_persistent_edit edit_fits_def)

lemma loggable_net:
  assumes l: "loggable lv c e fs s"
    and find: "\<And>n. find_in fam' (ve_column_family_id e) n = apply_spec (edit_of e) s n"
  shows "net (collect (persistent_edit (the_edit e fs)) (collector_of c (ve_column_family_id e))) n =
    live_in fam' (ve_column_family_id e) n"
proof -
  let ?cf = "ve_column_family_id e" and ?e = "persistent_edit (the_edit e fs)"
  let ?k = "collector_of c ?cf"
  have s: "map_of (column_families fs) ?cf = Some s" using l by (simp add: loggable_def)
  have net: "net ?k n = live_in (column_families fs) ?cf n"
    using l s by (simp add: loggable_def describes_def)
  have "live_in fam' ?cf n = (if n \<in> set (keys (ve_deleted_files e)) then None
    else case map_of (number_files (ve_added_files e)) n of
      Some f \<Rightarrow> Some (persistent f) | None \<Rightarrow> live_in (column_families fs) ?cf n)"
    using l s find by (intro live_in_applied) (auto simp: loggable_def accepts_def edit_fits_def)
  moreover have "net (collect ?e ?k) n = (if n \<in> set (keys (ve_deleted_files ?e)) then None
    else case map_of (number_files (ve_added_files ?e)) n of Some f \<Rightarrow> Some f | None \<Rightarrow> net ?k n)"
    using l by (intro net_collect) (auto simp: loggable_def log_ok_def image_image)
  ultimately show ?thesis
    unfolding net persistent_edit_fields map_of_number_persistent the_edit_fields
    by (simp split: option.splits)
qed

lemma loggable_describes:
  assumes l: "loggable lv c e fs s"
    and find: "\<forall>cf n. find_in (column_families fs') cf n =
       batch_find [(ve_column_family_id e, edit_of e)] (column_families fs) cf n"
    and keys: "keys (column_families fs') = keys (column_families fs)"
    and nxt: "next_file_number fs' = next_file_number fs"
  shows "describes (after_edit (persistent_edit (the_edit e fs)) c) fs'"
proof -
  let ?cf = "ve_column_family_id e" and ?e = "persistent_edit (the_edit e fs)"
  have s: "map_of (column_families fs) ?cf = Some s" using l by (simp add: loggable_def)
  have "net (collector_of (after_edit ?e c) cf) n = live_in (column_families fs') cf n"
    if cf: "map_of (column_families fs) cf \<noteq> None" for cf n
  proof (cases "cf = ?cf")
    case True
    have "find_in (column_families fs') ?cf m = apply_spec (edit_of e) s m" for m
      using find by (simp add: batch_find_def s)
    then show ?thesis using loggable_net [OF l] True by (simp add: collector_of_after_edit)
  next
    case False
    then have "find_in (column_families fs') cf n = find_in (column_families fs) cf n"
      using find cf by (auto simp: batch_find_def find_in_def)
    then show ?thesis
      using False l cf by (simp add: collector_of_after_edit loggable_def describes_def live_in_def)
  qed
  moreover have "map_of (column_families fs') cf \<noteq> None \<Longrightarrow> map_of (column_families fs) cf \<noteq> None" for cf
    using arg_cong [OF keys, of set] by (simp add: map_of_eq_None_iff)
  ultimately show ?thesis using nxt by (simp add: describes_def after_edit_def)
qed

lemma manifest_ok_LogAndApply:
  assumes m: "manifest_ok lv fs" and fam: "families_ok (column_families fs)"
    and e: "edit_ok e" "edit_fits e (column_families fs)" "edit_fresh lv e fs"
    and r: "LogAndApply add sync e fs = (OK, fs')"
  shows "manifest_ok lv fs' \<and> families_ok (column_families fs')"
  using fam e(2) r
proof (cases rule: LogAndApply_cases)
  case (applied recs)
  let ?e = "persistent_edit (the_edit e fs)"
  obtain c where c: "replay recs = Inr c" "log_ok lv c" "describes c fs"
    using m applied(3) by (auto simp: manifest_ok_def)
  obtain s where l: "loggable lv c e fs s"
    using e c applied(2,3) by (auto simp: loggable_def edit_fresh_def logged_files_def)
  have "recover_edits (map Record [VersionEdit_EncodeTo (the_edit e fs) []]) OK c = Inr (after_edit ?e c)"
    using loggable_takes [OF l] e(1) c(2) by (intro recover_one) (simp_all add: edit_ok_def log_ok_def)
  then have "replay (recs @ [VersionEdit_EncodeTo (the_edit e fs) []]) = Inr (after_edit ?e c)"
    using c(1) unfolding replay_def recover_edits_append by simp
  then show ?thesis
    using applied loggable_log_ok [OF l] loggable_describes [OF l applied(7,6,8)]
    by (auto simp: manifest_ok_def)
qed simp

section \<open>Recovery restores the live files\<close>

text \<open>Freshly created families: no file yet, the levels as configured.\<close>

definition fresh_families :: "(u32 \<Rightarrow> nat) \<Rightarrow> families \<Rightarrow> bool" where
  "fresh_families lv fam \<longleftrightarrow>
     families_ok fam \<and> (\<forall>(cf, s) \<in> set fam. files s = [] \<and> num_levels (cf_options s) = lv cf)"

lemma fresh_find: "fresh_families lv fam \<Longrightarrow> map_of fam cf = Some s \<Longrightarrow> FindFile s n = None"
  by (auto simp: fresh_families_def FindFile_def dest!: map_of_SomeD)

lemma collector_of_in: "distinct (keys (ec_column_families c)) \<Longrightarrow> (cf, k) \<in> set (ec_column_families c) \<Longrightarrow>
    collector_of c cf = k"
  by (simp add: collector_of_def)

lemma recovered_Seal:
  assumes "log_ok lv c" "fresh_families lv fam"
  shows "Seal_families (ec_column_families c) fam = OK"
proof -
  have "CFEditCollector_Seal k s = OK" if "(cf, k) \<in> set (ec_column_families c)" "map_of fam cf = Some s" for cf k s
  proof -
    have "collector_of c cf = k"
      using assms(1) that by (intro collector_of_in) (simp_all add: log_ok_def ec_ok_def collectors_ok_def)
    then have "set (keys (cfc_deleted_files k)) \<subseteq> set (keys (cfc_added_files k))"
      using assms(1) unfolding log_ok_def by blast
    then show ?thesis using fresh_find [OF assms(2) that(2)] unfolding Seal_OK_iff by blast
  qed
  then show ?thesis
  proof (induction "ec_column_families c" arbitrary: c)
    case (Cons p cs)
    have "Seal_families cs fam = OK"
      using Cons(1) [of "c\<lparr>ec_column_families := cs\<rparr>"] Cons(2,3) by (metis EditCollector.select_convs(5)
          EditCollector.surjective EditCollector.update_convs(5) list.set_intros(2))
    then show ?case using Cons(3) Cons(2) [symmetric]
      by (cases p) (auto simp: Let_def split: option.splits)
  qed (metis Seal_families.simps(1))
qed

lemma recovered_fit:
  assumes "log_ok lv c" "fresh_families lv fam"
  shows "collectors_fit (ec_column_families c) fam"
  unfolding collectors_fit_def
proof (clarify)
  fix cf k s assume k: "(cf, k) \<in> set (ec_column_families c)" and s: "map_of fam cf = Some s"
  have "collector_of c cf = k"
    using assms(1) k by (intro collector_of_in) (simp_all add: log_ok_def ec_ok_def collectors_ok_def)
  then have "\<forall>(n, f) \<in> set (cfc_added_files k). persistent f = f \<and> level_fits (lv cf) f"
    using assms(1) by (auto simp: log_ok_def)
  moreover have "num_levels (cf_options s) = lv cf"
    using assms(2) map_of_SomeD [OF s] by (auto simp: fresh_families_def)
  moreover have "persistent f = f \<Longrightarrow> \<not> is_obsolete f" for f using is_obsolete_persistent [of f] by metis
  ultimately show "added_ok k s" by (auto simp: added_ok_def)
qed

lemma recovered_live:
  assumes "log_ok lv c" "fresh_families lv fam" "map_of fam cf \<noteq> None"
    and "\<And>n. find_in fam' cf n = batch_find (ec_column_families c) fam cf n"
  shows "live_in fam' cf n = net (collector_of c cf) n"
proof -
  obtain s where s: "map_of fam cf = Some s" using assms(3) by blast
  let ?k = "collector_of c cf"
  have "batch_find (ec_column_families c) fam cf n = map_option (discard (cfc_updated_discardable_size ?k) n) (net ?k n)"
    using s fresh_find [OF assms(2) s]
    by (auto simp: batch_find_def collector_of_def apply_spec_def net_def split: option.splits)
  then have F: "find_in fam' cf n = map_option (discard (cfc_updated_discardable_size ?k) n) (net ?k n)"
    by (simp only: assms(4))
  show ?thesis
  proof (cases "net ?k n")
    case None
    then show ?thesis using F by (simp add: live_in_def)
  next
    case (Some f)
    then have "(n, f) \<in> set (cfc_added_files ?k)"
      by (auto simp: net_def dest: map_of_SomeD split: if_splits)
    then have p: "persistent f = f" using assms(1) unfolding log_ok_def by blast
    then have "\<not> is_obsolete f" by (metis is_obsolete_persistent)
    then have "live_in fam' cf n = Some (persistent f)" using F Some by (simp add: live_in_def)
    then show ?thesis by (simp only: p Some)
  qed
qed

lemma recover_log_restores:
  assumes "replay recs = Inr c" "log_ok lv c" "fresh_families lv (column_families fs0)"
  shows "\<exists>fs. recover_log (map Record recs) fs0 = (OK, fs) \<and> families_ok (column_families fs)
     \<and> keys (column_families fs) = keys (column_families fs0)
     \<and> next_file_number fs = ec_next_file_number c
     \<and> (\<forall>cf n. map_of (column_families fs0) cf \<noteq> None \<longrightarrow>
          live_in (column_families fs) cf n = net (collector_of c cf) n)"
proof -
  let ?c = "c\<lparr>ec_sealed := True\<rparr>" and ?fam = "column_families fs0"
  have S: "Seal ?fam c = (OK, ?c)"
    using recovered_Seal [OF assms(2,3)] assms(2) by (simp add: Seal_def log_ok_def)
  have "families_ok ?fam" "ec_ok c" using assms(2,3) by (simp_all add: fresh_families_def log_ok_def)
  note A = Apply_after_Seal [OF this recovered_fit [OF assms(2,3)] S]
  obtain fam' where F: "Apply ?fam ?c = (OK, ?c, fam')"
    using A(1) assms(2) by (auto simp: Apply_def log_ok_def split: prod.splits if_splits)
  have "recover_log (map Record recs) fs0
      = (OK, fs0\<lparr>column_families := fam', next_file_number := ec_next_file_number c\<rparr>)"
    using assms(1,2) S F by (simp add: recover_log_def replay_def GetNextFileNumber_def log_ok_def)
  then show ?thesis
    using A F recovered_live [OF assms(2,3), of _ fam'] by auto
qed

section \<open>A snapshot describes the files it is taken of\<close>

definition live_files :: "BlobStorage \<Rightarrow> BlobFileMeta list" where
  "live_files s = map snd (filter (\<lambda>(n, f). \<not> is_obsolete f) (files s))"

lemma snapshot_edit_fields [simp]:
  "ve_column_family_id (snapshot_edit p) = fst p" "ve_added_files (snapshot_edit p) = live_files (snd p)"
  "ve_deleted_files (snapshot_edit p) = []" "ve_updated_discardable_size (snapshot_edit p) = []"
  "ve_has_next_file_number (snapshot_edit p) = False"
proof -
  let ?g = "\<lambda>(n, f) e. if is_obsolete f then e else VersionEdit_AddBlobFile f e"
  have G: "fold ?g fs e = e\<lparr>ve_added_files := ve_added_files e @ map snd (filter (\<lambda>(n, f). \<not> is_obsolete f) fs)\<rparr>"
    for fs and e :: VersionEdit
    by (induction fs arbitrary: e) (auto simp: VersionEdit_AddBlobFile_def)
  show "ve_column_family_id (snapshot_edit p) = fst p" "ve_added_files (snapshot_edit p) = live_files (snd p)"
    "ve_deleted_files (snapshot_edit p) = []" "ve_updated_discardable_size (snapshot_edit p) = []"
    "ve_has_next_file_number (snapshot_edit p) = False"
    by (simp_all add: snapshot_edit_def G live_files_def SetColumnFamilyID_def new_VersionEdit_def)
qed

lemma snapshot_head_fields [simp]:
  "ve_column_family_id (snapshot_head fs) = 0" "ve_added_files (snapshot_head fs) = []"
  "ve_deleted_files (snapshot_head fs) = []" "ve_updated_discardable_size (snapshot_head fs) = []"
  "ve_has_next_file_number (snapshot_head fs)" "ve_next_file_number (snapshot_head fs) = next_file_number fs"
  by (simp_all add: snapshot_head_def SetNextFileNumber_def new_VersionEdit_def)

lemma number_live_files:
  assumes "ids_ok s"
  shows "number_files (live_files s) = filter (\<lambda>(n, f). \<not> is_obsolete f) (files s)"
proof -
  have "\<forall>(n, f) \<in> set fs. file_number f = n \<Longrightarrow>
      map (\<lambda>f. (file_number f, f)) (map snd (filter (\<lambda>(n, f). \<not> is_obsolete f) fs))
      = filter (\<lambda>(n, f). \<not> is_obsolete f) fs" for fs
    by (induction fs) auto
  then show ?thesis using assms unfolding ids_ok_def number_files_def live_files_def by blast
qed

lemma map_of_filter_distinct:
  "distinct (keys m) \<Longrightarrow> map_of (filter (\<lambda>(k, v). P v) m) k =
     (case map_of m k of Some v \<Rightarrow> (if P v then Some v else None) | None \<Rightarrow> None)"
proof (induction m)
  case (Cons p m)
  then show ?case by (cases p) (auto simp: map_of_eq_None_iff split: option.splits dest: map_of_SomeD)
qed simp

lemma distinct_live_files: "ids_ok s \<Longrightarrow> distinct (map file_number (live_files s))"
  by (metis distinct_map_filter ids_ok_def keys_number_files number_live_files)

lemma net_snapshot:
  assumes "storage_inv s" "map_of fam cf = Some s"
  shows "net (collect (persistent_edit (snapshot_edit (cf, s))) new_CFEditCollector) n = live_in fam cf n"
proof -
  have ids: "ids_ok s" using assms(1) by (simp add: storage_inv_def)
  then have "map_of (number_files (live_files s)) n =
      (case FindFile s n of Some f \<Rightarrow> (if \<not> is_obsolete f then Some f else None) | None \<Rightarrow> None)"
    unfolding number_live_files [OF ids] FindFile_def
    by (intro map_of_filter_distinct) (simp add: ids_ok_def)
  then show ?thesis
    using assms(2)
    by (auto simp: net_def live_in_def find_in_def map_of_number_persistent persistent_edit_def
        split: option.splits)
qed

text \<open>The file keys of all live files can be written.\<close>

definition families_keys_ok :: "families \<Rightarrow> bool" where
  "families_keys_ok fam \<longleftrightarrow> (\<forall>(cf, s) \<in> set fam. \<forall>(n, f) \<in> set (files s). meta_keys_ok f)"

definition families_levels :: "(u32 \<Rightarrow> nat) \<Rightarrow> families \<Rightarrow> bool" where
  "families_levels lv fam \<longleftrightarrow> (\<forall>(cf, s) \<in> set fam. num_levels (cf_options s) = lv cf)"

lemma edit_ok_snapshot:
  assumes "families_keys_ok fam" "p \<in> set fam"
  shows "edit_ok (snapshot_edit p)"
  using assms by (fastforce simp: edit_ok_def families_keys_ok_def live_files_def list_all_iff)

lemma replay_families:
  assumes "families_ok fam" "families_keys_ok fam" "families_levels lv fam"
    and "log_ok lv c" "\<And>cf. cf \<in> set (keys fam) \<Longrightarrow> collector_of c cf = new_CFEditCollector"
  shows "\<exists>c'. recover_edits (map Record (map (\<lambda>p. VersionEdit_EncodeTo (snapshot_edit p) []) fam)) OK c = Inr c'
    \<and> log_ok lv c' \<and> ec_next_file_number c' = ec_next_file_number c
    \<and> (\<forall>cf. cf \<notin> set (keys fam) \<longrightarrow> collector_of c' cf = collector_of c cf)
    \<and> (\<forall>(cf, s) \<in> set fam. collector_of c' cf = collect (persistent_edit (snapshot_edit (cf, s))) new_CFEditCollector)"
  using assms
proof (induction fam arbitrary: c)
  case (Cons p fam)
  obtain cf s where p: "p = (cf, s)" by (cases p)
  let ?e = "persistent_edit (snapshot_edit p)" and ?E = "VersionEdit_EncodeTo (snapshot_edit p) []"
  have k: "collector_of c cf = new_CFEditCollector" using Cons.prems(5) [of cf] p by simp
  have inv: "storage_inv s" using Cons.prems(1) p by (auto simp: families_ok_def)
  have t: "takes (snapshot_edit p) c"
    using inv k distinct_live_files [of s] p by (simp add: takes_def storage_inv_def)
  have 1: "recover_edits (map Record [?E]) OK c = Inr (after_edit ?e c)"
    using t Cons.prems(2,4) edit_ok_snapshot [of "p # fam" p] by (intro recover_one) (simp_all add: log_ok_def)
  have "log_ok lv (after_edit ?e c)"
    using t inv Cons.prems(3,4) p
    by (intro log_ok_after_edit)
      (auto simp: takes_persistent_edit live_files_def families_levels_def storage_inv_def slots_ok_def)
  moreover have other: "cf' \<noteq> cf \<Longrightarrow> collector_of (after_edit ?e c) cf' = collector_of c cf'" for cf'
    by (simp add: collector_of_after_edit p)
  moreover have cf: "cf \<notin> set (keys fam)" using Cons.prems(1) p by (auto simp: families_ok_def)
  moreover have "collector_of (after_edit ?e c) cf' = new_CFEditCollector" if "cf' \<in> set (keys fam)" for cf'
  proof -
    have "cf' \<noteq> cf" using that cf by blast
    then show ?thesis using other Cons.prems(5) [of cf'] that by simp
  qed
  moreover have "families_ok fam" "families_keys_ok fam" "families_levels lv fam"
    using Cons.prems(1-3) by (simp_all add: families_ok_def families_keys_ok_def families_levels_def)
  ultimately obtain c' where c':
    "recover_edits (map Record (map (\<lambda>p. VersionEdit_EncodeTo (snapshot_edit p) []) fam)) OK (after_edit ?e c) = Inr c'"
    "log_ok lv c'" "ec_next_file_number c' = ec_next_file_number (after_edit ?e c)"
    "\<forall>cf. cf \<notin> set (keys fam) \<longrightarrow> collector_of c' cf = collector_of (after_edit ?e c) cf"
    "\<forall>(cf, s) \<in> set fam. collector_of c' cf = collect (persistent_edit (snapshot_edit (cf, s))) new_CFEditCollector"
    using Cons.IH [of "after_edit ?e c"] by blast
  have "recover_edits (map Record (map (\<lambda>p. VersionEdit_EncodeTo (snapshot_edit p) []) (p # fam))) OK c = Inr c'"
  proof -
    have split: "map (\<lambda>p. VersionEdit_EncodeTo (snapshot_edit p) []) (p # fam)
        = [?E] @ map (\<lambda>p. VersionEdit_EncodeTo (snapshot_edit p) []) fam" by simp
    show ?thesis unfolding split recover_edits_append 1 sum.case by (rule c'(1))
  qed
  moreover have "collector_of c' cf = collect ?e new_CFEditCollector"
    using c'(4) cf k by (simp add: collector_of_after_edit p)
  moreover have "ec_next_file_number (after_edit ?e c) = ec_next_file_number c"
    by (simp add: after_edit_def)
  ultimately show ?case using c' other by (auto simp: p)
qed simp

lemma write_records_ok: "write_records add i rs recs = (OK, recs') \<Longrightarrow> recs' = recs @ rs"
  by (induction add i rs recs rule: write_records.induct) (auto simp: ok_def split: if_splits)

lemma manifest_ok_OpenManifest:
  assumes fam: "families_ok (column_families fs)" "families_keys_ok (column_families fs)"
    "families_levels lv (column_families fs)"
    and r: "OpenManifest io n fs = (OK, fs')"
  shows "manifest_ok lv fs' \<and> column_families fs' = column_families fs"
proof -
  let ?fam = "column_families fs" and ?h = "snapshot_head fs"
  let ?E = "VersionEdit_EncodeTo ?h []" and ?Es = "map (\<lambda>p. VersionEdit_EncodeTo (snapshot_edit p) []) ?fam"
  obtain recs where w: "WriteSnapshot (io_add_record io) fs = (OK, recs)" and
    fs': "fs' = fs\<lparr>manifest := Some recs\<rparr>"
    using r by (auto simp: OpenManifest_def Let_def ok_def split: if_splits prod.splits)
  have recs: "recs = [?E] @ ?Es" using write_records_ok [OF w [unfolded WriteSnapshot_def]] by simp
  let ?c = "after_edit (persistent_edit ?h) new_EditCollector"
  have h: "recover_edits (map Record [?E]) OK new_EditCollector = Inr ?c"
    by (rule recover_one) (simp_all add: edit_ok_def takes_def)
  have k: "collector_of ?c cf = new_CFEditCollector" for cf
    by (simp add: collector_of_after_edit collect_def number_files_def persistent_edit_def)
  have "ec_ok ?c" by (rule ec_ok_after_edit) (simp_all add: takes_def persistent_edit_def)
  then have "log_ok lv ?c"
    by (simp add: log_ok_def k) (simp add: after_edit_def)
  then obtain c where c: "recover_edits (map Record ?Es) OK ?c = Inr c" "log_ok lv c"
    "ec_next_file_number c = ec_next_file_number ?c"
    "\<forall>(cf, s) \<in> set ?fam. collector_of c cf = collect (persistent_edit (snapshot_edit (cf, s))) new_CFEditCollector"
    using replay_families [OF fam, of ?c] k by blast
  have "replay recs = Inr c" using h c(1) unfolding replay_def recs recover_edits_append by simp
  moreover have "describes c fs'"
    unfolding describes_def fs'
  proof (intro conjI allI impI)
    show "ec_next_file_number c \<le> next_file_number (fs\<lparr>manifest := Some recs\<rparr>)"
      using c(3) by (simp add: after_edit_def)
    fix cf m assume "map_of (column_families (fs\<lparr>manifest := Some recs\<rparr>)) cf \<noteq> None"
    then obtain s where s: "map_of ?fam cf = Some s" by auto
    then have "net (collector_of c cf) m = live_in ?fam cf m"
      using c(4) map_of_SomeD [OF s] net_snapshot [OF families_ok_storage [OF fam(1) s] s] by auto
    then show "net (collector_of c cf) m = live_in (column_families (fs\<lparr>manifest := Some recs\<rparr>)) cf m"
      by simp
  qed
  ultimately show ?thesis using c(2) fs' by (auto simp: manifest_ok_def)
qed

section \<open>Purging keeps the live files\<close>

lemma live_FindFile_GetObsoleteFiles:
  assumes "storage_inv s" "GetObsoleteFiles oldest s = (s', names)" "FindFile s n = Some f" "\<not> is_obsolete f"
  shows "FindFile s' n = Some f"
proof -
  have "n \<notin> set (keys (obsolete_files s))"
    using assms(1,3,4) by (simp add: storage_inv_def obsolete_ok_def)
  then have "n \<notin> set names" unfolding GetObsoleteFiles_spec(3) [OF assms(1,2)] by auto
  then show ?thesis using GetObsoleteFiles_spec(4) [OF assms(1,2)] assms(3) by simp
qed

lemma obsolete_loop_spec:
  assumes "obsolete_loop cols oldest fam = (fam', names)" "families_ok fam"
  shows "families_ok fam' \<and> set (keys fam') \<subseteq> set (keys fam) \<and>
    (\<forall>cf s'. map_of fam' cf = Some s' \<longrightarrow> (\<exists>s. map_of fam cf = Some s \<and> (s' = s \<or> s' = fst (GetObsoleteFiles oldest s))))"
  using assms
proof (induction fam arbitrary: fam' names)
  case (Cons p fam)
  obtain cf s where p: "p = (cf, s)" by (cases p)
  obtain g ns where g: "obsolete_loop cols oldest fam = (g, ns)" by fastforce
  obtain t names' where t: "GetObsoleteFiles oldest s = (t, names')" by fastforce
  have inv: "storage_inv s" "families_ok fam" and cf: "cf \<notin> set (keys fam)"
    using Cons.prems(2) p by (auto simp: families_ok_def)
  note IH = Cons.IH [OF g inv(2)] and t_inv = GetObsoleteFiles_spec(1) [OF inv(1) t]
  have cf': "cf \<notin> set (keys g)" using IH cf by blast
  have "fam' = (cf, s) # g \<or> fam' = g \<or> fam' = (cf, t) # g"
    using Cons.prems(1) by (auto simp: p g t split: if_splits)
  moreover have "families_ok ((cf, s) # g)" "families_ok ((cf, t) # g)"
    using IH inv t_inv cf' by (simp_all add: families_ok_def)
  moreover have "map_of g cf = None" using cf' by (simp add: map_of_eq_None_iff)
  moreover have "set (keys g) \<subseteq> set (keys (p # fam))" using IH by (auto simp: p)
  ultimately show ?case using IH t by (elim disjE) (simp_all add: p subset_insertI2)
qed simp

lemma live_in_obsolete_loop:
  assumes "obsolete_loop cols oldest fam = (fam', names)" "families_ok fam" "map_of fam' cf = Some s'"
  shows "live_in fam' cf n = live_in fam cf n"
proof -
  obtain s where s: "map_of fam cf = Some s" "s' = s \<or> s' = fst (GetObsoleteFiles oldest s)"
    using obsolete_loop_spec [OF assms(1,2)] assms(3) by blast
  have inv: "storage_inv s" using families_ok_storage [OF assms(2) s(1)] .
  obtain t ns where t: "GetObsoleteFiles oldest s = (t, ns)" by fastforce
  have "FindFile t n = FindFile s n \<or> FindFile t n = None \<and> (\<exists>f. FindFile s n = Some f \<and> is_obsolete f)"
    using GetObsoleteFiles_spec(4) [OF inv t, of n] live_FindFile_GetObsoleteFiles [OF inv t, of n]
    by (metis option.exhaust)
  then show ?thesis using s t assms(3) by (auto simp: live_in_def find_in_def)
qed

section \<open>Runs of the file set\<close>

text \<open>
  The operations on an open file set, in any order: logging an edit, allocating a file
  number, purging obsolete files, opening a fresh manifest.
\<close>

inductive evolves :: "(u32 \<Rightarrow> nat) \<Rightarrow> BlobFileSet \<Rightarrow> BlobFileSet \<Rightarrow> bool" for lv where
  log: "edit_ok e \<Longrightarrow> edit_fits e (column_families fs) \<Longrightarrow> edit_fresh lv e fs \<Longrightarrow>
    LogAndApply add sync e fs = (OK, fs') \<Longrightarrow> evolves lv fs fs'"
| alloc: "NewFileNumber fs = (n, fs') \<Longrightarrow> n < n + 1 \<Longrightarrow> evolves lv fs fs'"
| purge: "BlobFileSet_GetObsoleteFiles oldest fs = (fs', names, manifests) \<Longrightarrow> evolves lv fs fs'"
| snapshot: "families_keys_ok (column_families fs) \<Longrightarrow> families_levels lv (column_families fs) \<Longrightarrow>
    OpenManifest io n fs = (OK, fs') \<Longrightarrow> evolves lv fs fs'"

inductive_cases evolvesE: "evolves lv fs fs'"

definition fileset_ok :: "(u32 \<Rightarrow> nat) \<Rightarrow> BlobFileSet \<Rightarrow> bool" where
  "fileset_ok lv fs \<longleftrightarrow> manifest_ok lv fs \<and> families_ok (column_families fs)"

lemma manifest_ok_cong:
  assumes "manifest_ok lv fs" "manifest fs' = manifest fs" "next_file_number fs \<le> next_file_number fs'"
    and "\<And>cf n. map_of (column_families fs') cf \<noteq> None \<Longrightarrow> map_of (column_families fs) cf \<noteq> None \<and>
      live_in (column_families fs') cf n = live_in (column_families fs) cf n"
  shows "manifest_ok lv fs'"
proof -
  obtain recs c where c: "manifest fs = Some recs" "replay recs = Inr c" "log_ok lv c" "describes c fs"
    using assms(1) by (auto simp: manifest_ok_def)
  have "describes c fs'"
    using c(4) assms(3,4) unfolding describes_def by (metis order.trans)
  then show ?thesis using c assms(2) by (auto simp: manifest_ok_def)
qed

lemma fileset_ok_evolves:
  assumes "evolves lv fs fs'" "fileset_ok lv fs"
  shows "fileset_ok lv fs'"
  using assms
proof (cases rule: evolves.cases)
  case (log e add sync)
  then show ?thesis using assms(2) manifest_ok_LogAndApply unfolding fileset_ok_def by blast
next
  case (alloc n)
  then show ?thesis
    using assms(2) by (auto simp: fileset_ok_def NewFileNumber_def intro: manifest_ok_cong)
next
  case (purge oldest names manifests)
  obtain fam ns where l: "obsolete_loop (obsolete_columns fs) oldest (column_families fs) = (fam, ns)"
    by fastforce
  have fs': "fs' = fs\<lparr>column_families := fam, obsolete_manifests := []\<rparr>"
    using purge by (simp add: BlobFileSet_GetObsoleteFiles_def l)
  have fam: "families_ok (column_families fs)" using assms(2) by (simp add: fileset_ok_def)
  have "map_of fam cf \<noteq> None \<Longrightarrow> map_of (column_families fs) cf \<noteq> None \<and>
      live_in fam cf m = live_in (column_families fs) cf m" for cf m
    using obsolete_loop_spec [OF l fam] live_in_obsolete_loop [OF l fam] by blast
  then have "manifest_ok lv fs'"
    using assms(2) fs' by (intro manifest_ok_cong [of lv fs fs']) (auto simp: fileset_ok_def)
  then show ?thesis using obsolete_loop_spec [OF l fam] fs' by (simp add: fileset_ok_def)
next
  case (snapshot io n)
  then show ?thesis using assms(2) manifest_ok_OpenManifest unfolding fileset_ok_def by metis
qed

lemma fileset_ok_run: "(evolves lv)\<^sup>*\<^sup>* fs fs' \<Longrightarrow> fileset_ok lv fs \<Longrightarrow> fileset_ok lv fs'"
  by (induction rule: rtranclp_induct) (blast intro: fileset_ok_evolves)+

lemma fileset_ok_recovers:
  assumes "fileset_ok lv fs" "manifest fs = Some recs" "fresh_families lv (column_families fs0)"
    and "keys (column_families fs0) = keys (column_families fs)"
  shows "\<exists>fs'. recover_log (map Record recs) fs0 = (OK, fs') \<and>
     next_file_number fs' \<le> next_file_number fs \<and>
     (\<forall>cf n. live_in (column_families fs') cf n = live_in (column_families fs) cf n)"
proof -
  obtain c where c: "replay recs = Inr c" "log_ok lv c" "describes c fs"
    using assms(1,2) by (auto simp: fileset_ok_def manifest_ok_def)
  obtain fs' where fs': "recover_log (map Record recs) fs0 = (OK, fs')"
    "keys (column_families fs') = keys (column_families fs0)" "next_file_number fs' = ec_next_file_number c"
    "\<And>cf n. map_of (column_families fs0) cf \<noteq> None \<Longrightarrow>
       live_in (column_families fs') cf n = net (collector_of c cf) n"
    using recover_log_restores [OF c(1,2) assms(3)] by blast
  have K: "map_of (column_families fs0) cf = None \<longleftrightarrow> map_of (column_families fs) cf = None"
    "map_of (column_families fs') cf = None \<longleftrightarrow> map_of (column_families fs) cf = None" for cf
    unfolding map_of_eq_None_iff
    using arg_cong [OF assms(4), of set] arg_cong [OF fs'(2), of set] by simp_all
  have "live_in (column_families fs') cf n = live_in (column_families fs) cf n" for cf n
  proof (cases "map_of (column_families fs) cf")
    case None
    then show ?thesis using K [of cf] by (simp add: live_in_def find_in_def)
  next
    case (Some s)
    then show ?thesis using K [of cf] fs'(4) [of cf n] c(3) by (simp add: describes_def)
  qed
  then show ?thesis using fs' c(3) by (auto simp: describes_def)
qed

end
