(* ===== verification/Db_Read.thy ===== *)
theory Db_Read
  imports Blob_File_Set
begin

text \<open>
  The read path of \<^verbatim>\<open>TitanDBImpl\<close> (\<^verbatim>\<open>db_impl.cc\<close>: \<^verbatim>\<open>Get\<close>, \<^verbatim>\<open>MultiGet\<close>) and \<^verbatim>\<open>TitanDBIterator\<close> (\<^verbatim>\<open>db_iter.h\<close>).

  What RocksDB answers is a parameter: the result of a lookup with the flag whether it is a blob
  index, and an iterator, given by its operations. The files of the directory, the
  compression libraries and the checksum are in \<open>read_env\<close>. A lookup happens at a snapshot,
  which the parameter stands for.
\<close>

record read_env =
  env_libs :: compression_libs
  env_crc :: checksum
  env_open :: open_io
  env_building :: "u64 \<Rightarrow> random_file"

definition new_BlobRecord :: BlobRecord where
  "new_BlobRecord = \<lparr>rec_key = [], rec_value = [], only_value = False\<rparr>"

section \<open>Point reads\<close>

definition GetImpl ::
  "read_env \<Rightarrow> (u32 \<Rightarrow> bytes \<Rightarrow> Status + bytes \<times> bool) \<Rightarrow> u32 \<Rightarrow> bytes \<Rightarrow> blob_cache option \<Rightarrow> BlobFileSet
     \<Rightarrow> (Status + bytes) \<times> blob_cache option \<times> BlobFileSet" where
  "GetImpl env base_get cf key cache fs =
     (case base_get cf key of
        Inl s \<Rightarrow> (Inl s, cache, fs)
      | Inr (v, is_blob_index) \<Rightarrow>
          if \<not> is_blob_index then (Inr v, cache, fs)
          else
            (case BlobIndex_DecodeFrom v of
               Inl s \<Rightarrow> (Inl s, cache, fs)
             | Inr (idx, _) \<Rightarrow>
                 (case GetBlobStorage fs cf of
                    None \<Rightarrow> (Inl NotFound, cache, fs)
                  | Some storage \<Rightarrow>
                      (let (r, cache, storage) = BlobStorage_Get (env_libs env) (env_crc env) (env_open env) (env_building env)
                                                   idx new_BlobRecord cache storage
                       in (map_sum id rec_value r, cache,
                           fs\<lparr>column_families := AList.update cf storage (column_families fs)\<rparr>)))))"

fun MultiGetImpl ::
  "read_env \<Rightarrow> (u32 \<Rightarrow> bytes \<Rightarrow> Status + bytes \<times> bool) \<Rightarrow> (u32 \<times> bytes) list \<Rightarrow> blob_cache option \<Rightarrow> BlobFileSet
     \<Rightarrow> (Status + bytes) list \<times> blob_cache option \<times> BlobFileSet" where
  "MultiGetImpl env base_get [] cache fs = ([], cache, fs)"
| "MultiGetImpl env base_get ((cf, key) # ks) cache fs =
     (let (r, cache, fs) = GetImpl env base_get cf key cache fs;
          (rs, cache, fs) = MultiGetImpl env base_get ks cache fs
      in (r # rs, cache, fs))"

section \<open>The iterator\<close>

text \<open>The operations of RocksDB's iterator.\<close>

record 'i inner_ops =
  op_Valid :: "'i \<Rightarrow> bool"
  op_IsBlob :: "'i \<Rightarrow> bool"
  op_key :: "'i \<Rightarrow> bytes"
  op_value :: "'i \<Rightarrow> bytes"
  op_status :: "'i \<Rightarrow> Status"
  op_SeekToFirst :: "'i \<Rightarrow> 'i"
  op_SeekToLast :: "'i \<Rightarrow> 'i"
  op_Seek :: "bytes \<Rightarrow> 'i \<Rightarrow> 'i"
  op_SeekForPrev :: "bytes \<Rightarrow> 'i \<Rightarrow> 'i"
  op_Next :: "'i \<Rightarrow> 'i"
  op_Prev :: "'i \<Rightarrow> 'i"

record 'i TitanDBIterator =
  di_status :: Status
  di_record :: BlobRecord
  di_key_only :: bool
  di_storage :: BlobStorage
  di_iter :: 'i
  di_files :: "(u64 \<times> BlobFilePrefetcher) list"

definition new_TitanDBIterator :: "bool \<Rightarrow> BlobStorage \<Rightarrow> 'i \<Rightarrow> 'i TitanDBIterator" where
  "new_TitanDBIterator key_only storage i =
     \<lparr>di_status = OK, di_record = new_BlobRecord, di_key_only = key_only, di_storage = storage, di_iter = i, di_files = []\<rparr>"

definition DbIter_Valid :: "'i inner_ops \<Rightarrow> 'i TitanDBIterator \<Rightarrow> bool" where
  "DbIter_Valid ops it = op_Valid ops (di_iter it)"

definition DbIter_status :: "'i inner_ops \<Rightarrow> 'i TitanDBIterator \<Rightarrow> Status" where
  "DbIter_status ops it = (if ok (di_status it) then op_status ops (di_iter it) else di_status it)"

definition ShouldGetBlobValue :: "'i inner_ops \<Rightarrow> 'i TitanDBIterator \<Rightarrow> bool \<times> 'i TitanDBIterator" where
  "ShouldGetBlobValue ops it =
     (if \<not> op_Valid ops (di_iter it) \<or> \<not> op_IsBlob ops (di_iter it) \<or> di_key_only it
      then (False, it\<lparr>di_status := op_status ops (di_iter it)\<rparr>)
      else (True, it))"

text \<open>The prefetcher of a file, from the map or a new one.\<close>

definition find_prefetcher :: "read_env \<Rightarrow> u64 \<Rightarrow> 'i TitanDBIterator \<Rightarrow> (Status + BlobFilePrefetcher) \<times> 'i TitanDBIterator" where
  "find_prefetcher env n it =
     (case map_of (di_files it) n of
        Some pf \<Rightarrow> (Inr pf, it)
      | None \<Rightarrow>
          (let (r, storage) = BlobStorage_NewPrefetcher (env_crc env) (env_open env) n (di_storage it);
               it = it\<lparr>di_storage := storage\<rparr>
           in case r of
                Inl s \<Rightarrow> (Inl s, it\<lparr>di_status := s\<rparr>)
              | Inr pf \<Rightarrow> (Inr pf, it\<lparr>di_status := OK, di_files := emplace n pf (di_files it)\<rparr>)))"

definition GetBlobValue ::
  "read_env \<Rightarrow> 'i inner_ops \<Rightarrow> blob_cache option \<Rightarrow> 'i TitanDBIterator \<Rightarrow> blob_cache option \<times> 'i TitanDBIterator" where
  "GetBlobValue env ops cache it =
     (case DecodeInto BlobIndex_DecodeFrom (op_value ops (di_iter it)) of
        Inl s \<Rightarrow> (cache, it\<lparr>di_status := s\<rparr>)
      | Inr idx \<Rightarrow>
          (case find_prefetcher env (bi_file_number idx) (it\<lparr>di_status := OK\<rparr>) of
             (Inl s, it) \<Rightarrow> (cache, it)
           | (Inr pf, it) \<Rightarrow>
               (let (r, cache, pf, _) = BlobFilePrefetcher_Get (env_libs env) (env_crc env) pf (blob_handle idx) (di_record it) cache;
                    it = it\<lparr>di_files := AList.update (bi_file_number idx) pf (di_files it)\<rparr>
                in case r of
                     Inl s \<Rightarrow> (cache, it\<lparr>di_status := s\<rparr>)
                   | Inr rec \<Rightarrow> (cache, it\<lparr>di_status := OK, di_record := rec\<rparr>))))"

text \<open>Every movement moves the inner iterator and then fetches the value if there is one to fetch.\<close>

definition DbIter_move ::
  "read_env \<Rightarrow> 'i inner_ops \<Rightarrow> ('i \<Rightarrow> 'i) \<Rightarrow> blob_cache option \<Rightarrow> 'i TitanDBIterator \<Rightarrow> blob_cache option \<times> 'i TitanDBIterator" where
  "DbIter_move env ops move cache it =
     (let (b, it) = ShouldGetBlobValue ops (it\<lparr>di_iter := move (di_iter it)\<rparr>)
      in if b then GetBlobValue env ops cache it else (cache, it))"

definition DbIter_SeekToFirst ::
  "read_env \<Rightarrow> 'i inner_ops \<Rightarrow> blob_cache option \<Rightarrow> 'i TitanDBIterator \<Rightarrow> blob_cache option \<times> 'i TitanDBIterator" where
  "DbIter_SeekToFirst env ops = DbIter_move env ops (op_SeekToFirst ops)"

definition DbIter_SeekToLast ::
  "read_env \<Rightarrow> 'i inner_ops \<Rightarrow> blob_cache option \<Rightarrow> 'i TitanDBIterator \<Rightarrow> blob_cache option \<times> 'i TitanDBIterator" where
  "DbIter_SeekToLast env ops = DbIter_move env ops (op_SeekToLast ops)"

definition DbIter_Seek ::
  "read_env \<Rightarrow> 'i inner_ops \<Rightarrow> bytes \<Rightarrow> blob_cache option \<Rightarrow> 'i TitanDBIterator \<Rightarrow> blob_cache option \<times> 'i TitanDBIterator" where
  "DbIter_Seek env ops target = DbIter_move env ops (op_Seek ops target)"

definition DbIter_SeekForPrev ::
  "read_env \<Rightarrow> 'i inner_ops \<Rightarrow> bytes \<Rightarrow> blob_cache option \<Rightarrow> 'i TitanDBIterator \<Rightarrow> blob_cache option \<times> 'i TitanDBIterator" where
  "DbIter_SeekForPrev env ops target = DbIter_move env ops (op_SeekForPrev ops target)"

definition DbIter_Next ::
  "read_env \<Rightarrow> 'i inner_ops \<Rightarrow> blob_cache option \<Rightarrow> 'i TitanDBIterator \<Rightarrow> blob_cache option \<times> 'i TitanDBIterator" where
  "DbIter_Next env ops = DbIter_move env ops (op_Next ops)"

definition DbIter_Prev ::
  "read_env \<Rightarrow> 'i inner_ops \<Rightarrow> blob_cache option \<Rightarrow> 'i TitanDBIterator \<Rightarrow> blob_cache option \<times> 'i TitanDBIterator" where
  "DbIter_Prev env ops = DbIter_move env ops (op_Prev ops)"

definition DbIter_key :: "'i inner_ops \<Rightarrow> 'i TitanDBIterator \<Rightarrow> bytes" where
  "DbIter_key ops it = op_key ops (di_iter it)"

definition DbIter_value :: "'i inner_ops \<Rightarrow> 'i TitanDBIterator \<Rightarrow> bytes" where
  "DbIter_value ops it =
     (if di_key_only it then [] else if \<not> op_IsBlob ops (di_iter it) then op_value ops (di_iter it)
      else rec_value (di_record it))"

section \<open>Scans\<close>

text \<open>
  The first loop of \<^verbatim>\<open>Scan\<close> collects keys, inline values and blob indexes; \<open>n\<close> is what is left of
  the requested length at position \<open>i\<close>. An error ends the scan at once (result \<open>None\<close> for the number of
  entries, since the length the caller passed is not updated).
\<close>

fun scan_collect ::
  "read_env \<Rightarrow> 'i inner_ops \<Rightarrow> nat \<Rightarrow> nat \<Rightarrow> 'i TitanDBIterator \<Rightarrow> bytes list \<Rightarrow> bytes list \<Rightarrow> BlobIndex list
     \<Rightarrow> nat option \<times> 'i TitanDBIterator \<times> bytes list \<times> bytes list \<times> BlobIndex list" where
  "scan_collect env ops 0 i it ks vs idxs = (Some i, it, ks, vs, idxs)"
| "scan_collect env ops (Suc n) i it ks vs idxs =
     (if \<not> DbIter_Valid ops it then (Some i, it, ks, vs, idxs)
      else
        let (b, it) = ShouldGetBlobValue ops it in
        if b then
          (case DecodeInto BlobIndex_DecodeFrom (op_value ops (di_iter it)) of
             Inl s \<Rightarrow> (None, it\<lparr>di_status := s\<rparr>, ks, vs, idxs)
           | Inr idx \<Rightarrow>
               (case find_prefetcher env (bi_file_number idx) (it\<lparr>di_status := OK\<rparr>) of
                  (Inl s, it) \<Rightarrow> (None, it, ks, vs, idxs[i := idx])
                | (Inr pf, it) \<Rightarrow>
                    scan_collect env ops n (Suc i) (it\<lparr>di_iter := op_Next ops (di_iter it)\<rparr>)
                      (ks[i := op_key ops (di_iter it)]) vs (idxs[i := idx])))
        else
          scan_collect env ops n (Suc i) (it\<lparr>di_iter := op_Next ops (di_iter it)\<rparr>)
            (ks[i := op_key ops (di_iter it)]) (vs[i := op_value ops (di_iter it)]) idxs)"

text \<open>
  The second loop reads the values that are still empty. A file number without a prefetcher
  dereferences the end of the map; a failed read leaves the record of the previous one.
\<close>

fun scan_fetch ::
  "read_env \<Rightarrow> (u64 \<times> BlobFilePrefetcher) list \<Rightarrow> nat list \<Rightarrow> BlobRecord \<Rightarrow> bytes list \<Rightarrow> BlobIndex list \<Rightarrow> blob_cache option
     \<Rightarrow> Status \<times> bytes list \<times> blob_cache option" where
  "scan_fetch env fs [] rec vs idxs cache = (OK, vs, cache)"
| "scan_fetch env fs (j # js) rec vs idxs cache =
     (if vs ! j \<noteq> [] then scan_fetch env fs js rec vs idxs cache
      else
        (case map_of fs (bi_file_number (idxs ! j)) of
           None \<Rightarrow> (Undefined, vs, cache)
         | Some pf \<Rightarrow>
             (let (r, cache) = BlobFilePrefetcher_PointGet (env_libs env) (env_crc env) pf (blob_handle (idxs ! j)) rec cache;
                  rec = (case r of Inl _ \<Rightarrow> rec | Inr r \<Rightarrow> r)
              in scan_fetch env fs js rec (vs[j := rec_value rec]) idxs cache)))"

definition null_BlobIndex :: BlobIndex where
  "null_BlobIndex = \<lparr>bi_file_number = 0, blob_handle = \<lparr>bh_offset = 0, bh_size = 0\<rparr>\<rparr>"

definition DbIter_Scan ::
  "read_env \<Rightarrow> 'i inner_ops \<Rightarrow> bytes \<Rightarrow> nat \<Rightarrow> bytes list \<Rightarrow> bytes list \<Rightarrow> blob_cache option \<Rightarrow> 'i TitanDBIterator
     \<Rightarrow> Status \<times> nat \<times> bytes list \<times> bytes list \<times> blob_cache option \<times> 'i TitanDBIterator" where
  "DbIter_Scan env ops target len ks vs cache it =
     (case scan_collect env ops len 0 (it\<lparr>di_iter := op_Seek ops target (di_iter it)\<rparr>) ks vs (replicate len null_BlobIndex) of
        (None, it, ks, vs, idxs) \<Rightarrow> (OK, len, ks, vs, cache, it)
      | (Some n, it, ks, vs, idxs) \<Rightarrow>
          (let (s, vs, cache) = scan_fetch env (di_files it) [0..<n] new_BlobRecord vs idxs cache
           in (s, n, ks, vs, cache, it)))"

text \<open>\<^verbatim>\<open>TitanDBImpl::Scan\<close>: the vectors grow to the requested length.\<close>

definition grow :: "nat \<Rightarrow> bytes list \<Rightarrow> bytes list" where
  "grow len xs = (if length xs < len then xs @ replicate (len - length xs) [] else xs)"

definition TitanDB_Scan ::
  "read_env \<Rightarrow> 'i inner_ops \<Rightarrow> bytes \<Rightarrow> nat \<Rightarrow> bytes list \<Rightarrow> bytes list \<Rightarrow> blob_cache option \<Rightarrow> BlobStorage \<Rightarrow> 'i
     \<Rightarrow> Status \<times> nat \<times> bytes list \<times> bytes list" where
  "TitanDB_Scan env ops start len ks vs cache storage i =
     (let (s, n, ks, vs, _) = DbIter_Scan env ops start len (grow len ks) (grow len vs) cache (new_TitanDBIterator False storage i)
      in (s, n, ks, vs))"
section \<open>What the files hold\<close>

text \<open>
  A description of the blob files: for a file number its records, their handles, its content
  and the cache prefix of its reader. \<open>disk_ok\<close> says that the storage, the directory, the open
  readers and the record cache agree with it. That the cache keys of different files differ is
  what a cache prefix is for.
\<close>

type_synonym disk = "u64 \<rightharpoonup> BlobRecord list \<times> BlobHandle list \<times> bytes \<times> bytes"

definition keyless :: "BlobStorage \<Rightarrow> BlobFileMeta \<Rightarrow> bool" where
  "keyless s f \<longleftrightarrow> level_merge (cf_options s) \<and> file_type f = kSorted"

definition file_ok ::
  "read_env \<Rightarrow> BlobStorage \<Rightarrow> u64 \<Rightarrow> BlobRecord list \<times> BlobHandle list \<times> bytes \<times> bytes \<Rightarrow> bool" where
  "file_ok env s n d \<longleftrightarrow>
     (case d of (rs, hs, c, prefix) \<Rightarrow>
        (case FindFile s n of
           None \<Rightarrow> False
         | Some f \<Rightarrow> file_number f = n \<and> file_size f = word_of_nat (length c) \<and> (\<forall>r \<in> set rs. only_value r = keyless s f)) \<and>
        env_open env n = Inr (pread c, prefix) \<and> built_from (env_libs env) (env_crc env) rs hs c \<and>
        (\<forall>rd. map_of (file_cache s) n = Some rd \<longrightarrow>
           BlobFileReader_Open (env_crc env) prefix (pread c) (word_of_nat (length c)) = Inr rd))"

definition prefixes_apart :: "disk \<Rightarrow> bool" where
  "prefixes_apart D \<longleftrightarrow>
     (\<forall>n n' rs hs c p rs' hs' c' p' a b. D n = Some (rs, hs, c, p) \<longrightarrow> D n' = Some (rs', hs', c', p') \<longrightarrow> n \<noteq> n' \<longrightarrow>
        EncodeBlobCache p a \<noteq> EncodeBlobCache p' b)"

definition caches_ok :: "disk \<Rightarrow> blob_cache option \<Rightarrow> bool" where
  "caches_ok D cache \<longleftrightarrow> (\<forall>n rs hs c prefix. D n = Some (rs, hs, c, prefix) \<longrightarrow> cache_ok prefix (zip hs rs) cache)"

definition disk_ok :: "read_env \<Rightarrow> disk \<Rightarrow> BlobStorage \<Rightarrow> blob_cache option \<Rightarrow> bool" where
  "disk_ok env D s cache \<longleftrightarrow>
     libs_ok (env_libs env) \<and> prefixes_apart D \<and> caches_ok D cache \<and> (\<forall>n d. D n = Some d \<longrightarrow> file_ok env s n d)"

text \<open>The record that a blob index refers to.\<close>

definition stored :: "disk \<Rightarrow> BlobIndex \<Rightarrow> BlobRecord \<Rightarrow> bool" where
  "stored D idx r \<longleftrightarrow>
     (\<exists>rs hs c prefix i. D (bi_file_number idx) = Some (rs, hs, c, prefix) \<and> i < length rs \<and> hs ! i = blob_handle idx \<and> rs ! i = r)"

lemma Reader_Open_fields:
  "BlobFileReader_Open Extend prefix file n = Inr rd \<Longrightarrow> br_cache_prefix rd = prefix \<and> br_file rd = file"
  by (auto simp: BlobFileReader_Open_def split: if_splits sum.splits)

lemma Reader_Get_cache:
  "snd (BlobFileReader_Get L Extend rd h r0 cache) = cache \<or> (\<exists>blob. snd (BlobFileReader_Get L Extend rd h r0 cache) =
      map_option (AList.update (EncodeBlobCache (br_cache_prefix rd) (bh_offset h)) blob) cache)"
  by (auto simp: BlobFileReader_Get_def Let_def split: option.split sum.split prod.split)

lemma cache_ok_other:
  assumes "cache_ok p hrs cache" "\<And>a. k \<noteq> EncodeBlobCache p a"
  shows "cache_ok p hrs (map_option (AList.update k blob) cache)"
proof -
  have "map_of (AList.update k blob c) (EncodeBlobCache p a) = map_of c (EncodeBlobCache p a)" for c a
    using assms(2) by (simp add: AList.update_conv' not_sym)
  then show ?thesis using assms(1) unfolding cache_ok_def by auto
qed

lemma file_ok_readers:
  assumes "file_ok env s n d" "\<And>rd. map_of fc n = Some rd \<Longrightarrow> map_of (file_cache s) n = Some rd \<or>
      BlobFileReader_Open (env_crc env) (snd (snd (snd d))) (pread (fst (snd (snd d)))) (word_of_nat (length (fst (snd (snd d))))) = Inr rd"
  shows "file_ok env (s\<lparr>file_cache := fc\<rparr>) n d"
  using assms by (cases d) (fastforce simp: file_ok_def FindFile_def keyless_def split: option.splits)

text \<open>Reading the record of an index through the open reader of its file.\<close>

lemma Reader_Get_disk:
  assumes D: "disk_ok env D s cache" "D n = Some (rs, hs, c, prefix)"
    and rd: "BlobFileReader_Open (env_crc env) prefix (pread c) (word_of_nat (length c)) = Inr rd"
    and i: "i < length rs" "only_value r0 = only_value (rs ! i)"
  shows "\<exists>cache'. BlobFileReader_Get (env_libs env) (env_crc env) rd (hs ! i) r0 cache = (Inr (as_read r0 (rs ! i)), cache') \<and>
    disk_ok env D s cache'"
proof -
  let ?g = "BlobFileReader_Get (env_libs env) (env_crc env) rd (hs ! i) r0 cache"
  have ok: "libs_ok (env_libs env)" "built_from (env_libs env) (env_crc env) rs hs c" "cache_ok prefix (zip hs rs) cache"
    using D by (auto simp: disk_ok_def file_ok_def caches_ok_def)
  obtain rd' where "BlobFileReader_Open (env_crc env) prefix (pread c) (word_of_nat (length c)) = Inr rd'"
    "\<And>i r0 cache. i < length rs \<Longrightarrow> only_value r0 = only_value (rs ! i) \<Longrightarrow> cache_ok prefix (zip hs rs) cache \<Longrightarrow>
      fst (BlobFileReader_Get (env_libs env) (env_crc env) rd' (hs ! i) r0 cache) = Inr (as_read r0 (rs ! i)) \<and>
      cache_ok prefix (zip hs rs) (snd (BlobFileReader_Get (env_libs env) (env_crc env) rd' (hs ! i) r0 cache))"
    by (rule built_from_reads [OF ok(1,2), of prefix]) blast
  then have g: "fst ?g = Inr (as_read r0 (rs ! i))" "cache_ok prefix (zip hs rs) (snd ?g)"
    using rd i ok(3) by simp_all
  have "cache_ok p' (zip hs' rs') (snd ?g)" if D': "D n' = Some (rs', hs', c', p')" for n' rs' hs' c' p'
  proof (cases "n' = n")
    case True
    then show ?thesis using D' D(2) g(2) by simp
  next
    case False
    have ok': "cache_ok p' (zip hs' rs') cache" using D(1) D' by (auto simp: disk_ok_def caches_ok_def)
    have "prefixes_apart D" using D(1) by (simp add: disk_ok_def)
    then have "EncodeBlobCache prefix b \<noteq> EncodeBlobCache p' a" for a b
      using D(2) D' False unfolding prefixes_apart_def by blast
    then show ?thesis
      using ok' Reader_Open_fields [OF rd] Reader_Get_cache [of "env_libs env" "env_crc env" rd "hs ! i" r0 cache]
      by (elim disjE exE) (simp_all add: cache_ok_other)
  qed
  then have "caches_ok D (snd ?g)" unfolding caches_ok_def by blast
  then have "disk_ok env D s (snd ?g)" using D(1) by (simp add: disk_ok_def)
  then show ?thesis using g(1) by (metis prod.collapse)
qed
text \<open>The reader of a file, open already or opened now.\<close>

lemma FindFile_disk:
  assumes D: "disk_ok env D s cache" "D n = Some (rs, hs, c, prefix)" "FindFile s n = Some f"
  shows "\<exists>rd fc. BlobFileCache_FindFile (env_crc env) (env_open env) (file_number f) (file_size f) (file_cache s) = (Inr rd, fc) \<and>
    BlobFileReader_Open (env_crc env) prefix (pread c) (word_of_nat (length c)) = Inr rd \<and> disk_ok env D (s\<lparr>file_cache := fc\<rparr>) cache"
proof -
  have ok: "libs_ok (env_libs env)" "file_ok env s n (rs, hs, c, prefix)"
    using D by (auto simp: disk_ok_def)
  then have f: "file_number f = n" "file_size f = word_of_nat (length c)" "env_open env n = Inr (pread c, prefix)"
    "built_from (env_libs env) (env_crc env) rs hs c"
    using D(3) by (simp_all add: file_ok_def)
  obtain rd where rd: "BlobFileReader_Open (env_crc env) prefix (pread c) (word_of_nat (length c)) = Inr rd"
    by (rule built_from_reads [OF ok(1) f(4), of prefix]) blast
  show ?thesis
  proof (cases "map_of (file_cache s) n")
    case None
    let ?fc = "AList.update n rd (file_cache s)"
    have "file_ok env (s\<lparr>file_cache := ?fc\<rparr>) n' d" if "D n' = Some d" for n' d
    proof (rule file_ok_readers)
      show "file_ok env s n' d" using D(1) that unfolding disk_ok_def by blast
    qed (use that D(2) rd in \<open>auto simp: AList.update_conv' split: if_splits\<close>)
    then have "disk_ok env D (s\<lparr>file_cache := ?fc\<rparr>) cache" using D(1) by (simp add: disk_ok_def)
    then show ?thesis using None f rd by (simp add: BlobFileCache_FindFile_def)
  next
    case (Some rd')
    then have "rd' = rd" using ok(2) rd by (simp add: file_ok_def)
    then show ?thesis using Some f D(1) rd by (simp add: BlobFileCache_FindFile_def)
  qed
qed

lemma stored_file:
  assumes "disk_ok env D s cache" "stored D idx r"
  obtains rs hs c prefix i f where "D (bi_file_number idx) = Some (rs, hs, c, prefix)" "i < length rs" "hs ! i = blob_handle idx" "rs ! i = r"
    "FindFile s (bi_file_number idx) = Some f" "only_value r = keyless s f"
proof -
  obtain rs hs c prefix i where 1: "D (bi_file_number idx) = Some (rs, hs, c, prefix)" "i < length rs" "hs ! i = blob_handle idx" "rs ! i = r"
    using assms(2) by (auto simp: stored_def)
  then have "file_ok env s (bi_file_number idx) (rs, hs, c, prefix)" using assms(1) by (simp add: disk_ok_def)
  then obtain f where "FindFile s (bi_file_number idx) = Some f" "\<forall>r \<in> set rs. only_value r = keyless s f"
    by (auto simp: file_ok_def split: option.splits)
  then show ?thesis using that [OF 1] 1(2,4) by (metis nth_mem)
qed

lemma BlobStorage_Get_disk:
  assumes "disk_ok env D s cache" "stored D idx r"
  shows "\<exists>r' cache' fc. BlobStorage_Get (env_libs env) (env_crc env) (env_open env) (env_building env) idx r0 cache s
     = (Inr r', cache', s\<lparr>file_cache := fc\<rparr>) \<and> rec_value r' = rec_value r \<and> disk_ok env D (s\<lparr>file_cache := fc\<rparr>) cache'"
proof -
  obtain rs hs c prefix i f where 1: "D (bi_file_number idx) = Some (rs, hs, c, prefix)" "i < length rs" "hs ! i = blob_handle idx" "rs ! i = r"
    "FindFile s (bi_file_number idx) = Some f" "only_value r = keyless s f"
    by (rule stored_file [OF assms])
  obtain rd fc where 2: "BlobFileCache_FindFile (env_crc env) (env_open env) (file_number f) (file_size f) (file_cache s) = (Inr rd, fc)"
    "BlobFileReader_Open (env_crc env) prefix (pread c) (word_of_nat (length c)) = Inr rd" "disk_ok env D (s\<lparr>file_cache := fc\<rparr>) cache"
    using FindFile_disk [OF assms(1) 1(1,5)] by blast
  let ?r0 = "r0\<lparr>only_value := keyless s f\<rparr>"
  obtain cache' where "BlobFileReader_Get (env_libs env) (env_crc env) rd (hs ! i) ?r0 cache = (Inr (as_read ?r0 (rs ! i)), cache')"
    "disk_ok env D (s\<lparr>file_cache := fc\<rparr>) cache'"
    using Reader_Get_disk [OF 2(3) 1(1) 2(2) 1(2), of ?r0] 1(4,6) by auto
  then show ?thesis
    using 1 2(1) by (simp add: BlobStorage_Get_def BlobFileCache_Get_def keyless_def) blast
qed

text \<open>A prefetcher that reads the file it is for.\<close>

definition prefetcher_ok :: "read_env \<Rightarrow> disk \<Rightarrow> BlobStorage \<Rightarrow> u64 \<Rightarrow> BlobFilePrefetcher \<Rightarrow> bool" where
  "prefetcher_ok env D s n pf \<longleftrightarrow>
     (\<exists>rs hs c prefix f. D n = Some (rs, hs, c, prefix) \<and> FindFile s n = Some f \<and>
        BlobFileReader_Open (env_crc env) prefix (pread c) (word_of_nat (length c)) = Inr (pf_reader pf) \<and>
        pf_only_value pf = keyless s f)"

lemma prefetcher_ok_cong [simp]:
  "prefetcher_ok env D (s\<lparr>file_cache := fc\<rparr>) n pf = prefetcher_ok env D s n pf"
  by (simp add: prefetcher_ok_def FindFile_def keyless_def)

lemma NewPrefetcher_disk:
  assumes "disk_ok env D s cache" "stored D idx r"
  shows "\<exists>pf fc. BlobStorage_NewPrefetcher (env_crc env) (env_open env) (bi_file_number idx) s = (Inr pf, s\<lparr>file_cache := fc\<rparr>) \<and>
    prefetcher_ok env D s (bi_file_number idx) pf \<and> disk_ok env D (s\<lparr>file_cache := fc\<rparr>) cache"
proof -
  obtain rs hs c prefix i f where 1: "D (bi_file_number idx) = Some (rs, hs, c, prefix)" "i < length rs" "hs ! i = blob_handle idx" "rs ! i = r"
    "FindFile s (bi_file_number idx) = Some f" "only_value r = keyless s f"
    by (rule stored_file [OF assms])
  obtain rd fc where 2: "BlobFileCache_FindFile (env_crc env) (env_open env) (file_number f) (file_size f) (file_cache s) = (Inr rd, fc)"
    "BlobFileReader_Open (env_crc env) prefix (pread c) (word_of_nat (length c)) = Inr rd" "disk_ok env D (s\<lparr>file_cache := fc\<rparr>) cache"
    using FindFile_disk [OF assms(1) 1(1,5)] by blast
  then show ?thesis
    using 1 by (auto simp: BlobStorage_NewPrefetcher_def BlobFileCache_NewPrefetcher_def prefetcher_ok_def keyless_def new_BlobFilePrefetcher_def)
qed

lemma PointGet_disk:
  assumes "disk_ok env D s cache" "stored D idx r" "prefetcher_ok env D s (bi_file_number idx) pf"
  shows "\<exists>r' cache'. BlobFilePrefetcher_PointGet (env_libs env) (env_crc env) pf (blob_handle idx) r0 cache = (Inr r', cache') \<and>
    rec_value r' = rec_value r \<and> disk_ok env D s cache'"
proof -
  obtain rs hs c prefix i f where 1: "D (bi_file_number idx) = Some (rs, hs, c, prefix)" "i < length rs" "hs ! i = blob_handle idx" "rs ! i = r"
    "FindFile s (bi_file_number idx) = Some f" "only_value r = keyless s f"
    by (rule stored_file [OF assms(1,2)])
  have 2: "BlobFileReader_Open (env_crc env) prefix (pread c) (word_of_nat (length c)) = Inr (pf_reader pf)" "pf_only_value pf = keyless s f"
    using assms(3) 1 by (auto simp: prefetcher_ok_def)
  let ?r0 = "r0\<lparr>only_value := keyless s f\<rparr>"
  have "only_value ?r0 = only_value (rs ! i)" using 1 by simp
  from Reader_Get_disk [OF assms(1) 1(1) 2(1) 1(2) this] show ?thesis
    using 1 2(2) by (auto simp: BlobFilePrefetcher_PointGet_def)
qed

lemma readahead_keeps: "pf_reader (fst (readahead h pf)) = pf_reader pf" "pf_only_value (fst (readahead h pf)) = pf_only_value pf"
  by (simp_all add: readahead_def Let_def)

lemma Prefetcher_Get_disk:
  assumes "disk_ok env D s cache" "stored D idx r" "prefetcher_ok env D s (bi_file_number idx) pf"
  shows "\<exists>r' cache' pf' io. BlobFilePrefetcher_Get (env_libs env) (env_crc env) pf (blob_handle idx) r0 cache = (Inr r', cache', pf', io) \<and>
    rec_value r' = rec_value r \<and> disk_ok env D s cache' \<and> prefetcher_ok env D s (bi_file_number idx) pf'"
proof -
  obtain pf' io where ra: "readahead (blob_handle idx) pf = (pf', io)" by fastforce
  then have "pf_reader pf' = pf_reader pf" "pf_only_value pf' = pf_only_value pf" using readahead_keeps [of "blob_handle idx" pf] by simp_all
  moreover from this have "prefetcher_ok env D s (bi_file_number idx) pf'" using assms(3) by (simp add: prefetcher_ok_def)
  ultimately show ?thesis
    using PointGet_disk [OF assms(1,2), of pf' r0] ra by (auto simp: BlobFilePrefetcher_Get_def BlobFilePrefetcher_PointGet_def)
qed
section \<open>Values through the iterator\<close>

text \<open>What a value of the LSM tree stands for: itself, or the value of the record its index refers to.\<close>

definition denotes :: "disk \<Rightarrow> bytes \<Rightarrow> bool \<Rightarrow> bytes \<Rightarrow> bool" where
  "denotes D v is_blob w \<longleftrightarrow>
     (if is_blob then \<exists>idx r. DecodeInto BlobIndex_DecodeFrom v = Inr idx \<and> stored D idx r \<and> w = rec_value r else w = v)"

definition di_ok :: "read_env \<Rightarrow> disk \<Rightarrow> blob_cache option \<Rightarrow> 'i TitanDBIterator \<Rightarrow> bool" where
  "di_ok env D cache it \<longleftrightarrow>
     disk_ok env D (di_storage it) cache \<and>
     (\<forall>n pf. map_of (di_files it) n = Some pf \<longrightarrow> prefetcher_ok env D (di_storage it) n pf)"

lemma di_ok_irrelevant [simp]:
  "di_ok env D cache (it\<lparr>di_status := st\<rparr>) = di_ok env D cache it" "di_ok env D cache (it\<lparr>di_iter := i\<rparr>) = di_ok env D cache it"
  "di_ok env D cache (it\<lparr>di_record := r\<rparr>) = di_ok env D cache it"
  by (simp_all add: di_ok_def)

lemma find_prefetcher_disk:
  assumes "di_ok env D cache it" "stored D idx r" "di_status it = OK"
  shows "\<exists>pf it'. find_prefetcher env (bi_file_number idx) it = (Inr pf, it') \<and> di_ok env D cache it' \<and>
    map_of (di_files it') (bi_file_number idx) = Some pf \<and> prefetcher_ok env D (di_storage it') (bi_file_number idx) pf \<and>
    map_of (di_files it) \<subseteq>\<^sub>m map_of (di_files it') \<and> di_iter it' = di_iter it \<and> di_key_only it' = di_key_only it \<and> di_status it' = OK"
proof (cases "map_of (di_files it) (bi_file_number idx)")
  case None
  obtain pf fc where 1: "BlobStorage_NewPrefetcher (env_crc env) (env_open env) (bi_file_number idx) (di_storage it)
      = (Inr pf, (di_storage it)\<lparr>file_cache := fc\<rparr>)" "prefetcher_ok env D (di_storage it) (bi_file_number idx) pf"
    "disk_ok env D ((di_storage it)\<lparr>file_cache := fc\<rparr>) cache"
    using NewPrefetcher_disk [of env D "di_storage it" cache idx r] assms(1,2) by (auto simp: di_ok_def)
  then show ?thesis
    using None assms(1) by (auto simp: find_prefetcher_def di_ok_def map_le_def split: if_splits)
next
  case (Some pf)
  then show ?thesis using assms(1,3) by (simp add: find_prefetcher_def di_ok_def)
qed

lemma GetBlobValue_disk:
  assumes "di_ok env D cache it" "DecodeInto BlobIndex_DecodeFrom (op_value ops (di_iter it)) = Inr idx" "stored D idx r"
  shows "\<exists>cache' it'. GetBlobValue env ops cache it = (cache', it') \<and> di_ok env D cache' it' \<and> di_iter it' = di_iter it \<and>
    di_key_only it' = di_key_only it \<and> di_status it' = OK \<and> rec_value (di_record it') = rec_value r"
proof -
  let ?n = "bi_file_number idx"
  obtain pf it1 where 1: "find_prefetcher env ?n (it\<lparr>di_status := OK\<rparr>) = (Inr pf, it1)" "di_ok env D cache it1"
    "prefetcher_ok env D (di_storage it1) ?n pf" "di_iter it1 = di_iter it" "di_key_only it1 = di_key_only it"
    using find_prefetcher_disk [of env D cache "it\<lparr>di_status := OK\<rparr>" idx r] assms(1,3) by auto
  obtain r' cache' pf' io where 2: "BlobFilePrefetcher_Get (env_libs env) (env_crc env) pf (blob_handle idx) (di_record it1) cache = (Inr r', cache', pf', io)"
    "rec_value r' = rec_value r" "disk_ok env D (di_storage it1) cache'" "prefetcher_ok env D (di_storage it1) ?n pf'"
    using Prefetcher_Get_disk [OF _ assms(3) 1(3), of cache "di_record it1"] 1(2) by (auto simp: di_ok_def)
  have "di_ok env D cache' (it1\<lparr>di_files := AList.update ?n pf' (di_files it1), di_status := OK, di_record := r'\<rparr>)"
    using 1(2) 2(3,4) by (auto simp: di_ok_def AList.update_conv' split: if_splits)
  then show ?thesis
    using assms(2) 1 2(1,2) by (simp add: GetBlobValue_def Let_def)
qed

text \<open>After a movement to a readable entry the iterator shows the value of that entry.\<close>

lemma DbIter_move_value:
  assumes "di_ok env D cache it" "\<not> di_key_only it"
    and i: "op_Valid ops (move (di_iter it))" "op_status ops (move (di_iter it)) = OK"
      "denotes D (op_value ops (move (di_iter it))) (op_IsBlob ops (move (di_iter it))) w"
  shows "\<exists>cache' it'. DbIter_move env ops move cache it = (cache', it') \<and> di_ok env D cache' it' \<and> di_iter it' = move (di_iter it) \<and>
    \<not> di_key_only it' \<and> DbIter_status ops it' = OK \<and> DbIter_value ops it' = w"
proof (cases "op_IsBlob ops (move (di_iter it))")
  case True
  let ?it = "it\<lparr>di_iter := move (di_iter it)\<rparr>"
  obtain idx r where d: "DecodeInto BlobIndex_DecodeFrom (op_value ops (di_iter ?it)) = Inr idx" "stored D idx r" "w = rec_value r"
    using i(3) True by (auto simp: denotes_def)
  have "di_ok env D cache ?it" using assms(1) by simp
  from GetBlobValue_disk [OF this d(1,2)] obtain cache' it' where "GetBlobValue env ops cache ?it = (cache', it')" "di_ok env D cache' it'"
    "di_iter it' = di_iter ?it" "di_key_only it' = di_key_only ?it" "di_status it' = OK" "rec_value (di_record it') = rec_value r"
    by blast
  then show ?thesis
    using True i(1,2) assms(2) d(3) by (simp add: DbIter_move_def ShouldGetBlobValue_def DbIter_status_def DbIter_value_def)
next
  case False
  then show ?thesis
    using assms by (simp add: DbIter_move_def ShouldGetBlobValue_def DbIter_status_def DbIter_value_def denotes_def)
qed

text \<open>
  The entries that RocksDB's iterator offers from its position on: key, the value that is meant,
  and whether it is stored in a blob file.
\<close>

inductive offers :: "'i inner_ops \<Rightarrow> disk \<Rightarrow> 'i \<Rightarrow> (bytes \<times> bytes \<times> bool) list \<Rightarrow> bool" for ops D where
  offers_Nil: "\<not> op_Valid ops i \<Longrightarrow> op_status ops i = OK \<Longrightarrow> offers ops D i []"
| offers_Cons: "op_Valid ops i \<Longrightarrow> op_status ops i = OK \<Longrightarrow> denotes D (op_value ops i) (op_IsBlob ops i) w \<Longrightarrow>
    offers ops D (op_Next ops i) es \<Longrightarrow> offers ops D i ((op_key ops i, w, op_IsBlob ops i) # es)"

inductive_simps offers_Nil_iff: "offers ops D i []"
inductive_simps offers_Cons_iff: "offers ops D i (e # es)"

text \<open>The client's loop over the iterator, for a given number of steps.\<close>

fun iterate_db :: "read_env \<Rightarrow> 'i inner_ops \<Rightarrow> nat \<Rightarrow> blob_cache option \<Rightarrow> 'i TitanDBIterator \<Rightarrow> (bytes \<times> bytes) list" where
  "iterate_db env ops 0 cache it = []"
| "iterate_db env ops (Suc n) cache it =
     (if \<not> DbIter_Valid ops it then []
      else (DbIter_key ops it, DbIter_value ops it)
        # (let (cache, it) = DbIter_Next env ops cache it in iterate_db env ops n cache it))"

lemma iterate_db_offers:
  assumes "offers ops D (di_iter it) es" "di_ok env D cache it" "\<not> di_key_only it"
    and "es \<noteq> [] \<Longrightarrow> DbIter_value ops it = fst (snd (hd es))"
  shows "iterate_db env ops n cache it = map (\<lambda>(k, w, _). (k, w)) (take n es)"
  using assms
proof (induction n arbitrary: cache it es)
  case (Suc n)
  show ?case
  proof (cases es)
    case Nil
    then show ?thesis using Suc.prems(1) by (simp add: offers_Nil_iff DbIter_Valid_def)
  next
    case (Cons e es')
    obtain k w b where e: "e = (k, w, b)" by (cases e)
    have o: "op_Valid ops (di_iter it)" "op_key ops (di_iter it) = k" "offers ops D (op_Next ops (di_iter it)) es'"
      using Suc.prems(1) by (auto simp: Cons e offers_Cons_iff)
    obtain cache' it' where s: "DbIter_Next env ops cache it = (cache', it')" "di_ok env D cache' it'" "di_iter it' = op_Next ops (di_iter it)"
      "\<not> di_key_only it'" "es' \<noteq> [] \<Longrightarrow> DbIter_value ops it' = fst (snd (hd es'))"
    proof (cases es')
      case Nil
      then have "\<not> op_Valid ops (op_Next ops (di_iter it))" using o(3) by (simp add: offers_Nil_iff)
      then show ?thesis
        using that [of cache "it\<lparr>di_iter := op_Next ops (di_iter it), di_status := op_status ops (op_Next ops (di_iter it))\<rparr>"] Suc.prems(2,3) Nil
        by (simp add: DbIter_Next_def DbIter_move_def ShouldGetBlobValue_def)
    next
      case c: (Cons e' es'')
      obtain k' w' b' where e': "e' = (k', w', b')" by (cases e')
      have "op_Valid ops (op_Next ops (di_iter it))" "op_status ops (op_Next ops (di_iter it)) = OK"
        "denotes D (op_value ops (op_Next ops (di_iter it))) (op_IsBlob ops (op_Next ops (di_iter it))) w'"
        using o(3) by (auto simp: c e' offers_Cons_iff)
      from DbIter_move_value [OF Suc.prems(2,3), where move = "op_Next ops", OF this] show ?thesis
        using that by (auto simp: DbIter_Next_def c e')
    qed
    have "iterate_db env ops n cache' it' = map (\<lambda>(k, w, _). (k, w)) (take n es')"
      using s o(3) by (intro Suc.IH) simp_all
    then show ?thesis using o s(1) Suc.prems(4) by (simp add: DbIter_Valid_def DbIter_key_def Cons e)
  qed
qed simp
section \<open>Scans read the same values\<close>

text \<open>What the first loop leaves at a position for the second one.\<close>

definition collected :: "disk \<Rightarrow> (u64 \<times> BlobFilePrefetcher) list \<Rightarrow> bytes \<times> bytes \<times> bool \<Rightarrow> bytes \<Rightarrow> bytes \<Rightarrow> BlobIndex \<Rightarrow> bool" where
  "collected D fs e k v idx \<longleftrightarrow>
     k = fst e \<and>
     (if snd (snd e) then v = [] \<and> bi_file_number idx \<in> dom (map_of fs) \<and> (\<exists>r. stored D idx r \<and> fst (snd e) = rec_value r)
      else v = fst (snd e))"

lemma collected_mono: "collected D fs e k v idx \<Longrightarrow> map_of fs \<subseteq>\<^sub>m map_of fs' \<Longrightarrow> collected D fs' e k v idx"
  by (force simp: collected_def map_le_def dom_def)

lemma scan_collect_offers:
  assumes "offers ops D (di_iter it) es" "di_ok env D cache it" "\<not> di_key_only it"
    and "i + n \<le> length ks" "i + n \<le> length vs" "i + n \<le> length idxs" "\<forall>j. i \<le> j \<and> j < i + n \<longrightarrow> vs ! j = []"
  shows "\<exists>it' ks' vs' idxs'. scan_collect env ops n i it ks vs idxs = (Some (i + min n (length es)), it', ks', vs', idxs') \<and>
    di_ok env D cache it' \<and> map_of (di_files it) \<subseteq>\<^sub>m map_of (di_files it') \<and>
    length ks' = length ks \<and> length vs' = length vs \<and> length idxs' = length idxs \<and>
    (\<forall>j < i. ks' ! j = ks ! j \<and> vs' ! j = vs ! j \<and> idxs' ! j = idxs ! j) \<and>
    (\<forall>j < min n (length es). collected D (di_files it') (es ! j) (ks' ! (i + j)) (vs' ! (i + j)) (idxs' ! (i + j)))"
  using assms
proof (induction n arbitrary: i it ks vs idxs es)
  case (Suc n)
  show ?case
  proof (cases es)
    case Nil
    then have "\<not> op_Valid ops (di_iter it)" using Suc.prems(1) by (simp add: offers_Nil_iff)
    then show ?thesis using Suc.prems(2) by (simp add: DbIter_Valid_def Nil)
  next
    case (Cons e es')
    obtain k w b where e: "e = (k, w, b)" by (cases e)
    let ?i = "di_iter it"
    have o: "op_Valid ops ?i" "op_status ops ?i = OK" "op_key ops ?i = k" "op_IsBlob ops ?i = b"
      "denotes D (op_value ops ?i) b w" "offers ops D (op_Next ops ?i) es'"
      using Suc.prems(1) by (auto simp: Cons e offers_Cons_iff)
    obtain it1 vs1 idxs1 where 1: "scan_collect env ops (Suc n) i it ks vs idxs =
        scan_collect env ops n (Suc i) (it1\<lparr>di_iter := op_Next ops ?i\<rparr>) (ks[i := k]) vs1 idxs1"
      "di_ok env D cache it1" "\<not> di_key_only it1" "map_of (di_files it) \<subseteq>\<^sub>m map_of (di_files it1)"
      "length vs1 = length vs" "length idxs1 = length idxs" "\<forall>j. j \<noteq> i \<longrightarrow> vs1 ! j = vs ! j \<and> idxs1 ! j = idxs ! j"
      "collected D (di_files it1) e k (vs1 ! i) (idxs1 ! i)"
    proof (cases b)
      case True
      obtain idx r where d: "DecodeInto BlobIndex_DecodeFrom (op_value ops ?i) = Inr idx" "stored D idx r" "w = rec_value r"
        using o(5) True by (auto simp: denotes_def)
      obtain pf it1 where f: "find_prefetcher env (bi_file_number idx) (it\<lparr>di_status := OK\<rparr>) = (Inr pf, it1)" "di_ok env D cache it1"
        "map_of (di_files it1) (bi_file_number idx) = Some pf" "map_of (di_files it) \<subseteq>\<^sub>m map_of (di_files it1)"
        "di_iter it1 = di_iter it" "di_key_only it1 = di_key_only it"
        using find_prefetcher_disk [of env D cache "it\<lparr>di_status := OK\<rparr>" idx r] Suc.prems(2) d(2) by auto
      show ?thesis
        by (rule that [of it1 vs "idxs[i := idx]"])
          (use Suc.prems o True d f in \<open>auto simp: DbIter_Valid_def ShouldGetBlobValue_def collected_def e\<close>)
    next
      case False
      show ?thesis
        by (rule that [of "it\<lparr>di_status := OK\<rparr>" "vs[i := w]" idxs])
          (use Suc.prems o False in \<open>auto simp: DbIter_Valid_def ShouldGetBlobValue_def collected_def denotes_def e\<close>)
    qed
    obtain it' ks' vs' idxs' where 2: "scan_collect env ops n (Suc i) (it1\<lparr>di_iter := op_Next ops ?i\<rparr>) (ks[i := k]) vs1 idxs1 =
        (Some (Suc i + min n (length es')), it', ks', vs', idxs')"
      "di_ok env D cache it'" "map_of (di_files it1) \<subseteq>\<^sub>m map_of (di_files it')"
      "length ks' = length ks" "length vs' = length vs" "length idxs' = length idxs"
      "\<forall>j < Suc i. ks' ! j = ks[i := k] ! j \<and> vs' ! j = vs1 ! j \<and> idxs' ! j = idxs1 ! j"
      "\<forall>j < min n (length es'). collected D (di_files it') (es' ! j) (ks' ! (Suc i + j)) (vs' ! (Suc i + j)) (idxs' ! (Suc i + j))"
      using Suc.IH [of "it1\<lparr>di_iter := op_Next ops ?i\<rparr>" es' "Suc i" "ks[i := k]" vs1 idxs1] Suc.prems(4-7) o(6) 1(2,3,5-7) by auto
    have "map_of (di_files it) \<subseteq>\<^sub>m map_of (di_files it')" using 1(4) 2(3) by (rule map_le_trans)
    moreover have "collected D (di_files it') (es ! j) (ks' ! (i + j)) (vs' ! (i + j)) (idxs' ! (i + j))" if "j < min (Suc n) (length es)" for j
    proof (cases j)
      case 0
      then show ?thesis using collected_mono [OF 1(8) 2(3)] 2(7) Suc.prems(4) by (simp add: Cons e)
    next
      case (Suc j')
      then show ?thesis using 2(8) that by (simp add: Cons)
    qed
    ultimately show ?thesis using 1(1,7) 2 by (simp add: Cons)
  qed
qed simp

lemma scan_fetch_collected:
  assumes "disk_ok env D s cache" "\<forall>n pf. map_of fs n = Some pf \<longrightarrow> prefetcher_ok env D s n pf"
    and "distinct js" "\<forall>j \<in> set js. j < length vs \<and> collected D fs (es ! j) (ks ! j) (vs ! j) (idxs ! j) \<and> (snd (snd (es ! j)) \<or> fst (snd (es ! j)) \<noteq> [])"
  shows "\<exists>vs' cache'. scan_fetch env fs js rec vs idxs cache = (OK, vs', cache') \<and> length vs' = length vs \<and>
    (\<forall>j. j \<notin> set js \<longrightarrow> vs' ! j = vs ! j) \<and> (\<forall>j \<in> set js. vs' ! j = fst (snd (es ! j)))"
  using assms
proof (induction js arbitrary: rec vs cache)
  case (Cons j js)
  have j: "j < length vs" "collected D fs (es ! j) (ks ! j) (vs ! j) (idxs ! j)" "snd (snd (es ! j)) \<or> fst (snd (es ! j)) \<noteq> []"
    using Cons.prems(4) by simp_all
  show ?case
  proof (cases "snd (snd (es ! j))")
    case True
    obtain pf r where p: "map_of fs (bi_file_number (idxs ! j)) = Some pf" "stored D (idxs ! j) r" "fst (snd (es ! j)) = rec_value r" "vs ! j = []"
      using j(2) True by (auto simp: collected_def)
    then have "prefetcher_ok env D s (bi_file_number (idxs ! j)) pf" using Cons.prems(2) by blast
    from PointGet_disk [OF Cons.prems(1) p(2) this] obtain r' cache' where
      g: "BlobFilePrefetcher_PointGet (env_libs env) (env_crc env) pf (blob_handle (idxs ! j)) rec cache = (Inr r', cache')"
        "rec_value r' = rec_value r" "disk_ok env D s cache'"
      by blast
    have "\<forall>j' \<in> set js. j' < length (vs[j := rec_value r']) \<and> collected D fs (es ! j') (ks ! j') (vs[j := rec_value r'] ! j') (idxs ! j') \<and>
        (snd (snd (es ! j')) \<or> fst (snd (es ! j')) \<noteq> [])"
      using Cons.prems(3,4) by (auto simp: nth_list_update)
    from Cons.IH [OF g(3) Cons.prems(2) _ this, of r'] Cons.prems(3) obtain vs' cache'' where
      "scan_fetch env fs js r' (vs[j := rec_value r']) idxs cache' = (OK, vs', cache'')" "length vs' = length vs"
      "\<forall>k. k \<notin> set js \<longrightarrow> vs' ! k = vs[j := rec_value r'] ! k" "\<forall>k \<in> set js. vs' ! k = fst (snd (es ! k))"
      by auto
    then show ?thesis using p g(1,2) j(1) Cons.prems(3) by (auto simp: nth_list_update)
  next
    case False
    then have "vs ! j = fst (snd (es ! j))" "vs ! j \<noteq> []" using j(2,3) by (auto simp: collected_def)
    then show ?thesis using Cons.IH [OF Cons.prems(1,2), of vs rec] Cons.prems(3,4) by auto
  qed
qed simp
section \<open>Properties\<close>

lemma GetImpl_value:
  assumes "base_get cf key = Inr (v, b)" "denotes D v b w" "GetBlobStorage fs cf = Some s" "disk_ok env D s cache"
  shows "\<exists>cache' fs' s'. GetImpl env base_get cf key cache fs = (Inr w, cache', fs') \<and> GetBlobStorage fs' cf = Some s' \<and>
    disk_ok env D s' cache' \<and> files s' = files s"
proof (cases b)
  case True
  obtain idx r where d: "DecodeInto BlobIndex_DecodeFrom v = Inr idx" "stored D idx r" "w = rec_value r"
    using assms(2) True by (auto simp: denotes_def)
  obtain rest where i: "BlobIndex_DecodeFrom v = Inr (idx, rest)"
    using d(1) by (auto simp: DecodeInto_def split: sum.splits if_splits)
  obtain r' cache' fc where g: "BlobStorage_Get (env_libs env) (env_crc env) (env_open env) (env_building env) idx new_BlobRecord cache s
     = (Inr r', cache', s\<lparr>file_cache := fc\<rparr>)" "rec_value r' = rec_value r" "disk_ok env D (s\<lparr>file_cache := fc\<rparr>) cache'"
    using BlobStorage_Get_disk [OF assms(4) d(2)] by blast
  then show ?thesis
    using assms(1,3) True i d(3) by (simp add: GetImpl_def GetBlobStorage_def AList.update_conv')
next
  case False
  then show ?thesis using assms by (simp add: GetImpl_def denotes_def)
qed

text \<open>
  C4. A read returns the value that was written: for keys whose entry in the LSM tree is an inline
  value or the blob index of a record of a live blob file, \<^verbatim>\<open>Get\<close> and \<^verbatim>\<open>MultiGet\<close> return the value
  of the key, whatever the caches hold and whether or not the file stores keys, and leave the
  blob files as they are.
\<close>

theorem get_returns_value:
  assumes "GetBlobStorage fs cf = Some s" "disk_ok env D s cache"
    and "\<forall>(key, w) \<in> set kws. \<exists>v b. base_get cf key = Inr (v, b) \<and> denotes D v b w"
  shows "\<exists>cache' fs' s'. MultiGetImpl env base_get (map (\<lambda>(key, w). (cf, key)) kws) cache fs = (map (\<lambda>(key, w). Inr w) kws, cache', fs') \<and>
    GetBlobStorage fs' cf = Some s' \<and> disk_ok env D s' cache' \<and> files s' = files s"
  using assms
proof (induction kws arbitrary: cache fs s)
  case (Cons kw kws)
  obtain key w where kw: "kw = (key, w)" by fastforce
  obtain v b where "base_get cf key = Inr (v, b)" "denotes D v b w" using Cons.prems(3) kw by auto
  from GetImpl_value [of base_get cf key v b D w, OF this Cons.prems(1,2)] obtain cache1 fs1 s1 where
    1: "GetImpl env base_get cf key cache fs = (Inr w, cache1, fs1)" "GetBlobStorage fs1 cf = Some s1" "disk_ok env D s1 cache1" "files s1 = files s"
    by blast
  obtain cache' fs' s' where "MultiGetImpl env base_get (map (\<lambda>(key, w). (cf, key)) kws) cache1 fs1 = (map (\<lambda>(key, w). Inr w) kws, cache', fs')"
    "GetBlobStorage fs' cf = Some s'" "disk_ok env D s' cache'" "files s' = files s1"
    using Cons.IH [OF 1(2,3)] Cons.prems(3) by auto
  then show ?case using 1 by (simp add: kw)
qed simp

text \<open>
  C39. An empty value that is stored inline makes a scan leave the defined behaviour of the program:
  the scan takes it for a value that is still to be fetched and looks up a prefetcher that does
  not exist.
\<close>

theorem scan_empty_inline_value:
  assumes "offers ops D (op_Seek ops start i) [(k, [], False)]" "0 < len"
  shows "fst (TitanDB_Scan env ops start len [] [] cache s i) = Undefined"
proof -
  obtain n where n: "len = Suc n" using assms(2) by (cases len) auto
  let ?i = "op_Seek ops start i"
  have o: "op_Valid ops ?i" "\<not> op_IsBlob ops ?i" "op_value ops ?i = []" "\<not> op_Valid ops (op_Next ops ?i)"
    using assms(1) by (auto simp: offers_Cons_iff offers_Nil_iff denotes_def)
  have stop: "scan_collect env ops m (Suc 0) it ks vs idxs = (Some (Suc 0), it, ks, vs, idxs)" if "\<not> op_Valid ops (di_iter it)" for m it ks vs idxs
    using that by (cases m) (simp_all add: DbIter_Valid_def)
  have "grow len [] = replicate len []" by (simp add: grow_def)
  then show ?thesis
    using o by (simp add: n TitanDB_Scan_def DbIter_Scan_def new_TitanDBIterator_def DbIter_Valid_def ShouldGetBlobValue_def stop)
qed

section \<open>Witnesses\<close>

definition w_env :: read_env where
  "w_env = \<lparr>env_libs = zero_libs, env_crc = \<lambda>a _. a,
     env_open = \<lambda>n. if n = 5 then Inr (pread (bb_file w_finished), [1]) else Inl IOError, env_building = \<lambda>_ _ _. Inl IOError\<rparr>"

definition w_disk :: disk where
  "w_disk = [5 \<mapsto> (w_records, fst w_built, bb_file w_finished, [1])]"

definition w_read_storage :: BlobStorage where
  "w_read_storage = (new_BlobStorage default_TitanDBOptions w_blob_cf 0 None)
     \<lparr>files := [(5, new_BlobFileMeta\<lparr>file_number := 5, file_size := 67\<rparr>)]\<rparr>"

definition w_index :: bytes where
  "w_index = BlobIndex_EncodeTo \<lparr>bi_file_number = 5, blob_handle = fst w_built ! 0\<rparr> []"

text \<open>An iterator over a list of entries.\<close>

definition w_ops :: "(bytes \<times> bytes \<times> bool) list inner_ops" where
  "w_ops = \<lparr>op_Valid = \<lambda>i. i \<noteq> [], op_IsBlob = \<lambda>i. snd (snd (hd i)), op_key = \<lambda>i. fst (hd i), op_value = \<lambda>i. fst (snd (hd i)),
     op_status = \<lambda>_. OK, op_SeekToFirst = id, op_SeekToLast = id, op_Seek = \<lambda>_. id, op_SeekForPrev = \<lambda>_. id, op_Next = tl, op_Prev = id\<rparr>"

lemma w_disk_ok: "disk_ok w_env w_disk w_read_storage None"
proof -
  have "file_ok w_env w_read_storage 5 (w_records, fst w_built, bb_file w_finished, [1])"
    using w_built_from w_finished_length
    by (auto simp: file_ok_def w_env_def w_read_storage_def FindFile_def new_BlobFileMeta_def keyless_def w_records_def new_BlobStorage_def)
  then show ?thesis
    using zero_libs_ok by (auto simp: disk_ok_def prefixes_apart_def caches_ok_def cache_ok_def w_disk_def w_env_def split: if_splits)
qed

lemma w_index_denotes: "denotes w_disk w_index True [7, 8]"
proof -
  have "stored w_disk \<lparr>bi_file_number = 5, blob_handle = fst w_built ! 0\<rparr> (w_records ! 0)"
    by (auto simp: stored_def w_disk_def w_records_def intro!: exI [of _ 0])
  moreover have "DecodeInto BlobIndex_DecodeFrom w_index = Inr \<lparr>bi_file_number = 5, blob_handle = fst w_built ! 0\<rparr>"
    using BlobIndex_Decode_Encode [of _ "[]"] by (simp add: DecodeInto_def w_index_def)
  ultimately show ?thesis by (auto simp: denotes_def w_records_def)
qed

theorem get_returns_value_witness:
  "\<exists>cache fs. MultiGetImpl w_env (\<lambda>_ key. Inr (w_index, True)) [(0, [2])] None
     ((new_BlobFileSet default_TitanDBOptions)\<lparr>column_families := [(0, w_read_storage)]\<rparr>) = ([Inr [7, 8]], cache, fs)"
  using get_returns_value [of "(new_BlobFileSet default_TitanDBOptions)\<lparr>column_families := [(0, w_read_storage)]\<rparr>" 0 w_read_storage
      w_env w_disk None "[([2], [7, 8])]" "\<lambda>_ key. Inr (w_index, True)"]
    w_disk_ok w_index_denotes by (auto simp: GetBlobStorage_def)

definition w_es :: "(bytes \<times> bytes \<times> bool) list" where
  "w_es = [([2], [7, 8], True), ([3], [9], False)]"

lemma w_offers: "offers w_ops w_disk [([2], w_index, True), ([3], [9], False)] w_es"
  using w_index_denotes by (auto simp: w_es_def offers_Cons_iff offers_Nil_iff w_ops_def denotes_def)


theorem scan_empty_inline_value_witness:
  "fst (TitanDB_Scan w_env w_ops [2] 10 [] [] None w_read_storage [([2], [], False)]) = Undefined"
proof -
  have "offers w_ops w_disk (op_Seek w_ops [2] [([2], [], False)]) [([2], [], False)]"
    by (auto simp: offers_Cons_iff offers_Nil_iff w_ops_def denotes_def)
  from scan_empty_inline_value [OF this, of 10 w_env None w_read_storage] show ?thesis by simp
qed

end
