(* ===== verification/Size_Collector.thy ===== *)
theory Size_Collector
  imports Titan_Options
begin

text \<open>
  \<^verbatim>\<open>BlobFileSizeCollector\<close> (\<^verbatim>\<open>blob_file_size_collector.h/.cc\<close>): the table properties collector that
  sums up, for every blob file, the sizes of the records an SST file refers to. The sums are what
  the discardable-size accounting of flush and compaction starts from. \<^verbatim>\<open>std::map\<close> is an
  association list in ascending order of the keys.
\<close>

type_synonym file_sizes = "(u64 \<times> u64) list"

datatype EntryType =
    kEntryPut
  | kEntryDelete
  | kEntrySingleDelete
  | kEntryMerge
  | kEntryRangeDeletion
  | kEntryBlobIndex
  | kEntryOther

text \<open>\<^verbatim>\<open>operator[]\<close> assignment of \<^verbatim>\<open>std::map\<close>.\<close>

fun map_put :: "u64 \<Rightarrow> u64 \<Rightarrow> file_sizes \<Rightarrow> file_sizes" where
  "map_put k v [] = [(k, v)]"
| "map_put k v ((k', v') # m) =
     (if k < k' then (k, v) # (k', v') # m else if k = k' then (k, v) # m else (k', v') # map_put k v m)"

definition SizeCollector_Encode :: "file_sizes \<Rightarrow> bytes \<Rightarrow> bytes" where
  "SizeCollector_Encode sizes result =
     foldl (\<lambda>result (n, sz). PutVarint64 (PutVarint64 result n) sz)
       (PutVarint32 result (word_of_nat (length sizes))) sizes"

text \<open>A decoding that fails keeps the entries decoded so far.\<close>

fun decode_sizes :: "nat \<Rightarrow> bytes \<Rightarrow> file_sizes \<Rightarrow> bool \<times> file_sizes" where
  "decode_sizes 0 src m = (True, m)"
| "decode_sizes (Suc n) src m =
     (case GetVarint64 src of
        None \<Rightarrow> (False, m)
      | Some (file_number, src) \<Rightarrow>
          (case GetVarint64 src of
             None \<Rightarrow> (False, m)
           | Some (sz, src) \<Rightarrow> decode_sizes n src (map_put file_number sz m)))"

definition SizeCollector_Decode :: "bytes \<Rightarrow> file_sizes \<Rightarrow> bool \<times> file_sizes" where
  "SizeCollector_Decode src m =
     (case GetVarint32 src of
        None \<Rightarrow> (False, m)
      | Some (num, src) \<Rightarrow> decode_sizes (unat num) src m)"

definition AddUserKey :: "bytes \<Rightarrow> EntryType \<Rightarrow> file_sizes \<Rightarrow> Status \<times> file_sizes" where
  "AddUserKey val type m =
     (if type \<noteq> kEntryBlobIndex then (OK, m)
      else
        (case BlobIndex_DecodeFrom val of
           Inl s \<Rightarrow> (s, m)
         | Inr (idx, _) \<Rightarrow>
             (OK, case map_of m (bi_file_number idx) of
                    None \<Rightarrow> map_put (bi_file_number idx) (bh_size (blob_handle idx)) m
                  | Some sz \<Rightarrow> map_put (bi_file_number idx) (sz + bh_size (blob_handle idx)) m)))"

abbreviation (input) kPropertiesName :: string where "kPropertiesName \<equiv> ''TitanDB.blob_discardable_size''"

definition SizeCollector_Finish :: "file_sizes \<Rightarrow> (string \<times> bytes) list \<Rightarrow> (string \<times> bytes) list" where
  "SizeCollector_Finish m properties =
     (if m = [] then properties else emplace kPropertiesName (SizeCollector_Encode m []) properties)"

section \<open>The map\<close>

abbreviation (input) ordered :: "file_sizes \<Rightarrow> bool" where
  "ordered m \<equiv> sorted_wrt (<) (map fst m)"

lemma set_map_put: "fst ` set (map_put k v m) = insert k (fst ` set m)"
  by (induction k v m rule: map_put.induct) auto

lemma ordered_map_put: "ordered m \<Longrightarrow> ordered (map_put k v m)"
proof (induction k v m rule: map_put.induct)
  case (2 k v k' v' m)
  have "\<forall>x \<in> set (map fst (map_put k v m)). k' < x" if "k' < k"
    using 2(2) that set_map_put [of k v m] by auto
  then show ?case using 2 by auto
qed simp

lemma map_of_map_put: "ordered m \<Longrightarrow> map_of (map_put k v m) = (map_of m)(k \<mapsto> v)"
proof (induction k v m rule: map_put.induct)
  case (2 k v k' v' m)
  then show ?case by (auto simp: fun_eq_iff)
qed simp

lemma map_put_last: "ordered (m @ [(k, v)]) \<Longrightarrow> map_put k v m = m @ [(k, v)]"
  by (induction m) (auto simp: not_less_iff_gr_or_eq)

section \<open>Encoding and decoding\<close>

lemma SizeCollector_Encode_eq:
  "SizeCollector_Encode m dst = dst @ EncodeVarint32 (word_of_nat (length m)) @
     concat (map (\<lambda>(n, sz). EncodeVarint64 n @ EncodeVarint64 sz) m)"
proof -
  have "foldl (\<lambda>result (n, sz). PutVarint64 (PutVarint64 result n) sz) dst m
      = dst @ concat (map (\<lambda>(n, sz). EncodeVarint64 n @ EncodeVarint64 sz) m)" for dst
    by (induction m arbitrary: dst) (auto simp: put_append)
  then show ?thesis by (simp add: SizeCollector_Encode_def put_append)
qed

lemma decode_sizes_encoded:
  "ordered (m0 @ m) \<Longrightarrow> decode_sizes (length m) (concat (map (\<lambda>(n, sz). EncodeVarint64 n @ EncodeVarint64 sz) m) @ rest) m0
     = (True, m0 @ m)"
proof (induction m arbitrary: m0)
  case (Cons x m)
  obtain n sz where x: "x = (n, sz)" by fastforce
  have "ordered (m0 @ [(n, sz)])" using Cons.prems by (simp add: x sorted_wrt_append)
  then have "map_put n sz m0 = m0 @ [(n, sz)]" by (rule map_put_last)
  moreover have "ordered ((m0 @ [(n, sz)]) @ m)" using Cons.prems by (simp add: x)
  ultimately show ?case using Cons.IH [of "m0 @ [(n, sz)]"] by (simp add: x varint64.get_put)
qed simp

lemma SizeCollector_Decode_Encode:
  assumes "ordered m" "length m < 2 ^ 32"
  shows "SizeCollector_Decode (SizeCollector_Encode m [] @ rest) [] = (True, m)"
proof -
  have "unat (word_of_nat (length m) :: u32) = length m" using assms(2) by (simp add: unat_of_nat take_bit_nat_eq_self)
  then show ?thesis
    using decode_sizes_encoded [of "[]" m rest] assms(1)
    by (simp add: SizeCollector_Decode_def SizeCollector_Encode_eq varint32.get_put)
qed

text \<open>The entries of a table, in order; a failed entry leaves the sums as they are.\<close>

definition collect_keys :: "(bytes \<times> EntryType) list \<Rightarrow> file_sizes \<Rightarrow> file_sizes" where
  "collect_keys es m = foldl (\<lambda>m (v, t). snd (AddUserKey v t m)) m es"

definition referred :: "(bytes \<times> EntryType) list \<Rightarrow> BlobIndex list" where
  "referred es = List.map_filter (\<lambda>(v, t). if t = kEntryBlobIndex then map_option fst (opt_of (BlobIndex_DecodeFrom v)) else None) es"

definition size_in :: "u64 \<Rightarrow> BlobIndex list \<Rightarrow> u64" where
  "size_in n is = sum_list (map (\<lambda>i. bh_size (blob_handle i)) (filter (\<lambda>i. bi_file_number i = n) is))"

lemma collect_keys_ordered: "ordered m \<Longrightarrow> ordered (collect_keys es m)"
proof (induction es arbitrary: m)
  case (Cons e es)
  obtain v t where e: "e = (v, t)" by fastforce
  have "ordered (snd (AddUserKey v t m))"
    using Cons.prems by (auto simp: AddUserKey_def intro!: ordered_map_put split: sum.split option.split)
  then show ?case using Cons.IH by (simp add: collect_keys_def e)
qed (simp add: collect_keys_def)

lemma referred_Cons:
  "referred ((v, t) # es) =
     (case (if t = kEntryBlobIndex then opt_of (BlobIndex_DecodeFrom v) else None) of
        None \<Rightarrow> referred es | Some (i, _) \<Rightarrow> i # referred es)"
  by (auto simp: referred_def List.map_filter_simps split: option.split)

text \<open>The sum under a file number after more entries.\<close>

definition plus_size :: "BlobIndex list \<Rightarrow> u64 \<Rightarrow> u64 option \<Rightarrow> u64 option" where
  "plus_size is n old =
     (if n \<in> bi_file_number ` set is then Some (size_in n is + (case old of None \<Rightarrow> 0 | Some sz \<Rightarrow> sz)) else old)"

lemma size_in_absent: "n \<notin> bi_file_number ` set is \<Longrightarrow> size_in n is = 0"
  by (induction "is") (auto simp: size_in_def)

lemma plus_size_append: "plus_size (as @ bs) n old = plus_size bs n (plus_size as n old)"
proof -
  have "size_in n (as @ bs) = size_in n as + size_in n bs" by (simp add: size_in_def)
  then show ?thesis
    using size_in_absent [of n as] size_in_absent [of n bs]
    by (simp add: plus_size_def image_Un add.commute add.left_commute split: option.split)
qed

lemma AddUserKey_map:
  "ordered m \<Longrightarrow> map_of (snd (AddUserKey v t m)) n = plus_size (referred [(v, t)]) n (map_of m n)"
  by (auto simp: AddUserKey_def plus_size_def referred_Cons size_in_def map_of_map_put referred_def List.map_filter_simps
    split: sum.splits option.splits)

lemma collect_keys_map: "ordered m \<Longrightarrow> map_of (collect_keys es m) n = plus_size (referred es) n (map_of m n)"
proof (induction es arbitrary: m)
  case (Cons e es)
  obtain v t where e: "e = (v, t)" by fastforce
  have "ordered (snd (AddUserKey v t m))" using collect_keys_ordered [OF Cons.prems, of "[(v, t)]"] by (simp add: collect_keys_def)
  from Cons.IH [OF this] have "map_of (collect_keys (e # es) m) n = plus_size (referred es) n (plus_size (referred [(v, t)]) n (map_of m n))"
    by (simp add: collect_keys_def e AddUserKey_map [OF Cons.prems])
  moreover have "referred (e # es) = referred [(v, t)] @ referred es"
    by (simp add: e referred_def List.map_filter_def)
  ultimately show ?case by (simp only: plus_size_append)
qed (simp add: collect_keys_def plus_size_def referred_def List.map_filter_simps)

section \<open>Properties\<close>

text \<open>
  C18. The table property that the collector leaves behind decodes to one entry for every blob
  file that the table refers to, with the sum of the sizes of the records referred to (modulo
  the width of the counter); a table without blob indexes has no property.
\<close>

theorem size_collector_sums:
  assumes "length (collect_keys es []) < 2 ^ 32"
  defines "props \<equiv> SizeCollector_Finish (collect_keys es []) []"
  shows "(referred es = [] \<longrightarrow> props = []) \<and>
    (referred es \<noteq> [] \<longrightarrow> (\<exists>v m. props = [(kPropertiesName, v)] \<and> SizeCollector_Decode v [] = (True, m) \<and>
       (\<forall>n. map_of m n = (if n \<in> bi_file_number ` set (referred es) then Some (size_in n (referred es)) else None))))"
proof (intro conjI impI)
  let ?m = "collect_keys es []"
  have sums: "map_of ?m n = (if n \<in> bi_file_number ` set (referred es) then Some (size_in n (referred es)) else None)" for n
    using collect_keys_map [of "[]" es n] by (simp add: plus_size_def)
  show "props = []" if "referred es = []"
  proof -
    have "map_of ?m = Map.empty" using sums that by (simp add: fun_eq_iff)
    then have "?m = []" by (simp add: map_of_eq_empty_iff)
    then show ?thesis by (simp add: props_def SizeCollector_Finish_def)
  qed
  assume "referred es \<noteq> []"
  then obtain i where "i \<in> set (referred es)" by (cases "referred es") auto
  then have "?m \<noteq> []" using sums [of "bi_file_number i"] by auto
  then have "props = [(kPropertiesName, SizeCollector_Encode ?m [])]"
    by (simp add: props_def SizeCollector_Finish_def emplace_def)
  moreover have "SizeCollector_Decode (SizeCollector_Encode ?m []) [] = (True, ?m)"
    using SizeCollector_Decode_Encode [OF _ assms(1), of "[]"] collect_keys_ordered [of "[]" es] by simp
  ultimately show "\<exists>v m. props = [(kPropertiesName, v)] \<and> SizeCollector_Decode v [] = (True, m) \<and>
       (\<forall>n. map_of m n = (if n \<in> bi_file_number ` set (referred es) then Some (size_in n (referred es)) else None))"
    using sums by blast
qed

definition w_entries :: "(bytes \<times> EntryType) list" where
  "w_entries = map (\<lambda>(n, sz). (BlobIndex_EncodeTo \<lparr>bi_file_number = n, blob_handle = \<lparr>bh_offset = 8, bh_size = sz\<rparr>\<rparr> [], kEntryBlobIndex))
     [(5, 20), (3, 7), (5, 1)] @ [([1, 2], kEntryPut)]"

lemma w_entries_collected: "collect_keys w_entries [] = [(3, 7), (5, 21)]"
  by code_simp

theorem size_collector_sums_witness:
  "\<exists>v m. SizeCollector_Finish (collect_keys w_entries []) [] = [(kPropertiesName, v)] \<and> SizeCollector_Decode v [] = (True, m) \<and>
     map_of m 5 = Some (size_in 5 (referred w_entries))"
proof -
  have "map bi_file_number (referred w_entries) = [5, 3, 5]" by code_simp
  then have "referred w_entries \<noteq> []" "5 \<in> bi_file_number ` set (referred w_entries)"
    by (auto simp flip: set_map)
  moreover have "length (collect_keys w_entries []) < 2 ^ 32" by (simp add: w_entries_collected)
  ultimately show ?thesis using size_collector_sums [of w_entries] by metis
qed

end
