(* ===== verification/Internal_Key.thy ===== *)
theory Internal_Key
  imports Size_Collector
begin

unbundle bit_operations_syntax

text \<open>
  The internal keys of RocksDB (\<^verbatim>\<open>db/dbformat.h\<close>, \<^verbatim>\<open>db/dbformat.cc\<close>) that the table builder takes apart
  and puts together: a user key, followed by eight bytes with sequence number and value type.
  A \<^verbatim>\<open>ValueType\<close> is an unsigned char, also one that names no enumerator.
\<close>

type_synonym ValueType = u8

abbreviation (input) kTypeDeletion :: ValueType where "kTypeDeletion \<equiv> 0"
abbreviation (input) kTypeValue :: ValueType where "kTypeValue \<equiv> 1"
abbreviation (input) kTypeMerge :: ValueType where "kTypeMerge \<equiv> 2"
abbreviation (input) kTypeSingleDeletion :: ValueType where "kTypeSingleDeletion \<equiv> 7"
abbreviation (input) kTypeRangeDeletion :: ValueType where "kTypeRangeDeletion \<equiv> 15"
abbreviation (input) kTypeBlobIndex :: ValueType where "kTypeBlobIndex \<equiv> 17"

record ParsedInternalKey =
  user_key :: bytes
  sequence :: u64
  ik_type :: ValueType

definition IsValueType :: "ValueType \<Rightarrow> bool" where
  "IsValueType t \<longleftrightarrow> t \<le> kTypeMerge \<or> t = kTypeSingleDeletion \<or> t = kTypeBlobIndex"

definition IsExtendedValueType :: "ValueType \<Rightarrow> bool" where
  "IsExtendedValueType t \<longleftrightarrow> IsValueType t \<or> t = kTypeRangeDeletion"

definition PackSequenceAndType :: "u64 \<Rightarrow> ValueType \<Rightarrow> u64" where
  "PackSequenceAndType seq t = push_bit 8 seq OR ucast t"

definition UnPackSequenceAndType :: "u64 \<Rightarrow> u64 \<times> ValueType" where
  "UnPackSequenceAndType packed = (drop_bit 8 packed, ucast (packed AND 0xff))"

definition GetEntryType :: "ValueType \<Rightarrow> EntryType" where
  "GetEntryType t =
     (if t = kTypeValue then kEntryPut
      else if t = kTypeDeletion then kEntryDelete
      else if t = kTypeSingleDeletion then kEntrySingleDelete
      else if t = kTypeMerge then kEntryMerge
      else if t = kTypeRangeDeletion then kEntryRangeDeletion
      else if t = kTypeBlobIndex then kEntryBlobIndex
      else kEntryOther)"

definition AppendInternalKey :: "bytes \<Rightarrow> ParsedInternalKey \<Rightarrow> bytes" where
  "AppendInternalKey result key = PutFixed64 (result @ user_key key) (PackSequenceAndType (sequence key) (ik_type key))"

definition AppendInternalKeyFooter :: "bytes \<Rightarrow> u64 \<Rightarrow> ValueType \<Rightarrow> bytes" where
  "AppendInternalKeyFooter result s t = PutFixed64 result (PackSequenceAndType s t)"

definition ParseInternalKey :: "bytes \<Rightarrow> ParsedInternalKey option" where
  "ParseInternalKey k =
     (let n = length k
      in if n < 8 then None
         else
           let num = DecodeFixed64 (drop (n - 8) k);
               c = ucast (num AND 0xff)
           in if IsExtendedValueType c then Some \<lparr>user_key = take (n - 8) k, sequence = drop_bit 8 num, ik_type = c\<rparr> else None)"

definition ExtractUserKey :: "bytes \<Rightarrow> bytes" where
  "ExtractUserKey k = take (length k - 8) k"

definition ExtractInternalKeyFooter :: "bytes \<Rightarrow> u64" where
  "ExtractInternalKeyFooter k = DecodeFixed64 (drop (length k - 8) k)"

definition ExtractValueType :: "bytes \<Rightarrow> ValueType" where
  "ExtractValueType k = ucast (ExtractInternalKeyFooter k AND 0xff)"

definition GetInternalKeySeqno :: "bytes \<Rightarrow> u64" where
  "GetInternalKeySeqno k = drop_bit 8 (DecodeFixed64 (drop (length k - 8) k))"

definition UpdateInternalKey :: "bytes \<Rightarrow> u64 \<Rightarrow> ValueType \<Rightarrow> bytes" where
  "UpdateInternalKey k seq t = take (length k - 8) k @ EncodeFixed64 (push_bit 8 seq OR ucast t)"

section \<open>The order of internal keys\<close>

definition Compare_parsed :: "(bytes \<Rightarrow> bytes \<Rightarrow> int) \<Rightarrow> ParsedInternalKey \<Rightarrow> ParsedInternalKey \<Rightarrow> int" where
  "Compare_parsed cmp a b =
     (let r = cmp (user_key a) (user_key b)
      in if r = 0
         then if sequence a > sequence b then -1
              else if sequence a < sequence b then 1
              else if ik_type a > ik_type b then -1
              else if ik_type a < ik_type b then 1
              else r
         else r)"

definition Compare_encoded :: "(bytes \<Rightarrow> bytes \<Rightarrow> int) \<Rightarrow> bytes \<Rightarrow> bytes \<Rightarrow> int" where
  "Compare_encoded cmp akey bkey =
     (let r = cmp (ExtractUserKey akey) (ExtractUserKey bkey)
      in if r = 0
         then let anum = DecodeFixed64 (drop (length akey - 8) akey);
                  bnum = DecodeFixed64 (drop (length bkey - 8) bkey)
              in if anum > bnum then -1 else if anum < bnum then 1 else r
         else r)"

definition CompareKeySeq :: "(bytes \<Rightarrow> bytes \<Rightarrow> int) \<Rightarrow> bytes \<Rightarrow> bytes \<Rightarrow> int" where
  "CompareKeySeq cmp akey bkey =
     (let r = cmp (ExtractUserKey akey) (ExtractUserKey bkey)
      in if r = 0
         then let anum = drop_bit 8 (DecodeFixed64 (drop (length akey - 8) akey));
                  bnum = drop_bit 8 (DecodeFixed64 (drop (length bkey - 8) bkey))
              in if anum > bnum then -1 else if anum < bnum then 1 else r
         else r)"

section \<open>Round trips\<close>

lemma DecodeFixed64_Encode [simp]: "DecodeFixed64 (EncodeFixed64 v) = v"
  using DecodeFixed64_EncodeFixed64 [of v "[]"] by simp

abbreviation (input) seq_ok :: "u64 \<Rightarrow> bool" where "seq_ok s \<equiv> s < 2 ^ 56"

lemma bit_seq:
  assumes "seq_ok s" "bit s n"
  shows "n < 56"
proof (rule ccontr)
  assume n: "\<not> n < 56"
  have "unat s < 2 ^ 56" using assms(1) by (simp add: word_less_nat_alt)
  also have "\<dots> \<le> 2 ^ n" using n by (intro power_increasing) simp_all
  finally have "\<not> bit (unat s) n" by (simp add: bit_iff_odd)
  then show False using assms(2) bit_imp_le_length [OF assms(2)] by (simp add: bit_unsigned_iff)
qed

lemma low_byte: "unat (ucast (num AND 0xff) :: u8) = unat (num :: u64) mod 256"
proof -
  have "num AND 0xff = take_bit 8 num" by (simp add: take_bit_eq_mask mask_eq_exp_minus_1)
  then show ?thesis by (simp add: unsigned_ucast_eq unsigned_take_bit_eq take_bit_eq_mod unat_mod)
qed

lemma unpack_seq: "seq_ok s \<Longrightarrow> drop_bit 8 (PackSequenceAndType s t) = s"
proof (rule bit_word_eqI)
  fix n assume "seq_ok s" "n < LENGTH(64)"
  then show "bit (drop_bit 8 (PackSequenceAndType s t)) n = bit s n"
    using bit_seq [of s n]
    by (auto simp: PackSequenceAndType_def bit_drop_bit_eq bit_or_iff bit_push_bit_iff bit_ucast_iff dest: bit_imp_le_length)
qed

lemma unpack_type: "ucast (PackSequenceAndType s t AND 0xff) = t"
proof (rule bit_word_eqI)
  fix n assume n: "n < LENGTH(8)"
  have "PackSequenceAndType s t AND 0xff = take_bit 8 (PackSequenceAndType s t)" by (simp add: take_bit_eq_mask mask_eq_exp_minus_1)
  then show "bit (ucast (PackSequenceAndType s t AND 0xff) :: u8) n = bit t n"
    using n by (simp add: PackSequenceAndType_def bit_ucast_iff bit_or_iff bit_push_bit_iff bit_take_bit_iff)
qed

lemma Parse_Append:
  "seq_ok (sequence k) \<Longrightarrow> IsExtendedValueType (ik_type k) \<Longrightarrow> ParseInternalKey (AppendInternalKey [] k) = Some k"
  by (simp add: ParseInternalKey_def AppendInternalKey_def PutFixed64_def unpack_seq unpack_type)

lemma Parse_seq_ok: "ParseInternalKey k = Some ik \<Longrightarrow> seq_ok (sequence ik) \<and> IsExtendedValueType (ik_type ik)"
proof -
  have "seq_ok (drop_bit 8 num)" for num :: u64
  proof -
    have "unat (drop_bit 8 num) < 2 ^ 56" using unsigned_less [of num, where 'a = nat] by (simp add: unat_drop_bit div_less_iff_less_mult)
    then show ?thesis by (simp add: word_less_nat_alt)
  qed
  then show "ParseInternalKey k = Some ik \<Longrightarrow> ?thesis" by (auto simp: ParseInternalKey_def Let_def split: if_splits)
qed

lemma Parse_parts:
  assumes "ParseInternalKey k = Some ik"
  shows "ExtractUserKey k = user_key ik" "drop_bit 8 (DecodeFixed64 (drop (length k - 8) k)) = sequence ik"
    "ucast (DecodeFixed64 (drop (length k - 8) k) AND 0xff) = ik_type ik"
  using assms by (auto simp: ParseInternalKey_def Let_def ExtractUserKey_def split: if_splits)

text \<open>The order of the packed words is the order of sequence numbers, then of types.\<close>

lemma packed_less:
  "(a :: u64) < b \<longleftrightarrow> drop_bit 8 a < drop_bit 8 b \<or>
     drop_bit 8 a = drop_bit 8 b \<and> (ucast (a AND 0xff) :: u8) < ucast (b AND 0xff)"
proof -
  have lex: "x < y \<longleftrightarrow> x div 256 < y div 256 \<or> x div 256 = y div 256 \<and> x mod 256 < y mod 256" for x y :: nat
  proof -
    obtain q r q' r' where "x = 256 * q + r" "r < 256" "y = 256 * q' + r'" "r' < 256"
      by (metis mod_less_divisor mult_div_mod_eq zero_less_numeral)
    then show ?thesis by (cases q q' rule: linorder_cases) simp_all
  qed
  have eq: "drop_bit 8 a = drop_bit 8 b \<longleftrightarrow> unat a div 256 = unat b div 256"
    unfolding word_unat_eq_iff unat_drop_bit by simp
  have less: "drop_bit 8 a < drop_bit 8 b \<longleftrightarrow> unat a div 256 < unat b div 256"
    unfolding word_less_nat_alt unat_drop_bit by simp
  have low: "(ucast (a AND 0xff) :: u8) < ucast (b AND 0xff) \<longleftrightarrow> unat a mod 256 < unat b mod 256"
    unfolding word_less_nat_alt low_byte by simp
  show ?thesis unfolding eq less low using lex [of "unat a" "unat b"] by (simp only: word_less_nat_alt)
qed

lemma Compare_agree:
  assumes "ParseInternalKey a = Some pa" "ParseInternalKey b = Some pb"
  shows "Compare_encoded cmp a b = Compare_parsed cmp pa pb"
proof -
  let ?a = "DecodeFixed64 (drop (length a - 8) a)" and ?b = "DecodeFixed64 (drop (length b - 8) b)"
  have "?a < ?b \<longleftrightarrow> sequence pa < sequence pb \<or> sequence pa = sequence pb \<and> ik_type pa < ik_type pb"
    "?b < ?a \<longleftrightarrow> sequence pb < sequence pa \<or> sequence pb = sequence pa \<and> ik_type pb < ik_type pa"
    unfolding packed_less [of ?a] packed_less [of ?b] Parse_parts [OF assms(1)] Parse_parts [OF assms(2)] by simp_all
  then show ?thesis
    unfolding Compare_encoded_def Compare_parsed_def Let_def Parse_parts(1) [OF assms(1)] Parse_parts(1) [OF assms(2)] by auto
qed

section \<open>Properties\<close>

text \<open>
  C28. An internal key parses back to the user key, sequence number and type it was made of, also after
  its sequence number and type were overwritten; and comparing two encoded keys bytewise by their
  packed words gives the same result as comparing their parts: user key, then sequence number
  and type in descending order.
\<close>

theorem internal_key_codec:
  assumes "seq_ok (sequence k)" "IsExtendedValueType (ik_type k)" "seq_ok s" "IsExtendedValueType t"
    and "ParseInternalKey a = Some pa" "ParseInternalKey b = Some pb"
  shows "ParseInternalKey (AppendInternalKey [] k) = Some k \<and>
    ParseInternalKey (UpdateInternalKey (AppendInternalKey [] k) s t) = Some (k\<lparr>sequence := s, ik_type := t\<rparr>) \<and>
    GetInternalKeySeqno (AppendInternalKey [] k) = sequence k \<and> ExtractValueType (AppendInternalKey [] k) = ik_type k \<and>
    Compare_encoded cmp a b = Compare_parsed cmp pa pb"
proof (intro conjI)
  show "ParseInternalKey (AppendInternalKey [] k) = Some k" by (rule Parse_Append [OF assms(1,2)])
  have "UpdateInternalKey (AppendInternalKey [] k) s t = AppendInternalKey [] (k\<lparr>sequence := s, ik_type := t\<rparr>)"
    by (simp add: UpdateInternalKey_def AppendInternalKey_def PutFixed64_def PackSequenceAndType_def)
  then show "ParseInternalKey (UpdateInternalKey (AppendInternalKey [] k) s t) = Some (k\<lparr>sequence := s, ik_type := t\<rparr>)"
    using Parse_Append [of "k\<lparr>sequence := s, ik_type := t\<rparr>"] assms(3,4) by simp
  show "GetInternalKeySeqno (AppendInternalKey [] k) = sequence k" "ExtractValueType (AppendInternalKey [] k) = ik_type k"
    using assms(1) by (simp_all add: GetInternalKeySeqno_def ExtractValueType_def ExtractInternalKeyFooter_def AppendInternalKey_def
      PutFixed64_def unpack_seq unpack_type)
  show "Compare_encoded cmp a b = Compare_parsed cmp pa pb"
    by (rule Compare_agree [OF assms(5,6)])
qed

theorem internal_key_codec_witness:
  "Compare_encoded bytewise [5, 17, 2, 0, 0, 0, 0, 0, 0] [5, 1, 2, 0, 0, 0, 0, 0, 0] = -1"
proof -
  let ?k = "\<lparr>user_key = [5], sequence = 2, ik_type = 17\<rparr>" and ?l = "\<lparr>user_key = [5], sequence = 2, ik_type = 1\<rparr>"
  have 1: "IsExtendedValueType 17" "IsExtendedValueType 1" by (simp_all add: IsExtendedValueType_def IsValueType_def)
  have "AppendInternalKey [] ?k = [5, 17, 2, 0, 0, 0, 0, 0, 0]" "AppendInternalKey [] ?l = [5, 1, 2, 0, 0, 0, 0, 0, 0]"
    by code_simp+
  moreover have "ParseInternalKey (AppendInternalKey [] ?k) = Some ?k" "ParseInternalKey (AppendInternalKey [] ?l) = Some ?l"
    using 1 by (simp_all add: Parse_Append)
  ultimately show ?thesis
    using internal_key_codec [of ?k 2 17 "[5, 17, 2, 0, 0, 0, 0, 0, 0]" ?k "[5, 1, 2, 0, 0, 0, 0, 0, 0]" ?l bytewise] 1
    by (simp add: Compare_parsed_def)
qed

end
