(* ===== verification/Storage_History.thy ===== *)
theory Storage_History
  imports Blob_Storage
begin

text \<open>
  The blob files of a column family over time: exact range queries, the histories of the storage
  operations as a step relation, and the properties of \<^verbatim>\<open>BlobStorage\<close>.
\<close>

section \<open>Range queries, exactly\<close>

text \<open>A key lies between the optional bounds of a range.\<close>

definition in_bounds :: "(bytes \<Rightarrow> bytes \<Rightarrow> int) \<Rightarrow> RangePtr \<Rightarrow> bytes \<Rightarrow> bool" where
  "in_bounds cmp r k \<longleftrightarrow>
     (case fst r of Some b \<Rightarrow> \<not> cmp k b < 0 | None \<Rightarrow> True) \<and>
     (case snd r of Some e \<Rightarrow> \<not> cmp e k < 0 | None \<Rightarrow> True)"

lemma takeWhile_down_closed:
  assumes "sorted_wrt R xs" "\<And>x y. R x y \<Longrightarrow> P y \<Longrightarrow> P x"
  shows "takeWhile P xs = filter P xs" "dropWhile P xs = filter (\<lambda>x. \<not> P x) xs"
proof -
  have none: "filter P xs = [] \<and> filter (\<lambda>x. \<not> P x) xs = xs"
    if "\<not> P x" "\<forall>y \<in> set xs. R x y" for x xs
    using that assms(2) by (auto simp: filter_empty_conv filter_id_conv)
  show "takeWhile P xs = filter P xs" "dropWhile P xs = filter (\<lambda>x. \<not> P x) xs"
    using assms(1) none by (induction xs) auto
qed

lemma window_eq_filter:
  assumes "sorted_wrt R xs" "\<And>x y. R x y \<Longrightarrow> P y \<Longrightarrow> P x" "\<And>x y. R x y \<Longrightarrow> Q y \<Longrightarrow> Q x"
    and "\<And>x. P x \<Longrightarrow> Q x"
  shows "take (length (takeWhile Q xs) - length (takeWhile P xs)) (drop (length (takeWhile P xs)) xs)
     = filter (\<lambda>x. \<not> P x \<and> Q x) xs"
proof -
  have "filter P (filter Q xs) = filter P xs" using assms(4) by (auto intro: filter_cong)
  then have lo: "takeWhile P xs = takeWhile P (filter Q xs)"
    using takeWhile_down_closed(1) [OF assms(1,2)] takeWhile_down_closed(1) [of R "filter Q xs" P] assms(1,2)
    by (simp add: sorted_wrt_filter)
  have "take (length (takeWhile Q xs) - length (takeWhile P xs)) (drop (length (takeWhile P xs)) xs)
      = drop (length (takeWhile P xs)) (takeWhile Q xs)"
    by (metis drop_take takeWhile_eq_take)
  also have "\<dots> = drop (length (takeWhile P (filter Q xs))) (filter Q xs)"
    using lo takeWhile_down_closed(1) [OF assms(1,3)] by simp
  also have "\<dots> = dropWhile P (filter Q xs)" by (rule dropWhile_eq_drop [symmetric])
  also have "\<dots> = filter (\<lambda>x. \<not> P x) (filter Q xs)"
    using takeWhile_down_closed(2) [of R "filter Q xs" P] assms(1,2) by (simp add: sorted_wrt_filter)
  finally show ?thesis by (simp add: conj_commute)
qed

lemma comparator_order:
  assumes "comparator_ok cmp"
  shows "cmp x y \<le> 0 \<Longrightarrow> cmp y z < 0 \<Longrightarrow> cmp x z < 0"
    and "cmp x y < 0 \<Longrightarrow> cmp y z \<le> 0 \<Longrightarrow> cmp x z < 0"
    and "cmp x b < 0 \<Longrightarrow> cmp b e \<le> 0 \<Longrightarrow> \<not> cmp e x < 0"
proof -
  have t: "cmp x y < 0 \<Longrightarrow> cmp y z < 0 \<Longrightarrow> cmp x z < 0" and z: "cmp x y = 0 \<longleftrightarrow> x = y"
    and f: "cmp x y < 0 \<longleftrightarrow> 0 < cmp y x" for x y z
    using assms unfolding comparator_ok_def by blast+
  show 1: "cmp x z < 0" if "cmp x y \<le> 0" "cmp y z < 0" for x y z
    using that t [of x y z] z [of x y] by (cases "cmp x y = 0") auto
  show 2: "cmp x z < 0" if "cmp x y < 0" "cmp y z \<le> 0" for x y z
    using that t [of x y z] z [of y z] by (cases "cmp y z = 0") auto
  show "\<not> cmp e x < 0" if "cmp x b < 0" "cmp b e \<le> 0"
    using 2 [OF that] f [of x e] by linarith
qed

lemma GetBlobFilesInRange_eq:
  assumes inv: "storage_inv s" and r: "range_ok (comparator (cf_options s)) r"
  shows "GetBlobFilesInRange s include_end r =
     Inr (filter (in_range_file s (snd r) include_end)
       (map snd (filter (\<lambda>p. in_bounds (comparator (cf_options s)) r (fst p)) (blob_ranges s))))"
proof -
  let ?c = "comparator (cf_options s)"
  let ?R = "\<lambda>(p :: bytes \<times> u64) (q :: bytes \<times> u64). ?c (fst p) (fst q) \<le> 0"
  let ?P = "\<lambda>p :: bytes \<times> u64. case fst r of Some b \<Rightarrow> ?c (fst p) b < 0 | None \<Rightarrow> False"
  let ?Q = "\<lambda>p :: bytes \<times> u64. case snd r of Some e \<Rightarrow> \<not> ?c e (fst p) < 0 | None \<Rightarrow> True"
  have c: "comparator_ok ?c" and sorted: "sorted_wrt ?R (blob_ranges s)"
    using inv by (auto simp: storage_inv_def ranges_ok_def)
  have lo: "(case fst r of Some b \<Rightarrow> lower_bound ?c b (blob_ranges s) | None \<Rightarrow> 0) = length (takeWhile ?P (blob_ranges s))"
    by (cases "fst r"; cases "blob_ranges s") (simp_all add: lower_bound_def case_prod_beta')
  have hi: "(case snd r of Some e \<Rightarrow> upper_bound ?c e (blob_ranges s) | None \<Rightarrow> length (blob_ranges s))
      = length (takeWhile ?Q (blob_ranges s))"
    by (cases "snd r") (simp_all add: upper_bound_def case_prod_beta' takeWhile_eq_all_conv [THEN iffD2])
  have "?P x" if "?R x y" "?P y" for x y
    using that comparator_order(1) [OF c, of "fst x" "fst y"] by (cases "fst r") simp_all
  moreover have "?Q x" if "?R x y" "?Q y" for x y
    using that comparator_order(2) [OF c, of _ "fst x" "fst y"] by (cases "snd r") auto
  moreover have "?P x \<Longrightarrow> ?Q x" for x
    using r comparator_order(3) [OF c, of "fst x"] by (cases r; cases "fst r"; cases "snd r") (simp_all add: range_ok_def)
  ultimately have w: "take (length (takeWhile ?Q (blob_ranges s)) - length (takeWhile ?P (blob_ranges s)))
       (drop (length (takeWhile ?P (blob_ranges s))) (blob_ranges s)) = filter (\<lambda>x. \<not> ?P x \<and> ?Q x) (blob_ranges s)"
    using window_eq_filter [OF sorted, of ?P ?Q] by blast
  have "(\<lambda>x. \<not> ?P x \<and> ?Q x) = (\<lambda>p. in_bounds ?c r (fst p))"
    by (auto simp: in_bounds_def fun_eq_iff split: option.splits)
  then show ?thesis
    using GetBlobFilesInRange_defined [OF inv r, of include_end]
    unfolding GetBlobFilesInRange_def Let_def lo hi w by (simp split: if_splits)
qed

lemma GetBlobFilesInRanges_concat:
  "(\<And>r. r \<in> set rs \<Longrightarrow> GetBlobFilesInRange s include_end r = Inr (g r)) \<Longrightarrow>
   GetBlobFilesInRanges s include_end rs fs = Inr (fs @ concat (map g rs))"
  by (induction rs arbitrary: fs) auto

lemma blob_ranges_iff:
  assumes inv: "storage_inv s"
  shows "(k, n) \<in> set (blob_ranges s) \<longleftrightarrow> (\<exists>f. FindFile s n = Some f \<and> smallest_key f = k)"
proof -
  have "mset (blob_ranges s) = mset (map range_entry (files s))"
    using inv unfolding storage_inv_def ranges_ok_def by blast
  from arg_cong [OF this, of set_mset]
  have r: "set (blob_ranges s) = range_entry ` set (files s)" by simp
  have d: "distinct (keys (files s))" using inv unfolding storage_inv_def ids_ok_def by blast
  show ?thesis
    unfolding r FindFile_def range_entry_def image_iff map_of_eq_Some_iff [OF d]
    by (auto simp: Bex_def)
qed
section \<open>Histories\<close>

text \<open>
  The operations that the other components apply to a storage: a file is added under a fresh
  number, a building file registered, a meta updated in place, a live file retired, the
  obsolete files behind a sequence number purged, the scores recomputed.
\<close>

inductive storage_step :: "BlobStorage \<Rightarrow> BlobStorage \<Rightarrow> bool" where
  step_add: "FindFile s (file_number f) = None \<Longrightarrow> \<not> is_obsolete f \<Longrightarrow> level_in_range s f \<Longrightarrow>
    storage_step s (AddBlobFile f s)"
| step_building: "storage_step s (snd (AddBuildingFile r n s))"
| step_update: "benign g \<Longrightarrow> storage_step s (on_file n g s)"
| step_retire: "FindFile s n = Some f \<Longrightarrow> \<not> is_obsolete f \<Longrightarrow> storage_step s (snd (MarkFileObsolete n q s))"
| step_purge: "storage_step s (fst (GetObsoleteFiles oldest s))"
| step_score: "storage_step s (fst (ComputeGCScore s))"

lemma storage_inv_AddBuildingFile [simp]: "storage_inv (snd (AddBuildingFile r n s)) = storage_inv s"
  by (simp add: AddBuildingFile_def storage_inv_def ids_ok_def obsolete_ok_def ranges_ok_def
      slots_ok_def levels_ok_def stats_ok_def FindFile_def)

lemma storage_step_inv: "storage_step s t \<Longrightarrow> storage_inv s \<Longrightarrow> storage_inv t"
proof (induction rule: storage_step.induct)
  case (step_purge s oldest)
  then show ?case using GetObsoleteFiles_spec(1) [of s oldest] by (metis prod.collapse)
qed (simp_all add: storage_inv_AddBlobFile storage_inv_on_file storage_inv_MarkFileObsolete)

lemma storage_run_inv: "storage_step\<^sup>*\<^sup>* s t \<Longrightarrow> storage_inv s \<Longrightarrow> storage_inv t"
  by (induction rule: rtranclp_induct) (auto dest: storage_step_inv)

lemma wsum_one: "wsum (\<lambda>f. if P f then 1 else 0) m = of_nat (length (filter (\<lambda>p. P (snd p)) m))"
  by (induction m) (auto simp: wsum_def)

lemma card_FindFile:
  assumes "ids_ok s"
  shows "card {n. \<exists>f. FindFile s n = Some f \<and> P f} = length (filter (\<lambda>p. P (snd p)) (files s))"
proof -
  have d: "distinct (keys (files s))" using assms by (simp add: ids_ok_def)
  have "{n. \<exists>f. FindFile s n = Some f \<and> P f} = set (map fst (filter (\<lambda>p. P (snd p)) (files s)))"
    unfolding FindFile_def map_of_eq_Some_iff [OF d] by (auto simp: image_iff Bex_def)
  moreover have "distinct (map fst (filter (\<lambda>p. P (snd p)) (files s)))"
    using d by (rule distinct_map_filter)
  ultimately show ?thesis using distinct_card [of "map fst (filter (\<lambda>p. P (snd p)) (files s))"] by simp
qed

lemma stats_count:
  assumes "storage_inv s" "stats s = Some c"
  shows "c NUM_LIVE_BLOB_FILE = of_nat (card {n. \<exists>f. FindFile s n = Some f \<and> \<not> is_obsolete f})"
    and "c NUM_OBSOLETE_BLOB_FILE = of_nat (card {n. \<exists>f. FindFile s n = Some f \<and> is_obsolete f})"
proof -
  have i: "ids_ok s" using assms(1) by (simp add: storage_inv_def)
  have l: "live_one = (\<lambda>f. if \<not> is_obsolete f then 1 else 0)" "dead_one = (\<lambda>f. if is_obsolete f then 1 else 0)"
    by (auto simp: live_one_def dead_one_def)
  have "c NUM_LIVE_BLOB_FILE = wsum live_one (files s)" "c NUM_OBSOLETE_BLOB_FILE = wsum dead_one (files s)"
    using assms by (auto simp: storage_inv_def stats_ok_def)
  then show "c NUM_LIVE_BLOB_FILE = of_nat (card {n. \<exists>f. FindFile s n = Some f \<and> \<not> is_obsolete f})"
    "c NUM_OBSOLETE_BLOB_FILE = of_nat (card {n. \<exists>f. FindFile s n = Some f \<and> is_obsolete f})"
    by (simp_all only: l wsum_one card_FindFile [OF i])
qed

lemma NumObsoleteBlobFiles_card:
  assumes "storage_inv s"
  shows "NumObsoleteBlobFiles s = card {n. \<exists>f. FindFile s n = Some f \<and> is_obsolete f}"
proof -
  have "distinct (keys (obsolete_files s))"
    "set (keys (obsolete_files s)) = {n. \<exists>f. FindFile s n = Some f \<and> is_obsolete f}"
    using assms unfolding storage_inv_def obsolete_ok_def by blast+
  then show ?thesis using distinct_card by (metis NumObsoleteBlobFiles_def length_map)
qed

section \<open>Properties\<close>

text \<open>A concrete history: two files are added and one of them is retired at sequence 100.\<close>

definition w_cf :: TitanCFOptions where
  "w_cf = default_TitanCFOptions \<lparr>num_levels = 7, comparator = bytewise\<rparr>"

definition w_file :: "u64 \<Rightarrow> u8 \<Rightarrow> BlobFileMeta" where
  "w_file n k = new_BlobFileMeta\<lparr>file_number := n, file_size := 1000, smallest_key := [k], largest_key := [k + 1],
     file_state := kPendingLSM\<rparr>"

definition w_storage0 :: BlobStorage where
  "w_storage0 = new_BlobStorage default_TitanDBOptions w_cf 0 (Some Stats_Clear)"

definition w_storage :: BlobStorage where
  "w_storage = snd (MarkFileObsolete 5 100 (AddBlobFile (w_file 6 3) (AddBlobFile (w_file 5 1) w_storage0)))"

lemmas w_storage_defs = w_storage_def w_storage0_def w_cf_def w_file_def

lemma w_cf_fields [simp]: "num_levels w_cf = 7" "comparator w_cf = bytewise" "level_merge w_cf = False"
  by (simp_all add: w_cf_def default_TitanCFOptions_def TitanCFOptions.defs ColumnFamilyOptions.defs)

lemma w_storage_run: "storage_step\<^sup>*\<^sup>* w_storage0 w_storage"
proof -
  have new: "FindFile w_storage0 n = None" "cf_options w_storage0 = w_cf" for n
    by (simp_all add: w_storage0_def FindFile_def new_BlobStorage_def)
  have f: "file_number (w_file n k) = n" "\<not> is_obsolete (w_file n k)" "level_fits 7 (w_file n k)" for n k
    by (simp_all add: w_file_def is_obsolete_def level_fits_def slot_def new_BlobFileMeta_def)
  let ?a = "AddBlobFile (w_file 5 1) w_storage0"
  have "storage_step w_storage0 ?a" by (rule step_add) (simp_all add: new f)
  moreover have "storage_step ?a (AddBlobFile (w_file 6 3) ?a)"
    by (rule step_add) (simp_all add: new f FindFile_AddBlobFile)
  moreover have "storage_step (AddBlobFile (w_file 6 3) ?a) w_storage"
    unfolding w_storage_def by (rule step_retire [of _ _ "w_file 5 1"]) (simp_all add: new f FindFile_AddBlobFile)
  ultimately show ?thesis by (meson rtranclp.rtrancl_into_rtrancl rtranclp.rtrancl_refl)
qed

lemma w_storage_inv: "storage_inv w_storage"
  using storage_run_inv [OF w_storage_run]
  by (simp add: w_storage0_def storage_inv_new bytewise_ok)

lemma w_obsolete: "obsolete_files w_storage = [(5, 100)]"
  by (simp add: w_storage_defs new_BlobStorage_def AddBlobFile_def MarkFileObsolete_def
      MarkFileObsoleteLocked_def emplace_def new_BlobFileMeta_def)

lemma w_find:
  "FindFile w_storage 6 = Some (w_file 6 3)"
  "FindFile w_storage 5 = Some (transit kDelete (w_file 5 1))"
proof -
  have n: "FindFile w_storage0 n = None" "file_number (w_file n k) = n" for n k
    by (simp_all add: w_storage0_def w_file_def FindFile_def new_BlobStorage_def)
  have "ids_ok (AddBlobFile (w_file 6 3) (AddBlobFile (w_file 5 1) w_storage0))"
    by (simp add: ids_ok_def files_AddBlobFile FindFile_AddBlobFile n) (simp add: w_storage0_def new_BlobStorage_def)
  then show "FindFile w_storage 6 = Some (w_file 6 3)" "FindFile w_storage 5 = Some (transit kDelete (w_file 5 1))"
    unfolding w_storage_def by (simp_all add: FindFile_MarkFileObsolete FindFile_AddBlobFile n)
qed

lemma w_live: "\<not> is_obsolete (w_file n k)" "smallest_key (w_file n k) = [k]" "largest_key (w_file n k) = [k + 1]"
  by (simp_all add: w_file_def is_obsolete_def)

lemma w_opts: "cf_options w_storage = w_cf"
  by (simp add: w_storage_def w_storage0_def new_BlobStorage_def)



text \<open>
  C6. Purging: exactly the obsolete files whose obsolete sequence lies below the oldest
  snapshot are handed out for deletion and forgotten; a live file, and a file that some
  snapshot may still read, stay in the storage unchanged.
\<close>

theorem purge_respects_snapshots:
  assumes "storage_inv s" "GetObsoleteFiles oldest s = (s', names)"
  shows "storage_inv s' \<and> distinct names \<and>
    (\<forall>n. n \<in> set names \<longleftrightarrow> (\<exists>q. (n, q) \<in> set (obsolete_files s) \<and> q < oldest)) \<and>
    (\<forall>n f. FindFile s n = Some f \<and> \<not> is_obsolete f \<longrightarrow> n \<notin> set names) \<and>
    (\<forall>n. FindFile s' n = (if n \<in> set names then None else FindFile s n)) \<and>
    (\<forall>n q. (n, q) \<in> set (obsolete_files s) \<and> \<not> q < oldest \<longrightarrow> (n, q) \<in> set (obsolete_files s') \<and> FindFile s' n = FindFile s n)"
proof -
  note S = GetObsoleteFiles_spec [OF assms]
  have d: "distinct (keys (obsolete_files s))" and o: "n \<in> set (keys (obsolete_files s)) \<Longrightarrow> \<exists>f. FindFile s n = Some f \<and> is_obsolete f" for n
    using assms(1) unfolding storage_inv_def obsolete_ok_def by blast+
  have names: "n \<in> set names \<longleftrightarrow> (\<exists>q. (n, q) \<in> set (obsolete_files s) \<and> q < oldest)" for n
    by (auto simp: S(3) image_iff)
  have live: "n \<notin> set names" if "FindFile s n = Some f" "\<not> is_obsolete f" for n f
  proof -
    have "n \<notin> set (keys (obsolete_files s))" using o [of n] that by auto
    then show ?thesis by (auto simp: S(3))
  qed
  have keep: "n \<notin> set names" "(n, q) \<in> set (obsolete_files s')"
    if "(n, q) \<in> set (obsolete_files s)" "\<not> q < oldest" for n q
  proof -
    show "n \<notin> set names" using names [of n] eq_key_imp_eq_value [OF d that(1)] that(2) by blast
    show "(n, q) \<in> set (obsolete_files s')" using that by (simp add: S(2))
  qed
  have "distinct names" unfolding S(3) using d by (rule distinct_map_filter)
  moreover have "FindFile s' n = (if n \<in> set names then None else FindFile s n)" for n
    by (rule S(4))
  ultimately show ?thesis
    by (intro conjI allI impI; (elim conjE)?) (simp_all add: S(1) names [symmetric] live keep)
qed

theorem purge_respects_snapshots_witness:
  "set (snd (GetObsoleteFiles 101 w_storage)) = {5} \<and> set (snd (GetObsoleteFiles 100 w_storage)) = {} \<and>
   FindFile (fst (GetObsoleteFiles 100 w_storage)) 5 = FindFile w_storage 5"
proof -
  have "n \<in> set (snd (GetObsoleteFiles q w_storage)) \<longleftrightarrow> n = 5 \<and> 100 < q" for n q
    using purge_respects_snapshots [OF w_storage_inv prod.collapse [symmetric], of q] by (simp add: w_obsolete)
  moreover have "FindFile (fst (GetObsoleteFiles 100 w_storage)) 5 = FindFile w_storage 5"
    using purge_respects_snapshots [OF w_storage_inv prod.collapse [symmetric], of 100] by (simp add: w_obsolete)
  ultimately show ?thesis by (auto simp: set_eq_iff simp del: set_empty)
qed
lemma gc_score_distinct:
  assumes "ids_ok s"
  shows "distinct (map gcs_file_number (gc_score (fst (ComputeGCScore s))))"
proof -
  let ?fs = "filter (\<lambda>p. \<not> needs_no_score (cf_options s) (snd p)) (files s)"
  have "image_mset gcs_file_number (mset (gc_score (fst (ComputeGCScore s))))
      = image_mset gcs_file_number (mset (map (gc_score_of (cf_options s)) ?fs))"
    by (simp only: ComputeGCScore_content)
  then have "mset (map gcs_file_number (gc_score (fst (ComputeGCScore s)))) = mset (map fst ?fs)"
    by (simp add: multiset.map_comp comp_def gc_score_of_def)
  moreover have "distinct (map fst ?fs)"
    using assms unfolding ids_ok_def by (blast intro: distinct_map_filter)
  ultimately show ?thesis by (metis mset_eq_imp_distinct_iff)
qed

text \<open>
  C23. The score list that drives garbage collection names exactly the files that can be
  collected (not obsolete and, when files are merged by level, unsorted with a discardable
  ratio at the threshold or above), each once; it is ordered by file number, or by score from
  the highest when files are merged by level; and the recomputation keeps the files.
\<close>

theorem gc_score_list:
  assumes "storage_inv s"
  defines "t \<equiv> fst (ComputeGCScore s)"
  shows "(\<forall>n. n \<in> gcs_file_number ` set (gc_score t) \<longleftrightarrow>
      (\<exists>f. FindFile s n = Some f \<and> \<not> is_obsolete f \<and>
         (level_merge (cf_options s) \<longrightarrow> file_type f \<noteq> kSorted \<and>
            blob_file_discardable_ratio (cf_options s) \<le> GetDiscardableRatio f))) \<and>
    distinct (map gcs_file_number (gc_score t)) \<and> snd (ComputeGCScore s) = length (gc_score t) \<and>
    (if level_merge (cf_options s) then sorted_wrt (\<lambda>a b. gcs_score a \<ge> gcs_score b) (gc_score t)
     else sorted_wrt (\<lambda>a b. gcs_file_number a \<le> gcs_file_number b) (gc_score t)) \<and>
    FindFile t = FindFile s \<and> storage_inv t"
proof -
  have i: "ids_ok s" using assms(1) by (simp add: storage_inv_def)
  have "n \<in> gcs_file_number ` set (gc_score t) \<longleftrightarrow>
      (\<exists>f. FindFile s n = Some f \<and> \<not> is_obsolete f \<and>
         (level_merge (cf_options s) \<longrightarrow> file_type f \<noteq> kSorted \<and>
            blob_file_discardable_ratio (cf_options s) \<le> GetDiscardableRatio f))" for n
    unfolding t_def ComputeGCScore_scored_iff [OF i] needs_no_score_def not_less [symmetric] de_Morgan_disj de_Morgan_conj imp_conv_disj ..
  moreover have "snd (ComputeGCScore s) = length (gc_score t)" by (simp add: t_def ComputeGCScore_def Let_def)
  ultimately show ?thesis
    using gc_score_distinct [OF i] ComputeGCScore_sorted [of s] ComputeGCScore_by_number [of s] assms(1)
    by (simp add: t_def)
qed

theorem gc_score_list_witness:
  "6 \<in> gcs_file_number ` set (gc_score (fst (ComputeGCScore w_storage))) \<and>
   5 \<notin> gcs_file_number ` set (gc_score (fst (ComputeGCScore w_storage)))"
proof -
  have "FindFile w_storage 6 = Some (w_file 6 3)" "\<not> is_obsolete (w_file 6 3)"
    "FindFile w_storage 5 = Some (transit kDelete (w_file 5 1))" "is_obsolete (transit kDelete (w_file 5 1))"
    "level_merge (cf_options w_storage) = False"
    using w_find w_live by (simp_all add: w_opts)
  then show ?thesis using gc_score_list [OF w_storage_inv] by simp
qed

lemma in_range_file_iff:
  "in_range_file s lm include_end n \<longleftrightarrow>
     (\<exists>f. FindFile s n = Some f \<and> \<not> is_obsolete f \<and>
       (\<forall>e. lm = Some e \<longrightarrow> largest_key f \<noteq> [] \<and>
          (if include_end then comparator (cf_options s) (largest_key f) e \<le> 0
           else comparator (cf_options s) (largest_key f) e < 0)))"
  by (auto simp: in_range_file_def Let_def split: option.splits)

lemma some_conj:
  "(\<exists>f. x = Some f \<and> P f) \<and> (\<exists>f. x = Some f \<and> Q f \<and> R f) \<longleftrightarrow> (\<exists>f. x = Some f \<and> Q f \<and> P f \<and> R f)"
  by auto

lemma range_members:
  fixes s include_end
  defines "in_range r f \<equiv> \<not> is_obsolete f \<and>
     in_bounds (comparator (cf_options s)) r (smallest_key f) \<and>
     (\<forall>e. snd r = Some e \<longrightarrow> largest_key f \<noteq> [] \<and>
        (if include_end then comparator (cf_options s) (largest_key f) e \<le> 0
         else comparator (cf_options s) (largest_key f) e < 0))"
  assumes "storage_inv s"
  shows "(\<forall>n. n \<in> set (concat (map (\<lambda>r. filter (in_range_file s (snd r) include_end)
       (map snd (filter (\<lambda>p. in_bounds (comparator (cf_options s)) r (fst p)) (blob_ranges s)))) rs)) \<longleftrightarrow>
     (\<exists>r \<in> set rs. \<exists>f. FindFile s n = Some f \<and> in_range r f))"
proof
  fix n
  have "n \<in> snd ` {p \<in> set (blob_ranges s). in_bounds (comparator (cf_options s)) r (fst p)} \<longleftrightarrow>
      (\<exists>k. (k, n) \<in> set (blob_ranges s) \<and> in_bounds (comparator (cf_options s)) r k)" for r
    by force
  then have b: "n \<in> snd ` {p \<in> set (blob_ranges s). in_bounds (comparator (cf_options s)) r (fst p)} \<longleftrightarrow>
      (\<exists>f. FindFile s n = Some f \<and> in_bounds (comparator (cf_options s)) r (smallest_key f))" for r
    unfolding blob_ranges_iff [OF assms(2)] by blast
  have "n \<in> snd ` {p \<in> set (blob_ranges s). in_bounds (comparator (cf_options s)) r (fst p)} \<and>
      in_range_file s (snd r) include_end n \<longleftrightarrow> (\<exists>f. FindFile s n = Some f \<and> in_range r f)" for r
    unfolding b in_range_file_iff in_range_def by (rule some_conj)
  then show "n \<in> set (concat (map (\<lambda>r. filter (in_range_file s (snd r) include_end)
       (map snd (filter (\<lambda>p. in_bounds (comparator (cf_options s)) r (fst p)) (blob_ranges s)))) rs)) \<longleftrightarrow>
     (\<exists>r \<in> set rs. \<exists>f. FindFile s n = Some f \<and> in_range r f)"
    by (simp add: conj_commute)
qed

text \<open>
  C22. Range queries for deletion: over well-formed ranges the query is defined, and it
  returns exactly the live files whose smallest key lies within the bounds of one of the
  ranges and whose largest key lies below its limit (or at it, when the end is included).
\<close>

theorem files_in_ranges_exact:
  assumes "storage_inv s" "\<forall>r \<in> set rs. range_ok (comparator (cf_options s)) r"
  shows "\<exists>gs. GetBlobFilesInRanges s include_end rs [] = Inr gs \<and>
    (\<forall>n. n \<in> set gs \<longleftrightarrow>
       (\<exists>r \<in> set rs. \<exists>f. FindFile s n = Some f \<and> \<not> is_obsolete f \<and>
          in_bounds (comparator (cf_options s)) r (smallest_key f) \<and>
          (\<forall>e. snd r = Some e \<longrightarrow> largest_key f \<noteq> [] \<and>
             (if include_end then comparator (cf_options s) (largest_key f) e \<le> 0
              else comparator (cf_options s) (largest_key f) e < 0))))"
proof -
  let ?g = "\<lambda>r. filter (in_range_file s (snd r) include_end)
       (map snd (filter (\<lambda>p. in_bounds (comparator (cf_options s)) r (fst p)) (blob_ranges s)))"
  have r: "GetBlobFilesInRanges s include_end rs [] = Inr (concat (map ?g rs))"
    using GetBlobFilesInRanges_concat [of rs s include_end ?g "[]"] GetBlobFilesInRange_eq [OF assms(1)] assms(2)
    unfolding append_Nil by blast
  show ?thesis
    by (rule exI, rule conjI, rule r) (rule range_members [OF assms(1)])
qed

theorem files_in_ranges_exact_witness:
  "\<exists>gs. GetBlobFilesInRanges w_storage False [(Some [2], Some [5]), (None, None)] [] = Inr gs \<and> 6 \<in> set gs \<and> 5 \<notin> set gs"
proof -
  have "comparator (cf_options w_storage) = bytewise" by (simp add: w_opts)
  then have "\<forall>r \<in> set [(Some [2], Some [5]), (None, None)]. range_ok (comparator (cf_options w_storage)) r"
    by (simp add: range_ok_def)
  from files_in_ranges_exact [OF w_storage_inv this, of False] obtain gs where
    "GetBlobFilesInRanges w_storage False [(Some [2], Some [5]), (None, None)] [] = Inr gs"
    "\<forall>n. n \<in> set gs \<longleftrightarrow> (\<exists>r \<in> set [(Some [2], Some [5]), (None, None)]. \<exists>f. FindFile w_storage n = Some f \<and> \<not> is_obsolete f \<and>
          in_bounds (comparator (cf_options w_storage)) r (smallest_key f) \<and>
          (\<forall>e. snd r = Some e \<longrightarrow> largest_key f \<noteq> [] \<and> comparator (cf_options w_storage) (largest_key f) e < 0))"
    by auto
  then show ?thesis using w_find w_live by (simp add: in_bounds_def)
qed

text \<open>
  C31. Counting sorted runs: the files are split into runs, none lost and none counted twice,
  and within each run every file begins behind the end of the one before it.
\<close>

theorem sorted_runs_cover:
  "mset (concat (sorted_runs fs)) = mset fs \<and> sum_list (CountSortedRun fs) = length fs \<and>
   (\<forall>r \<in> set (sorted_runs fs). r \<noteq> [] \<and>
      (\<forall>i. Suc i < length r \<longrightarrow> bytewise (smallest_key (r ! Suc i)) (largest_key (r ! i)) > 0))"
  using sorted_runs_partition [of fs] sum_CountSortedRun [of fs] unfolding run_ok_def list_all_iff by blast

theorem sorted_runs_cover_witness:
  "CountSortedRun [w_file 5 1, w_file 6 2, w_file 7 4] = [2, 1] \<and> sum_list (CountSortedRun [w_file 5 1, w_file 6 2, w_file 7 4]) = 3"
proof -
  have "CountSortedRun [w_file 5 1, w_file 6 2, w_file 7 4] = [2, 1]" by code_simp
  then show ?thesis using sorted_runs_cover [of "[w_file 5 1, w_file 6 2, w_file 7 4]"] by simp
qed

end
