(* ===== verification/Recovery.thy ===== *)
theory Recovery
  imports Blob_File_Set Storage_History
begin

text \<open>
  The properties of the edit collector, the manifest and recovery, with a concrete file set for
  their witnesses: one column family, a manifest with its snapshot, and one added blob file.
\<close>

lemma LogAndApply_OK_iff:
  assumes fam: "families_ok (column_families fs)" and fits: "edit_fits e (column_families fs)"
  shows "fst (LogAndApply add sync e fs) = OK \<longleftrightarrow>
    accepts e fs \<and> manifest fs \<noteq> None \<and> add = OK \<and> sync = OK"
proof
  assume l: "fst (LogAndApply add sync e fs) = OK"
  then have r: "LogAndApply add sync e fs = (OK, snd (LogAndApply add sync e fs))" by (metis prod.collapse)
  have io: "add = OK \<and> sync = OK"
    using l by (auto simp: LogAndApply_def Let_def ok_def split: prod.splits option.splits if_splits)
  show "accepts e fs \<and> manifest fs \<noteq> None \<and> add = OK \<and> sync = OK"
    using fam fits r by (cases rule: LogAndApply_cases) (use io in simp_all)
next
  assume a: "accepts e fs \<and> manifest fs \<noteq> None \<and> add = OK \<and> sync = OK"
  let ?c = "after_edit (the_edit e fs) new_EditCollector" and ?fam = "column_families fs"
  have t: "takes (the_edit e fs) new_EditCollector" using a by (simp add: takes_new accepts_def)
  then have A: "AddEdit (the_edit e fs) new_EditCollector = (OK, ?c)"
    using AddEdit_iff [of new_EditCollector "the_edit e fs" ?c] by simp
  have S: "Seal ?fam ?c = (OK, ?c\<lparr>ec_sealed := True\<rparr>)"
    using a by (auto simp: Seal_new_edit accepts_def Let_def split: option.splits)
  have "ec_ok ?c" using t by (intro ec_ok_after_edit) simp_all
  moreover have "collectors_fit (ec_column_families ?c) ?fam"
    using fits by (auto simp: families_after_new_edit collectors_fit_def added_ok_def edit_fits_def number_files_def)
  ultimately have "fst (Apply ?fam (?c\<lparr>ec_sealed := True\<rparr>)) = OK" using Apply_after_Seal(1) [OF fam _ _ S] by blast
  then show "fst (LogAndApply add sync e fs) = OK"
    using a by (auto simp: LogAndApply_def the_edit_def [symmetric] A S Let_def split_beta)
qed

lemma recover_edits_report:
  "e \<noteq> OK \<Longrightarrow> recover_edits (map Record rs @ Report e # evs) OK c = recover_edits (map Record rs) OK c"
proof (induction rs arbitrary: c)
  case Nil
  have "recover_edits evs' e' c = Inr c" if "e' \<noteq> OK" for evs' e'
    using that
  proof (induction evs' arbitrary: e')
    case (Cons ev evs')
    then show ?case by (cases ev) (auto simp: ok_def)
  qed simp
  then show ?case using Nil by (simp add: ok_def)
qed (auto simp: ok_def split: sum.splits prod.splits)

section \<open>A concrete file set\<close>

definition w_io :: manifest_io where
  "w_io = \<lparr>io_new_file = OK, io_add_record = (\<lambda>_. OK), io_sync = OK, io_set_current = OK\<rparr>"

definition w_fs0 :: BlobFileSet where
  "w_fs0 = AddColumnFamilies (\<lambda>_. Some Stats_Clear) [(0, w_cf)] (new_BlobFileSet default_TitanDBOptions)"

definition w_fs1 :: BlobFileSet where
  "w_fs1 = snd (OpenManifest w_io 1 w_fs0)"

definition w_log_edit :: VersionEdit where
  "w_log_edit = VersionEdit_AddBlobFile (w_file 5 1) (SetColumnFamilyID 0 new_VersionEdit)"

definition w_fs2 :: BlobFileSet where
  "w_fs2 = snd (LogAndApply OK OK w_log_edit w_fs1)"

lemma w_fs0_families: "column_families w_fs0 = [(0, w_storage0)]"
  by (simp add: w_fs0_def AddColumnFamilies_def new_BlobFileSet_def w_storage0_def emplace_def)

lemma w_storage0_files: "files w_storage0 = []" "cf_options w_storage0 = w_cf" "FindFile w_storage0 n = None"
  by (simp_all add: w_storage0_def new_BlobStorage_def FindFile_def)

lemma w_fresh: "fresh_families (\<lambda>_. 7) (column_families w_fs0)"
  unfolding fresh_families_def families_ok_def w_fs0_families
  using storage_inv_new [of w_cf "Some Stats_Clear" default_TitanDBOptions 0]
  by (simp add: w_storage0_files w_storage0_def [symmetric] bytewise_ok)

lemma w_open: "OpenManifest w_io 1 w_fs0 = (OK, w_fs1)"
proof -
  have "fst (OpenManifest w_io 1 w_fs0) = OK"
    by (simp add: OpenManifest_def WriteSnapshot_def w_io_def Let_def split_beta ok_def w_fs0_families)
  then show ?thesis by (metis prod.collapse w_fs1_def)
qed

lemma w_fs1_ok:
  "manifest_ok (\<lambda>_. 7) w_fs1" "column_families w_fs1 = [(0, w_storage0)]" "families_ok (column_families w_fs1)"
  using manifest_ok_OpenManifest [OF _ _ _ w_open, of "\<lambda>_. 7"] w_fresh
  by (auto simp: fresh_families_def families_keys_ok_def families_levels_def w_fs0_families w_storage0_files)

lemma w_log_edit_fields [simp]:
  "ve_column_family_id w_log_edit = 0" "ve_added_files w_log_edit = [w_file 5 1]"
  "ve_deleted_files w_log_edit = []" "ve_updated_discardable_size w_log_edit = []"
  by (simp_all add: w_log_edit_def VersionEdit_AddBlobFile_def SetColumnFamilyID_def new_VersionEdit_def)

lemma w_log_edit_ok: "edit_ok w_log_edit" "edit_fits w_log_edit (column_families w_fs1)" "accepts w_log_edit w_fs1"
proof -
  have f: "level_fits 7 (w_file n k)" for n k
    by (simp add: w_file_def level_fits_def slot_def new_BlobFileMeta_def)
  show "edit_ok w_log_edit" by (simp add: edit_ok_def meta_keys_ok_def w_live)
  show "edit_fits w_log_edit (column_families w_fs1)"
    by (simp add: edit_fits_def w_fs1_ok w_storage0_files w_live f)
  show "accepts w_log_edit w_fs1"
    by (simp add: accepts_def w_fs1_ok Seal_OK_iff w_storage0_files)
qed
lemma w_log: "LogAndApply OK OK w_log_edit w_fs1 = (OK, w_fs2)"
proof -
  have "manifest w_fs1 \<noteq> None" using w_fs1_ok(1) by (auto simp: manifest_ok_def)
  then have "fst (LogAndApply OK OK w_log_edit w_fs1) = OK"
    using LogAndApply_OK_iff [OF w_fs1_ok(3) w_log_edit_ok(2)] w_log_edit_ok(3) by blast
  then show ?thesis by (metis prod.collapse w_fs2_def)
qed

lemma w_fresh_edit: "edit_fresh (\<lambda>_. 7) w_log_edit w_fs1"
proof -
  have "logged_files w_fs1 0 = []" by code_simp
  then show ?thesis by (simp add: edit_fresh_def w_fs1_ok w_storage0_files)
qed

lemma w_live_5: "live_in (column_families w_fs2) 0 5 = Some (persistent (w_file 5 1))"
proof -
  have n: "file_number (w_file 5 1) = 5" by (simp add: w_file_def)
  from w_fs1_ok(3) w_log_edit_ok(2) w_log show ?thesis
  proof (cases rule: LogAndApply_cases)
    case (applied recs)
    then have "find_in (column_families w_fs2) 0 5 = Some (w_file 5 1)"
      by (simp add: batch_find_def w_fs1_ok apply_spec_def number_files_def n discard_def collect_def)
    then show ?thesis by (simp add: live_in_def w_live)
  qed simp
qed

section \<open>Properties\<close>

text \<open>
  C7. A batch of edits that the collector has sealed against the current files always applies,
  and afterwards every file of every column family is what the abstract description of the batch
  says: added files are present, deleted files are obsolete (or were never added), the others
  are kept, with the recorded discardable bytes added.
\<close>

theorem sealed_edits_apply:
  assumes "families_ok fam" "ec_ok c" "collectors_fit (ec_column_families c) fam" "Seal fam c = (OK, c')"
  shows "fst (Apply fam c') = OK \<and> families_ok (snd (snd (Apply fam c'))) \<and>
    keys (snd (snd (Apply fam c'))) = keys fam \<and>
    (\<forall>cf n. find_in (snd (snd (Apply fam c'))) cf n = batch_find (ec_column_families c) fam cf n)"
  using Apply_after_Seal [OF assms] by blast

theorem sealed_edits_apply_witness:
  "\<exists>c. ec_column_families c \<noteq> [] \<and> fst (Seal (column_families w_fs1) c) = OK \<and>
     fst (Apply (column_families w_fs1) (snd (Seal (column_families w_fs1) c))) = OK"
proof -
  let ?c = "after_edit (the_edit w_log_edit w_fs1) new_EditCollector"
  have "ec_ok ?c" by (intro ec_ok_after_edit) (simp_all add: takes_new)
  moreover have "collectors_fit (ec_column_families ?c) (column_families w_fs1)"
    using w_log_edit_ok(2)
    by (auto simp: families_after_new_edit collectors_fit_def added_ok_def edit_fits_def number_files_def)
  moreover have S: "Seal (column_families w_fs1) ?c = (OK, ?c\<lparr>ec_sealed := True\<rparr>)"
    using w_log_edit_ok(3) by (auto simp: Seal_new_edit accepts_def Let_def split: option.splits)
  ultimately have "fst (Apply (column_families w_fs1) (?c\<lparr>ec_sealed := True\<rparr>)) = OK"
    using sealed_edits_apply [OF w_fs1_ok(3)] by blast
  then show ?thesis using S by (intro exI [of _ ?c]) (simp add: families_after_new_edit)
qed

text \<open>
  C11. Logging an edit is all or nothing in memory: it succeeds exactly if the edit is
  consistent with the files (no added file known, every deleted file live), the manifest is
  open and both the append and the sync succeed; then the record is in the manifest and every
  file is as the edit says. Otherwise no file changes.
\<close>

theorem log_and_apply_atomic:
  assumes "families_ok (column_families fs)" "edit_fits e (column_families fs)"
    and "LogAndApply add sync e fs = (st, fs')"
  shows "(st = OK \<longleftrightarrow> accepts e fs \<and> manifest fs \<noteq> None \<and> add = OK \<and> sync = OK) \<and>
    (if st = OK
     then manifest fs' = Some (the (manifest fs) @ [VersionEdit_EncodeTo (SetNextFileNumber (next_file_number fs) e) []]) \<and>
       (\<forall>cf n. find_in (column_families fs') cf n =
          batch_find [(ve_column_family_id e, edit_of e)] (column_families fs) cf n)
     else column_families fs' = column_families fs)"
proof -
  have "st = OK \<longleftrightarrow> accepts e fs \<and> manifest fs \<noteq> None \<and> add = OK \<and> sync = OK"
    using LogAndApply_OK_iff [OF assms(1,2), of add sync] assms(3) by simp
  moreover have "if st = OK
     then manifest fs' = Some (the (manifest fs) @ [VersionEdit_EncodeTo (SetNextFileNumber (next_file_number fs) e) []]) \<and>
       (\<forall>cf n. find_in (column_families fs') cf n =
          batch_find [(ve_column_family_id e, edit_of e)] (column_families fs) cf n)
     else column_families fs' = column_families fs"
    using assms by (cases rule: LogAndApply_cases) (simp_all add: the_edit_def)
  ultimately show ?thesis ..
qed

theorem log_and_apply_atomic_witness:
  "find_in (column_families w_fs2) 0 5 = batch_find [(0, edit_of w_log_edit)] (column_families w_fs1) 0 5"
  using log_and_apply_atomic [OF w_fs1_ok(3) w_log_edit_ok(2) w_log] by simp

text \<open>
  C1. Recovery: start a file set on empty families, write its manifest, and let it run through
  any sequence of logged edits, file number allocations, purges and manifest rewrites. Reading
  the manifest back into empty families then succeeds and restores exactly the live files of
  every family, with their persistent fields, and a file number not past the one in memory.
\<close>

theorem recovery_restores_live_files:
  assumes "fresh_families lv (column_families fs0)" "OpenManifest io n fs0 = (OK, fs1)"
    and "(evolves lv)\<^sup>*\<^sup>* fs1 fs" "manifest fs = Some recs"
    and "fresh_families lv (column_families fs0')" "keys (column_families fs0') = keys (column_families fs)"
  shows "\<exists>fs'. recover_log (map Record recs) fs0' = (OK, fs') \<and> next_file_number fs' \<le> next_file_number fs \<and>
     (\<forall>cf n. live_in (column_families fs') cf n = live_in (column_families fs) cf n)"
proof -
  have "manifest_ok lv fs1 \<and> column_families fs1 = column_families fs0"
    using assms(1) by (intro manifest_ok_OpenManifest [OF _ _ _ assms(2)])
      (auto simp: fresh_families_def families_keys_ok_def families_levels_def)
  then have "fileset_ok lv fs1" using assms(1) by (simp add: fileset_ok_def fresh_families_def)
  then have "fileset_ok lv fs" using fileset_ok_run [OF assms(3)] by blast
  then show ?thesis using fileset_ok_recovers assms(4-6) by blast
qed

theorem recovery_restores_live_files_witness:
  "\<exists>recs fs'. manifest w_fs2 = Some recs \<and> recover_log (map Record recs) w_fs0 = (OK, fs') \<and>
     live_in (column_families fs') 0 5 = Some (persistent (w_file 5 1))"
proof -
  have e: "evolves (\<lambda>_. 7) w_fs1 w_fs2"
    using w_log_edit_ok w_fresh_edit w_log by (intro evolves.log [of w_log_edit])
  from w_fs1_ok(3) w_log_edit_ok(2) w_log
  obtain recs where "manifest w_fs2 = Some recs" "keys (column_families w_fs2) = keys (column_families w_fs1)"
    by (cases rule: LogAndApply_cases) auto
  moreover from this have "keys (column_families w_fs0) = keys (column_families w_fs2)"
    by (simp only: w_fs1_ok w_fs0_families)
  ultimately show ?thesis
    using recovery_restores_live_files [OF w_fresh w_open r_into_rtranclp [of "evolves (\<lambda>_. 7)", OF e] _ w_fresh, of recs]
    unfolding w_live_5 [symmetric] by blast
qed

text \<open>
  C33. A corruption in the middle of the manifest goes unnoticed: when the log reader reports an
  error after some records, recovery returns what it returns for those records alone, with the
  same status, however many edits follow the damage.
\<close>

theorem manifest_corruption_silent:
  assumes "e \<noteq> OK"
  shows "recover_log (map Record rs @ Report e # evs) fs = recover_log (map Record rs) fs"
  using assms by (simp add: recover_log_def recover_edits_report)

theorem manifest_corruption_silent_witness:
  "recover_log [Report Corruption, Record [1, 2, 3]] w_fs0 = recover_log [] w_fs0"
  using manifest_corruption_silent [of Corruption "[]" "[Record [1, 2, 3]]" w_fs0] by simp

end
