(* ===== verification/File_Manager.thy ===== *)
theory File_Manager
  imports Recovery
begin

text \<open>
  The file manager of \<^verbatim>\<open>TitanDBImpl\<close> (\<^verbatim>\<open>db_impl.cc\<close>, \<^verbatim>\<open>blob_file_manager.h\<close>), through which flush,
  compaction and garbage collection create, install and delete blob files, and the background
  error of the database. The writer behind a handle is the content it has written. What the file
  system answers for a file, what the log answers and what the listeners make of an error is
  in \<open>manager_io\<close>.
\<close>

record TitanDB =
  blob_file_set :: BlobFileSet
  pending_outputs :: "u64 list"
  bg_error :: Status
  has_bg_error :: bool

record BlobFileHandle =
  hd_number :: u64
  hd_file :: bytes

record manager_io =
  io_create :: "u64 \<Rightarrow> Status"
  io_sync_file :: "u64 \<Rightarrow> Status"
  io_close_file :: "u64 \<Rightarrow> Status"
  io_delete :: "u64 \<Rightarrow> Status"
  io_log_add :: Status
  io_log_sync :: Status
  io_listeners :: "Status \<Rightarrow> Status"

definition new_TitanDB :: "BlobFileSet \<Rightarrow> TitanDB" where
  "new_TitanDB fs = \<lparr>blob_file_set = fs, pending_outputs = [], bg_error = OK, has_bg_error = False\<rparr>"

definition SetBGError :: "manager_io \<Rightarrow> Status \<Rightarrow> TitanDB \<Rightarrow> Status \<times> TitanDB" where
  "SetBGError io s db =
     (if ok s then (s, db)
      else
        let bg_err = io_listeners io s
        in (bg_err, if \<not> ok bg_err then db\<lparr>bg_error := bg_err, has_bg_error := True\<rparr> else db))"

definition NewFile :: "manager_io \<Rightarrow> TitanDB \<Rightarrow> (Status + BlobFileHandle) \<times> TitanDB" where
  "NewFile io db =
     (let (number, fs) = NewFileNumber (blob_file_set db);
          db = db\<lparr>blob_file_set := fs\<rparr>;
          s = io_create io number
      in if \<not> ok s then (Inl s, db)
         else (Inr \<lparr>hd_number = number, hd_file = []\<rparr>, db\<lparr>pending_outputs := List.insert number (pending_outputs db)\<rparr>))"

text \<open>The loop of \<^verbatim>\<open>BatchFinishFiles\<close> that syncs and closes the files and fills the edit.\<close>

fun finish_loop :: "manager_io \<Rightarrow> (BlobFileMeta \<times> BlobFileHandle) list \<Rightarrow> VersionEdit \<Rightarrow> Status \<times> VersionEdit" where
  "finish_loop io [] e = (OK, e)"
| "finish_loop io ((f, h) # fhs) e =
     (let s = io_sync_file io (hd_number h);
          s = (if ok s then io_close_file io (hd_number h) else s)
      in if \<not> ok s then (s, e) else finish_loop io fhs (VersionEdit_AddBlobFile f e))"

definition BatchFinishFiles ::
  "manager_io \<Rightarrow> u32 \<Rightarrow> (BlobFileMeta \<times> BlobFileHandle) list \<Rightarrow> TitanDB \<Rightarrow> Status \<times> TitanDB" where
  "BatchFinishFiles io cf fhs db =
     (let (s, e) = finish_loop io fhs (SetColumnFamilyID cf new_VersionEdit)
      in if \<not> ok s then (s, db)
         else
           let (s, fs) = LogAndApply (io_log_add io) (io_log_sync io) e (blob_file_set db);
               db = db\<lparr>blob_file_set := fs\<rparr>;
               db = (if \<not> ok s then snd (SetBGError io s db) else db)
           in (s, db\<lparr>pending_outputs := filter (\<lambda>n. n \<notin> (hd_number \<circ> snd) ` set fhs) (pending_outputs db)\<rparr>))"

definition FinishFile :: "manager_io \<Rightarrow> u32 \<Rightarrow> BlobFileMeta \<Rightarrow> BlobFileHandle \<Rightarrow> TitanDB \<Rightarrow> Status \<times> TitanDB" where
  "FinishFile io cf f h db = BatchFinishFiles io cf [(f, h)] db"

definition BatchDeleteFiles :: "manager_io \<Rightarrow> BlobFileHandle list \<Rightarrow> TitanDB \<Rightarrow> Status \<times> TitanDB" where
  "BatchDeleteFiles io hs db =
     (foldl (\<lambda>s h. io_delete io (hd_number h)) OK hs,
      db\<lparr>pending_outputs := filter (\<lambda>n. n \<notin> hd_number ` set hs) (pending_outputs db)\<rparr>)"

definition DeleteFile :: "manager_io \<Rightarrow> BlobFileHandle \<Rightarrow> TitanDB \<Rightarrow> Status \<times> TitanDB" where
  "DeleteFile io h db = BatchDeleteFiles io [h] db"

text \<open>
  \<^verbatim>\<open>PurgeObsoleteFilesImpl\<close> (\<^verbatim>\<open>db_impl_files.cc\<close>): the status of a deletion is looked at only if an
  earlier one failed, so the result is always OK. The result has the deleted names, each once:
  manifests and blob files, with a flag for the former.
\<close>

definition PurgeObsoleteFilesImpl :: "u64 \<Rightarrow> TitanDB \<Rightarrow> Status \<times> TitanDB \<times> (bool \<times> u64) list" where
  "PurgeObsoleteFilesImpl oldest db =
     (let (fs, manifests, blobs) = BlobFileSet_GetObsoleteFiles oldest (blob_file_set db)
      in (OK, db\<lparr>blob_file_set := fs\<rparr>, remdups (map (Pair True) manifests @ map (Pair False) blobs)))"

section \<open>What installing files does\<close>

lemma finish_loop_spec:
  "finish_loop io fhs e = (s, e') \<Longrightarrow>
     (s = OK \<longleftrightarrow> (\<forall>(f, h) \<in> set fhs. io_sync_file io (hd_number h) = OK \<and> io_close_file io (hd_number h) = OK)) \<and>
     (s = OK \<longrightarrow> e' = e\<lparr>ve_added_files := ve_added_files e @ map fst fhs\<rparr>)"
  by (induction io fhs e rule: finish_loop.induct) (auto simp: Let_def VersionEdit_AddBlobFile_def ok_def split: if_splits)

definition adds_edit :: "u32 \<Rightarrow> BlobFileMeta list \<Rightarrow> VersionEdit" where
  "adds_edit cf fs = (SetColumnFamilyID cf new_VersionEdit)\<lparr>ve_added_files := fs\<rparr>"

lemma adds_edit_fields [simp]:
  "ve_column_family_id (adds_edit cf fs) = cf" "ve_added_files (adds_edit cf fs) = fs" "ve_deleted_files (adds_edit cf fs) = []"
  "ve_updated_discardable_size (adds_edit cf fs) = []"
  by (simp_all add: adds_edit_def SetColumnFamilyID_def new_VersionEdit_def)

lemma finish_loop_adds:
  "finish_loop io fhs (SetColumnFamilyID cf new_VersionEdit) = (OK, e) \<Longrightarrow> e = adds_edit cf (map fst fhs)"
  by (drule finish_loop_spec) (simp add: adds_edit_def SetColumnFamilyID_def new_VersionEdit_def)

lemma edit_of_adds [simp]:
  "cfc_added_files (edit_of (adds_edit cf fs)) = number_files fs" "cfc_deleted_files (edit_of (adds_edit cf fs)) = []"
  "cfc_updated_discardable_size (edit_of (adds_edit cf fs)) = []"
  by (simp_all add: collect_def)

lemma Apply_adds: "CFEditCollector_Apply (edit_of (adds_edit cf fs)) s = (OK, fst (ComputeGCScore (fold AddBlobFile fs s)))"
proof -
  have "fold (\<lambda>(n, f). AddBlobFile f) (number_files fs) s = fold AddBlobFile fs s" for s
    by (induction fs arbitrary: s) (simp_all add: number_files_def)
  then show ?thesis by (simp add: CFEditCollector_Apply_def)
qed

text \<open>A logged edit was acceptable, and its family is what applying it makes.\<close>

lemma LogAndApply_one:
  fixes e :: VersionEdit and fs :: BlobFileSet
  defines "cf \<equiv> ve_column_family_id e" and "fam \<equiv> column_families fs"
  assumes "LogAndApply add sync e fs = (OK, fs')"
  shows "distinct (map file_number (ve_added_files e)) \<and> distinct (keys (ve_deleted_files e)) \<and> next_file_number fs' = next_file_number fs \<and>
    (\<forall>s. map_of fam cf = Some s \<longrightarrow> CFEditCollector_Seal (edit_of e) s = OK \<and> fst (CFEditCollector_Apply (edit_of e) s) = OK) \<and>
    (\<forall>k. map_of (column_families fs') k = (if k = cf then map_option (snd \<circ> CFEditCollector_Apply (edit_of e)) (map_of fam cf) else map_of fam k))"
proof -
  let ?c = "after_edit (the_edit e fs) new_EditCollector"
  have "fst (AddEdit (the_edit e fs) new_EditCollector) = OK"
    using assms(3) by (auto simp: LogAndApply_def the_edit_def [symmetric] Let_def ok_def split: prod.splits if_splits)
  then have "AddEdit (the_edit e fs) new_EditCollector = (OK, snd (AddEdit (the_edit e fs) new_EditCollector))" by (metis prod.collapse)
  then have A: "AddEdit (the_edit e fs) new_EditCollector = (OK, ?c)" and t: "takes (the_edit e fs) new_EditCollector"
    using AddEdit_iff [of new_EditCollector "the_edit e fs"] by simp_all
  have "fst (Seal fam ?c) = OK"
    using assms(3) A by (auto simp: fam_def LogAndApply_def the_edit_def [symmetric] Let_def ok_def split: prod.splits if_splits)
  then have seal: "\<forall>s. map_of fam cf = Some s \<longrightarrow> CFEditCollector_Seal (edit_of e) s = OK"
    and S: "Seal fam ?c = (OK, ?c\<lparr>ec_sealed := True\<rparr>)"
    by (auto simp: cf_def Seal_new_edit Let_def ok_def split: if_splits option.splits)
  obtain st fam' where f: "Apply_families [(cf, edit_of e)] fam = (st, fam')" by fastforce
  have "st = OK \<and> column_families fs' = fam' \<and> next_file_number fs' = next_file_number fs"
    using assms(3) by (auto simp del: Apply_families.simps simp add: LogAndApply_def the_edit_def [symmetric] A S [unfolded fam_def] Apply_def
        families_after_new_edit f [unfolded fam_def cf_def] Let_def ok_def split: option.splits if_splits)
  moreover have "(\<forall>s. map_of fam cf = Some s \<longrightarrow> fst (CFEditCollector_Apply (edit_of e) s) = OK) \<and>
      (\<forall>k. map_of fam' k = (if k = cf then map_option (snd \<circ> CFEditCollector_Apply (edit_of e)) (map_of fam cf) else map_of fam k))" if "st = OK"
    using f that by (cases "map_of fam cf") (auto simp: map_of_alter Let_def ok_def split: prod.splits if_splits)
  ultimately show ?thesis using seal t by (simp add: takes_new)
qed

lemma LogAndApply_adds:
  assumes "LogAndApply add sync (adds_edit cf ms) fs = (OK, fs')"
  shows "(\<forall>k. map_of (column_families fs') k = (if k = cf then map_option (\<lambda>s. fst (ComputeGCScore (fold AddBlobFile ms s)))
      (map_of (column_families fs) cf) else map_of (column_families fs) k)) \<and>
    next_file_number fs' = next_file_number fs \<and> distinct (map file_number ms) \<and>
    (\<forall>s f. map_of (column_families fs) cf = Some s \<longrightarrow> f \<in> set ms \<longrightarrow> FindFile s (file_number f) = None)"
  using LogAndApply_one [OF assms] by (auto simp: Apply_adds Seal_OK_iff comp_def)

definition all_synced :: "manager_io \<Rightarrow> (BlobFileMeta \<times> BlobFileHandle) list \<Rightarrow> bool" where
  "all_synced io fhs \<longleftrightarrow>
     (\<forall>(f, h) \<in> set fhs. io_sync_file io (hd_number h) = OK \<and> io_close_file io (hd_number h) = OK)"

lemma BatchFinishFiles_cases:
  assumes "BatchFinishFiles io cf fhs db = (st, db')"
  obtains (unsynced) "\<not> all_synced io fhs" "st \<noteq> OK" "db' = db"
  | (logged) fs' where "all_synced io fhs"
      "LogAndApply (io_log_add io) (io_log_sync io) (adds_edit cf (map fst fhs)) (blob_file_set db) = (st, fs')"
      "db' = (if ok st then db else snd (SetBGError io st (db\<lparr>blob_file_set := fs'\<rparr>)))\<lparr>blob_file_set := fs',
        pending_outputs := filter (\<lambda>n. n \<notin> (hd_number \<circ> snd) ` set fhs) (pending_outputs db)\<rparr>"
proof -
  obtain s0 e where L: "finish_loop io fhs (SetColumnFamilyID cf new_VersionEdit) = (s0, e)" by fastforce
  have s0: "s0 = OK \<longleftrightarrow> all_synced io fhs" using finish_loop_spec [OF L] by (simp add: all_synced_def)
  show thesis
  proof (cases "s0 = OK")
    case False
    then show thesis using assms s0 by (intro that(1)) (simp_all add: BatchFinishFiles_def L ok_def)
  next
    case True
    then have e: "e = adds_edit cf (map fst fhs)" using finish_loop_adds L by simp
    obtain fs' where la: "LogAndApply (io_log_add io) (io_log_sync io) (adds_edit cf (map fst fhs)) (blob_file_set db) = (st, fs')"
      using assms True by (auto simp: BatchFinishFiles_def L e Let_def split: prod.splits)
    show thesis
      using assms True s0 by (intro that(2) [OF _ la]) (auto simp: BatchFinishFiles_def L e la Let_def SetBGError_def)
  qed
qed

section \<open>Properties\<close>

text \<open>
  C15. Installing a batch of finished files: it succeeds exactly if every file can be synced and
  closed, no file is known to the family, the manifest is open and the edit can be appended and
  synced. Then the family has exactly its old files and the new ones with their metadata, and
  the files are no longer pending. If a sync or close fails nothing changes at all; if the
  edit cannot be logged no file is installed, and a background error is set unless the listeners
  clear it.
\<close>

theorem finish_files_install:
  assumes "families_ok (column_families (blob_file_set db))"
    and "edit_fits (adds_edit cf (map fst fhs)) (column_families (blob_file_set db))"
    and "BatchFinishFiles io cf fhs db = (st, db')"
  shows "(st = OK \<longleftrightarrow>
      all_synced io fhs \<and> accepts (adds_edit cf (map fst fhs)) (blob_file_set db) \<and> manifest (blob_file_set db) \<noteq> None \<and>
      io_log_add io = OK \<and> io_log_sync io = OK) \<and>
    (st = OK \<longrightarrow>
      (\<forall>s n. GetBlobStorage (blob_file_set db) cf = Some s \<longrightarrow> find_in (column_families (blob_file_set db')) cf n =
         (case map_of (number_files (map fst fhs)) n of Some f \<Rightarrow> Some f | None \<Rightarrow> FindFile s n)) \<and>
      set (pending_outputs db') = set (pending_outputs db) - (hd_number \<circ> snd) ` set fhs) \<and>
    (st \<noteq> OK \<longrightarrow> column_families (blob_file_set db') = column_families (blob_file_set db)) \<and>
    (st \<noteq> OK \<longrightarrow> db' = db \<or> io_listeners io st = OK \<or> has_bg_error db' \<and> bg_error db' = io_listeners io st)"
proof -
  let ?e = "adds_edit cf (map fst fhs)" and ?fs = "blob_file_set db"
  from assms(3) show ?thesis
  proof (cases rule: BatchFinishFiles_cases)
    case (logged fs')
    have iff: "st = OK \<longleftrightarrow> accepts ?e ?fs \<and> manifest ?fs \<noteq> None \<and> io_log_add io = OK \<and> io_log_sync io = OK"
      using LogAndApply_OK_iff [OF assms(1,2), of "io_log_add io" "io_log_sync io"] logged(2) by simp
    from assms(1,2) logged(2) show ?thesis
    proof (cases rule: LogAndApply_cases)
      case (applied recs)
      have "discard [] n = id" for n by (simp add: discard_def fun_eq_iff)
      then have "find_in (column_families fs') cf n = (case map_of (number_files (map fst fhs)) n of Some f \<Rightarrow> Some f | None \<Rightarrow> FindFile s n)"
        if "GetBlobStorage ?fs cf = Some s" for s n
        using applied(7) that by (simp add: batch_find_def apply_spec_def GetBlobStorage_def option.map_id split: option.split)
      then show ?thesis using iff applied(1) logged(1) by (simp add: logged(3) set_diff_eq)
    next
      case failed
      then show ?thesis using iff by (auto simp: logged(3) SetBGError_def Let_def ok_def)
    qed
  qed auto
qed

definition w_manager_io :: manager_io where
  "w_manager_io = \<lparr>io_create = \<lambda>_. OK, io_sync_file = \<lambda>_. OK, io_close_file = \<lambda>_. OK, io_delete = \<lambda>_. OK,
     io_log_add = OK, io_log_sync = OK, io_listeners = id\<rparr>"

theorem finish_files_install_witness:
  "fst (FinishFile w_manager_io 0 (w_file 5 1) \<lparr>hd_number = 5, hd_file = []\<rparr> (new_TitanDB w_fs1)) = OK"
proof -
  let ?db = "new_TitanDB w_fs1" and ?fhs = "[(w_file 5 1, \<lparr>hd_number = 5, hd_file = []\<rparr>)]"
  have e: "adds_edit 0 (map fst ?fhs) = w_log_edit"
    by (simp add: adds_edit_def w_log_edit_def VersionEdit_AddBlobFile_def SetColumnFamilyID_def new_VersionEdit_def)
  have "families_ok (column_families (blob_file_set ?db))" "edit_fits (adds_edit 0 (map fst ?fhs)) (column_families (blob_file_set ?db))"
    unfolding e using w_fs1_ok(3) w_log_edit_ok(2) by (simp_all add: new_TitanDB_def)
  note finish_files_install [OF this, of w_manager_io "fst (BatchFinishFiles w_manager_io 0 ?fhs ?db)" "snd (BatchFinishFiles w_manager_io 0 ?fhs ?db)"]
  moreover have "accepts (adds_edit 0 (map fst ?fhs)) (blob_file_set ?db)" "manifest (blob_file_set ?db) \<noteq> None"
    unfolding e using w_log_edit_ok(3) w_fs1_ok(1) by (auto simp: new_TitanDB_def manifest_ok_def)
  ultimately show ?thesis by (simp add: FinishFile_def all_synced_def w_manager_io_def)
qed

end
