(* ===== verification/Table_Builder.thy ===== *)
theory Table_Builder
  imports Db_Read Internal_Key File_Manager
begin

text \<open>
  \<^verbatim>\<open>TitanTableBuilder\<close> (\<^verbatim>\<open>table_builder.h/.cc\<close>) and its creation by \<^verbatim>\<open>TitanTableFactory\<close> (\<^verbatim>\<open>table_factory.cc\<close>):
  the builder of flushes and compactions, which moves large values into blob files, moves
  them back in fallback mode, and rewrites the values of merged files.

  The table builder of RocksDB underneath is given by its operations \<open>base_ops\<close>. The blob storage
  that the code holds by a weak pointer is the one in the database state; a pointer that is null
  where the code follows it makes the status \<open>Undefined\<close>. Counters of bytes and I/O that only feed
  statistics are left out, except \<^verbatim>\<open>bytes_read_\<close> and \<^verbatim>\<open>bytes_written_\<close>.
\<close>

record 'b base_ops =
  base_Add :: "bytes \<Rightarrow> bytes \<Rightarrow> 'b \<Rightarrow> 'b"
  base_status :: "'b \<Rightarrow> Status"
  base_Finish :: "'b \<Rightarrow> 'b"
  base_Abandon :: "'b \<Rightarrow> 'b"
  base_NumEntries :: "'b \<Rightarrow> u64"
  base_FileSize :: "'b \<Rightarrow> u64"
  base_NeedCompact :: "'b \<Rightarrow> bool"

record write_env =
  we_read :: read_env
  we_append :: append_io
  we_flush :: Status
  we_io :: manager_io

record 'b TitanTableBuilder =
  tb_status :: Status
  tb_cf_id :: u32
  tb_cf_options :: TitanCFOptions
  tb_base :: 'b
  tb_blob_handle :: "BlobFileHandle option"
  tb_blob_builder :: "BlobFileBuilder option"
  tb_finished_blobs :: "(BlobFileMeta \<times> BlobFileHandle) list"
  tb_merging_files :: "(u64 \<times> BlobFilePrefetcher) list"
  tb_encountered_files :: "(u64 \<times> BlobFileMeta option) list"
  tb_merge_low_level :: bool
  tb_target_level :: int
  tb_merge_level :: int
  tb_start_level :: int
  tb_bytes_read :: u64
  tb_bytes_written :: u64

definition put_storage :: "u32 \<Rightarrow> BlobStorage \<Rightarrow> TitanDB \<Rightarrow> TitanDB" where
  "put_storage cf s db =
     db\<lparr>blob_file_set := (blob_file_set db)\<lparr>column_families := AList.update cf s (column_families (blob_file_set db))\<rparr>\<rparr>"

abbreviation the_storage :: "u32 \<Rightarrow> TitanDB \<Rightarrow> BlobStorage option" where
  "the_storage cf db \<equiv> GetBlobStorage (blob_file_set db) cf"

definition TitanTableBuilder_status :: "'b base_ops \<Rightarrow> 'b TitanTableBuilder \<Rightarrow> Status" where
  "TitanTableBuilder_status ops tb =
     (let s = tb_status tb;
          s = (if ok s then base_status ops (tb_base tb) else s)
      in if ok s then (case tb_blob_builder tb of Some b \<Rightarrow> bb_status b | None \<Rightarrow> s) else s)"

abbreviation tb_ok :: "'b base_ops \<Rightarrow> 'b TitanTableBuilder \<Rightarrow> bool" where
  "tb_ok ops tb \<equiv> ok (TitanTableBuilder_status ops tb)"

section \<open>Blob files\<close>

definition FinishBlobFile :: "write_env \<Rightarrow> 'b base_ops \<Rightarrow> 'b TitanTableBuilder \<Rightarrow> TitanDB \<Rightarrow> 'b TitanTableBuilder \<times> TitanDB" where
  "FinishBlobFile env ops tb db =
     (case tb_blob_builder tb of
        None \<Rightarrow> (tb, db)
      | Some b \<Rightarrow>
          (let (_, b) = BlobFileBuilder_Finish (env_crc (we_read env)) (we_append env) (we_flush env) b;
               tb = tb\<lparr>tb_blob_builder := Some b\<rparr>
           in case tb_blob_handle tb of
                None \<Rightarrow> (tb\<lparr>tb_status := Undefined\<rparr>, db)
              | Some h \<Rightarrow>
                  if tb_ok ops tb then
                    let f = new_BlobFileMeta\<lparr>file_number := hd_number h, file_size := word_of_nat (length (bb_file b)),
                              file_entries := bb_num_entries b, file_level := word_of_int (tb_target_level tb),
                              smallest_key := bb_smallest_key b, largest_key := bb_largest_key b, file_type := kSorted\<rparr>;
                        f = transit kFlushOrCompactionOutput f
                    in (tb\<lparr>tb_finished_blobs := tb_finished_blobs tb @ [(f, h\<lparr>hd_file := bb_file b\<rparr>)],
                           tb_blob_handle := None, tb_blob_builder := None\<rparr>, db)
                  else
                    let (s, db) = DeleteFile (we_io env) h db
                    in (tb\<lparr>tb_status := s, tb_blob_handle := None\<rparr>, db)))"

text \<open>The start of \<^verbatim>\<open>AddBlob\<close>: a blob file to write to, the current one or a new one.\<close>

definition ensure_blob_builder :: "write_env \<Rightarrow> 'b TitanTableBuilder \<Rightarrow> TitanDB \<Rightarrow> 'b TitanTableBuilder \<times> TitanDB" where
  "ensure_blob_builder env tb db =
     (case tb_blob_builder tb of
        Some b \<Rightarrow> (tb, db)
      | None \<Rightarrow>
          (case NewFile (we_io env) db of
             (Inl s, db) \<Rightarrow> (tb\<lparr>tb_status := s\<rparr>, db)
           | (Inr h, db) \<Rightarrow>
               (tb\<lparr>tb_status := OK, tb_blob_handle := Some h,
                   tb_blob_builder := Some (new_BlobFileBuilder (we_append env) (tb_cf_options tb))\<rparr>, db)))"

definition count_live :: "u32 \<Rightarrow> bytes \<Rightarrow> TitanDB \<Rightarrow> TitanDB" where
  "count_live cf val db =
     (case the_storage cf db of
        None \<Rightarrow> db
      | Some s \<Rightarrow> put_storage cf (s\<lparr>stats := AddStats LIVE_BLOB_SIZE (word_of_nat (length val)) (stats s)\<rparr>) db)"

definition AddBlob ::
  "write_env \<Rightarrow> 'b base_ops \<Rightarrow> bytes \<Rightarrow> bytes \<Rightarrow> 'b TitanTableBuilder \<Rightarrow> TitanDB \<Rightarrow> bytes \<times> 'b TitanTableBuilder \<times> TitanDB" where
  "AddBlob env ops key val tb db =
     (if \<not> tb_ok ops tb then ([], tb, db)
      else
        let (tb, db) = ensure_blob_builder env tb db
        in if \<not> ok (tb_status tb) then ([], tb, db)
           else
             (case (tb_blob_builder tb, tb_blob_handle tb) of
                (Some b, Some h) \<Rightarrow>
                  (let db = count_live (tb_cf_id tb) val db;
                       r = \<lparr>rec_key = key, rec_value = val, only_value = level_merge (tb_cf_options tb)\<rparr>;
                       (bh, b) = BlobFileBuilder_Add (env_libs (we_read env)) (env_crc (we_read env)) (we_append env) r
                                   \<lparr>bh_offset = 0, bh_size = 0\<rparr> b;
                       tb = tb\<lparr>tb_blob_builder := Some b,
                               tb_bytes_written := tb_bytes_written tb + word_of_nat (length key + length val + BlobRecord_size r)\<rparr>
                   in if tb_ok ops tb then
                        let v = BlobIndex_EncodeTo \<lparr>bi_file_number = hd_number h, blob_handle = bh\<rparr> [];
                            (tb, db) = (if word_of_nat (length (bb_file b)) \<ge> blob_file_target_size (tb_cf_options tb)
                                        then FinishBlobFile env ops tb db else (tb, db))
                        in (v, tb, db)
                      else ([], tb, db))
              | _ \<Rightarrow> ([], tb\<lparr>tb_status := Undefined\<rparr>, db)))"
section \<open>Adding entries\<close>

definition ShouldMerge :: "'b TitanTableBuilder \<Rightarrow> BlobFileMeta option \<Rightarrow> bool" where
  "ShouldMerge tb file =
     (case file of
        None \<Rightarrow> False
      | Some f \<Rightarrow>
          file_type f = kSorted \<and>
          (tb_target_level tb \<ge> tb_merge_level tb \<and> sint (file_level f) < tb_target_level tb \<or>
           file_state f = kToMerge \<or> file_state f = kToGC))"

definition base_add :: "'b base_ops \<Rightarrow> bytes \<Rightarrow> bytes \<Rightarrow> 'b TitanTableBuilder \<Rightarrow> 'b TitanTableBuilder" where
  "base_add ops key val tb = tb\<lparr>tb_base := base_Add ops key val (tb_base tb)\<rparr>"

text \<open>The branch for fallback mode: the value of a blob index goes back into the table.\<close>

definition Add_fallback ::
  "write_env \<Rightarrow> 'b base_ops \<Rightarrow> ParsedInternalKey \<Rightarrow> bytes \<Rightarrow> bytes \<Rightarrow> 'b TitanTableBuilder \<Rightarrow> blob_cache option \<Rightarrow> TitanDB
     \<Rightarrow> 'b TitanTableBuilder \<times> blob_cache option \<times> TitanDB" where
  "Add_fallback env ops ikey key val tb cache db =
     (case BlobIndex_DecodeFrom val of
        Inl s \<Rightarrow> (tb\<lparr>tb_status := s\<rparr>, cache, db)
      | Inr (index, _) \<Rightarrow>
          (case the_storage (tb_cf_id tb) db of
             None \<Rightarrow> (tb\<lparr>tb_status := Undefined\<rparr>, cache, db)
           | Some storage \<Rightarrow>
               (let e = we_read env;
                    (r, cache, storage) = BlobStorage_Get (env_libs e) (env_crc e) (env_open e) (env_building e) index new_BlobRecord
                                            cache storage;
                    db = put_storage (tb_cf_id tb) storage db
                in case r of
                     Inr rec \<Rightarrow>
                       (base_add ops (AppendInternalKey [] (ikey\<lparr>ik_type := kTypeValue\<rparr>)) (rec_value rec)
                          (tb\<lparr>tb_bytes_read := tb_bytes_read tb + word_of_nat (BlobRecord_size rec)\<rparr>), cache, db)
                   | Inl _ \<Rightarrow> (base_add ops key val tb, cache, db))))"

text \<open>The branch that separates a large value.\<close>

definition Add_separate ::
  "write_env \<Rightarrow> 'b base_ops \<Rightarrow> ParsedInternalKey \<Rightarrow> bytes \<Rightarrow> 'b TitanTableBuilder \<Rightarrow> TitanDB \<Rightarrow> 'b TitanTableBuilder \<times> TitanDB" where
  "Add_separate env ops ikey val tb db =
     (let (index_value, tb, db) = AddBlob env ops (user_key ikey) val tb db
      in (if tb_ok ops tb then base_add ops (AppendInternalKey [] (ikey\<lparr>ik_type := kTypeBlobIndex\<rparr>)) index_value tb else tb, db))"

text \<open>
  The file of an index: the code caches a shared pointer, through which it sees the current
  state of the file as long as the storage has it.
\<close>

definition encounter :: "u64 \<Rightarrow> 'b TitanTableBuilder \<Rightarrow> TitanDB \<Rightarrow> BlobFileMeta option \<times> 'b TitanTableBuilder" where
  "encounter n tb db =
     (case map_of (tb_encountered_files tb) n of
        None \<Rightarrow>
          (case the_storage (tb_cf_id tb) db of
             None \<Rightarrow> (None, tb\<lparr>tb_status := Undefined\<rparr>)
           | Some storage \<Rightarrow>
               (FindFile storage n, tb\<lparr>tb_encountered_files := emplace n (FindFile storage n) (tb_encountered_files tb)\<rparr>))
      | Some None \<Rightarrow> (None, tb)
      | Some (Some f) \<Rightarrow>
          (case Option.bind (the_storage (tb_cf_id tb) db) (\<lambda>storage. FindFile storage n) of
             Some g \<Rightarrow> (Some g, tb)
           | None \<Rightarrow> (Some f, tb)))"

definition merging_prefetcher ::
  "write_env \<Rightarrow> u64 \<Rightarrow> 'b TitanTableBuilder \<Rightarrow> TitanDB \<Rightarrow> (Status + BlobFilePrefetcher) \<times> 'b TitanTableBuilder \<times> TitanDB" where
  "merging_prefetcher env n tb db =
     (case map_of (tb_merging_files tb) n of
        Some pf \<Rightarrow> (Inr pf, tb, db)
      | None \<Rightarrow>
          (case the_storage (tb_cf_id tb) db of
             None \<Rightarrow> (Inl Undefined, tb\<lparr>tb_status := Undefined\<rparr>, db)
           | Some storage \<Rightarrow>
               (let (r, storage) = BlobStorage_NewPrefetcher (env_crc (we_read env)) (env_open (we_read env)) n storage;
                    db = put_storage (tb_cf_id tb) storage db
                in case r of
                     Inl s \<Rightarrow> (Inl s, tb\<lparr>tb_status := s\<rparr>, db)
                   | Inr pf \<Rightarrow> (Inr pf, tb\<lparr>tb_merging_files := emplace n pf (tb_merging_files tb)\<rparr>, db))))"

text \<open>The branch of a level merge: the value moves to a new blob file if its file is to be merged.\<close>

definition Add_merge ::
  "write_env \<Rightarrow> 'b base_ops \<Rightarrow> ParsedInternalKey \<Rightarrow> bytes \<Rightarrow> bytes \<Rightarrow> 'b TitanTableBuilder \<Rightarrow> blob_cache option \<Rightarrow> TitanDB
     \<Rightarrow> 'b TitanTableBuilder \<times> blob_cache option \<times> TitanDB" where
  "Add_merge env ops ikey key val tb cache db =
     (case BlobIndex_DecodeFrom val of
        Inl s \<Rightarrow> (tb\<lparr>tb_status := s\<rparr>, cache, db)
      | Inr (index, _) \<Rightarrow>
          (let (file, tb) = encounter (bi_file_number index) tb db
           in if tb_status tb = Undefined then (tb, cache, db)
              else if ShouldMerge tb file then
                (case merging_prefetcher env (bi_file_number index) tb db of
                   (Inl s, tb, db) \<Rightarrow> (base_add ops key val tb, cache, db)
                 | (Inr pf, tb, db) \<Rightarrow>
                     (let (r, cache, pf, _) = BlobFilePrefetcher_Get (env_libs (we_read env)) (env_crc (we_read env)) pf
                                                (blob_handle index) new_BlobRecord cache;
                          tb = tb\<lparr>tb_merging_files := AList.update (bi_file_number index) pf (tb_merging_files tb)\<rparr>
                      in case r of
                           Inl s \<Rightarrow> (base_add ops key val tb, cache, db)
                         | Inr rec \<Rightarrow>
                             (let (index_value, tb, db) = AddBlob env ops (user_key ikey) (rec_value rec) tb db
                              in if tb_ok ops tb
                                 then (base_add ops (AppendInternalKey [] (ikey\<lparr>ik_type := kTypeBlobIndex\<rparr>)) index_value tb, cache, db)
                                 else (base_add ops key val tb, cache, db))))
              else (base_add ops key val tb, cache, db)))"

definition TitanTableBuilder_Add ::
  "write_env \<Rightarrow> 'b base_ops \<Rightarrow> bytes \<Rightarrow> bytes \<Rightarrow> 'b TitanTableBuilder \<Rightarrow> blob_cache option \<Rightarrow> TitanDB
     \<Rightarrow> 'b TitanTableBuilder \<times> blob_cache option \<times> TitanDB" where
  "TitanTableBuilder_Add env ops key val tb cache db =
     (if \<not> tb_ok ops tb then (tb, cache, db)
      else
        (case ParseInternalKey key of
           None \<Rightarrow> (tb\<lparr>tb_status := Corruption\<rparr>, cache, db)
         | Some ikey \<Rightarrow>
             if ik_type ikey = kTypeBlobIndex \<and> blob_run_mode (tb_cf_options tb) = kFallback
             then Add_fallback env ops ikey key val tb cache db
             else if ik_type ikey = kTypeValue \<and> word_of_nat (length val) \<ge> min_blob_size (tb_cf_options tb) \<and>
                     blob_run_mode (tb_cf_options tb) = kRunNormal
             then let (tb, db) = Add_separate env ops ikey val tb db in (tb, cache, db)
             else if ik_type ikey = kTypeBlobIndex \<and> level_merge (tb_cf_options tb) \<and>
                     (tb_target_level tb \<ge> tb_merge_level tb \<or> tb_merge_low_level tb) \<and>
                     blob_run_mode (tb_cf_options tb) = kRunNormal
             then Add_merge env ops ikey key val tb cache db
             else (base_add ops key val tb, cache, db)))"

section \<open>The end of a table\<close>

definition TitanTableBuilder_Finish ::
  "write_env \<Rightarrow> 'b base_ops \<Rightarrow> 'b TitanTableBuilder \<Rightarrow> TitanDB \<Rightarrow> Status \<times> 'b TitanTableBuilder \<times> TitanDB" where
  "TitanTableBuilder_Finish env ops tb db =
     (let tb = tb\<lparr>tb_base := base_Finish ops (tb_base tb)\<rparr>;
          (tb, db) = FinishBlobFile env ops tb db
      in if tb_status tb = Undefined then (Undefined, tb, db)
         else
           let (s, db) = BatchFinishFiles (we_io env) (tb_cf_id tb) (tb_finished_blobs tb) db;
               tb = tb\<lparr>tb_status := s\<rparr>
           in (TitanTableBuilder_status ops tb, tb, db))"

definition TitanTableBuilder_Abandon ::
  "write_env \<Rightarrow> 'b base_ops \<Rightarrow> 'b TitanTableBuilder \<Rightarrow> TitanDB \<Rightarrow> 'b TitanTableBuilder \<times> TitanDB" where
  "TitanTableBuilder_Abandon env ops tb db =
     (let tb = tb\<lparr>tb_base := base_Abandon ops (tb_base tb)\<rparr>
      in case tb_blob_builder tb of
           None \<Rightarrow> (tb, db)
         | Some b \<Rightarrow>
             (case tb_blob_handle tb of
                None \<Rightarrow> (tb\<lparr>tb_status := Undefined\<rparr>, db)
              | Some h \<Rightarrow>
                  (let (s, db) = DeleteFile (we_io env) h db
                   in (tb\<lparr>tb_status := s, tb_blob_handle := None\<rparr>, db))))"

definition TitanTableBuilder_NumEntries :: "'b base_ops \<Rightarrow> 'b TitanTableBuilder \<Rightarrow> u64" where
  "TitanTableBuilder_NumEntries ops tb = base_NumEntries ops (tb_base tb)"

definition TitanTableBuilder_FileSize :: "'b base_ops \<Rightarrow> 'b TitanTableBuilder \<Rightarrow> u64" where
  "TitanTableBuilder_FileSize ops tb = base_FileSize ops (tb_base tb)"

definition TitanTableBuilder_NeedCompact :: "'b base_ops \<Rightarrow> 'b TitanTableBuilder \<Rightarrow> bool" where
  "TitanTableBuilder_NeedCompact ops tb = base_NeedCompact ops (tb_base tb)"

section \<open>The factory\<close>

text \<open>The constructor asks the storage whether low levels are to be collected; without a storage it follows a null pointer.\<close>

definition new_TitanTableBuilder :: "u32 \<Rightarrow> TitanCFOptions \<Rightarrow> 'b \<Rightarrow> int \<Rightarrow> int \<Rightarrow> int \<Rightarrow> BlobStorage \<Rightarrow> 'b TitanTableBuilder" where
  "new_TitanTableBuilder cf opts base merge target start storage =
     \<lparr>tb_status = OK, tb_cf_id = cf, tb_cf_options = opts, tb_base = base, tb_blob_handle = None, tb_blob_builder = None,
      tb_finished_blobs = [], tb_merging_files = [], tb_encountered_files = [], tb_merge_low_level = ShouldGCLowLevel storage,
      tb_target_level = target, tb_merge_level = merge, tb_start_level = start, tb_bytes_read = 0, tb_bytes_written = 0\<rparr>"

definition NewTableBuilder ::
  "TitanCFOptions \<Rightarrow> TitanBlobRunMode \<Rightarrow> u32 \<Rightarrow> int \<Rightarrow> int \<Rightarrow> 'b \<Rightarrow> TitanDB \<Rightarrow> 'b TitanTableBuilder option" where
  "NewTableBuilder opts mode cf level start base db =
     (let opts = opts\<lparr>blob_run_mode := mode\<rparr>;
          merge_level = max 1 (int (num_levels opts) - 2);
          merge_level = (if \<not> lazy_merge opts \<and> merge_level \<noteq> 1 then 0 else merge_level)
      in map_option (new_TitanTableBuilder cf opts base merge_level level start) (the_storage cf db))"

end
