(* ===== verification/Value_Separation.thy ===== *)
theory Value_Separation
  imports Table_Builder
begin

text \<open>
  What the table builder makes of the values: the entries of the finished table stand for the same
  values as the entries that were added, through the blob files it has written. The
  description of the files that exist already is the one of the read path.
\<close>

section \<open>The blob files of a builder\<close>

text \<open>The files written so far: number, records and handles, the current one last.\<close>

type_synonym written = "(u64 \<times> BlobRecord list \<times> BlobHandle list) list"

definition records_ok :: "bool \<Rightarrow> BlobRecord list \<Rightarrow> bool" where
  "records_ok ov rs \<longleftrightarrow> (\<forall>r \<in> set rs. record_ok r \<and> only_value r = ov)"

definition being_built :: "write_env \<Rightarrow> TitanCFOptions \<Rightarrow> BlobRecord list \<Rightarrow> BlobHandle list \<Rightarrow> BlobFileBuilder \<Rightarrow> bool" where
  "being_built env cf rs hs b \<longleftrightarrow>
     add_records (env_libs (we_read env)) (env_crc (we_read env)) (we_append env) rs (new_BlobFileBuilder (we_append env) cf) = (hs, b) \<and>
     records_ok (level_merge cf) rs"

definition finished_as :: "write_env \<Rightarrow> TitanCFOptions \<Rightarrow> int \<Rightarrow> BlobFileMeta \<times> BlobFileHandle \<Rightarrow> u64 \<times> BlobRecord list \<times> BlobHandle list \<Rightarrow> bool" where
  "finished_as env cf level fh d \<longleftrightarrow>
     (case (fh, d) of ((f, h), (n, rs, hs)) \<Rightarrow>
        hd_number h = n \<and> file_number f = n \<and> file_size f = word_of_nat (length (hd_file h)) \<and> file_type f = kSorted \<and>
        file_state f = kPendingLSM \<and> file_level f = word_of_int level \<and>
        (\<exists>b b'. being_built env cf rs hs b \<and> hd_file h = bb_file b' \<and>
           BlobFileBuilder_Finish (env_crc (we_read env)) (we_append env) (we_flush env) b = (OK, b')))"

definition tb_files :: "write_env \<Rightarrow> 'b TitanTableBuilder \<Rightarrow> written \<Rightarrow> bool" where
  "tb_files env tb R \<longleftrightarrow>
     (\<exists>F C. R = F @ C \<and> list_all2 (finished_as env (tb_cf_options tb) (tb_target_level tb)) (tb_finished_blobs tb) F \<and>
        (case (tb_blob_builder tb, tb_blob_handle tb) of
           (None, None) \<Rightarrow> C = []
         | (Some b, Some h) \<Rightarrow> \<exists>rs hs. C = [(hd_number h, rs, hs)] \<and> being_built env (tb_cf_options tb) rs hs b
         | _ \<Rightarrow> False))"

definition points_into :: "written \<Rightarrow> BlobIndex \<Rightarrow> BlobRecord \<Rightarrow> bool" where
  "points_into R idx r \<longleftrightarrow>
     (\<exists>rs hs i. (bi_file_number idx, rs, hs) \<in> set R \<and> i < length rs \<and> hs ! i = blob_handle idx \<and> rs ! i = r)"

lemma tb_files_irrelevant [simp]:
  "tb_files env (tb\<lparr>tb_status := s\<rparr>) R = tb_files env tb R" "tb_files env (tb\<lparr>tb_base := b\<rparr>) R = tb_files env tb R"
  "tb_files env (tb\<lparr>tb_bytes_read := n\<rparr>) R = tb_files env tb R" "tb_files env (tb\<lparr>tb_bytes_written := n\<rparr>) R = tb_files env tb R"
  "tb_files env (tb\<lparr>tb_merging_files := m\<rparr>) R = tb_files env tb R" "tb_files env (tb\<lparr>tb_encountered_files := m'\<rparr>) R = tb_files env tb R"
  "tb_files env (base_add ops k v tb) R = tb_files env tb R"
  by (simp_all add: tb_files_def base_add_def cong: option.case_cong)

lemma add_records_snoc:
  "add_records L Extend ap rs b = (hs, b') \<Longrightarrow>
     add_records L Extend ap (rs @ [r]) b =
       (case BlobFileBuilder_Add L Extend ap r \<lparr>bh_offset = 0, bh_size = 0\<rparr> b' of (h, b'') \<Rightarrow> (hs @ [h], b''))"
proof (induction rs arbitrary: b hs)
  case (Cons x xs)
  obtain h b1 where 1: "BlobFileBuilder_Add L Extend ap x \<lparr>bh_offset = 0, bh_size = 0\<rparr> b = (h, b1)" by fastforce
  obtain hs1 where "add_records L Extend ap xs b1 = (hs1, b')" "hs = h # hs1" using Cons.prems 1 by (auto split: prod.splits)
  then show ?case using Cons.IH [of b1 hs1] 1 by (auto split: prod.splits)
qed (auto split: prod.splits)

lemma length_add_records: "add_records L Extend ap rs b = (hs, b') \<Longrightarrow> length hs = length rs"
  by (induction rs arbitrary: b hs) (auto simp: split_beta Let_def)

lemma being_built_Add:
  assumes "being_built env cf rs hs b" "record_ok r" "only_value r = level_merge cf"
    and "BlobFileBuilder_Add (env_libs (we_read env)) (env_crc (we_read env)) (we_append env) r \<lparr>bh_offset = 0, bh_size = 0\<rparr> b = (h, b')"
  shows "being_built env cf (rs @ [r]) (hs @ [h]) b'"
  using assms add_records_snoc [of "env_libs (we_read env)" "env_crc (we_read env)" "we_append env" rs _ hs b r]
  by (auto simp: being_built_def records_ok_def)

section \<open>Finishing a blob file\<close>

text \<open>What an operation on the blob files leaves alone.\<close>

definition same_frame :: "'b TitanTableBuilder \<Rightarrow> 'b TitanTableBuilder \<Rightarrow> bool" where
  "same_frame tb tb' \<longleftrightarrow>
     tb_cf_id tb' = tb_cf_id tb \<and> tb_cf_options tb' = tb_cf_options tb \<and> tb_base tb' = tb_base tb \<and>
     tb_merging_files tb' = tb_merging_files tb \<and> tb_encountered_files tb' = tb_encountered_files tb \<and>
     tb_target_level tb' = tb_target_level tb \<and> tb_merge_level tb' = tb_merge_level tb \<and> tb_merge_low_level tb' = tb_merge_low_level tb"

lemma same_frame_trans: "same_frame a b \<Longrightarrow> same_frame b c \<Longrightarrow> same_frame a c"
  by (simp add: same_frame_def)

lemma tb_okD:
  assumes "tb_ok ops tb"
  shows "tb_status tb = OK" "base_status ops (tb_base tb) = OK" "tb_blob_builder tb = Some b \<Longrightarrow> bb_status b = OK"
  using assms by (auto simp: TitanTableBuilder_status_def Let_def ok_def split: if_splits option.splits)

lemma tb_ok_iff:
  "tb_ok ops tb \<longleftrightarrow> tb_status tb = OK \<and> base_status ops (tb_base tb) = OK \<and> (\<forall>b. tb_blob_builder tb = Some b \<longrightarrow> bb_status b = OK)"
  by (auto simp: TitanTableBuilder_status_def Let_def ok_def split: option.splits)

lemma FinishBlobFile_spec:
  assumes "tb_files env tb R" "tb_ok ops tb" "FinishBlobFile env ops tb db = (tb', db')" "tb_ok ops tb'"
  shows "tb_files env tb' R \<and> same_frame tb tb' \<and> db' = db \<and> tb_blob_builder tb' = None"
proof (cases "tb_blob_builder tb")
  case None
  then show ?thesis using assms by (simp add: FinishBlobFile_def same_frame_def)
next
  case (Some b)
  obtain h where h: "tb_blob_handle tb = Some h" using assms(1) Some by (auto simp: tb_files_def split: option.splits)
  obtain F rs hs where R: "R = F @ [(hd_number h, rs, hs)]" "being_built env (tb_cf_options tb) rs hs b"
    "list_all2 (finished_as env (tb_cf_options tb) (tb_target_level tb)) (tb_finished_blobs tb) F"
    using assms(1) Some h by (auto simp: tb_files_def)
  obtain s b' where f: "BlobFileBuilder_Finish (env_crc (we_read env)) (we_append env) (we_flush env) b = (s, b')" by fastforce
  have s: "s = bb_status b'" using f by (auto simp: BlobFileBuilder_Finish_def Let_def split: if_splits prod.splits)
  have ok: "s = OK"
  proof (rule ccontr)
    assume "s \<noteq> OK"
    then have "\<not> tb_ok ops (tb\<lparr>tb_blob_builder := Some b'\<rparr>)" by (simp add: tb_ok_iff s)
    then have "tb_blob_builder tb' = Some b'" using assms(3) Some h f by (auto simp: FinishBlobFile_def Let_def split: prod.splits)
    then show False using assms(4) \<open>s \<noteq> OK\<close> by (simp add: tb_ok_iff s)
  qed
  have "tb_ok ops (tb\<lparr>tb_blob_builder := Some b'\<rparr>)" using assms(2) ok s by (simp add: tb_ok_iff)
  then show ?thesis
    using assms(3) Some h f R ok
    by (auto simp: FinishBlobFile_def same_frame_def tb_files_def finished_as_def transit_def new_BlobFileMeta_def intro!: list_all2_appendI) blast
qed
section \<open>Writing a value\<close>

definition storage_frame :: "BlobStorage \<Rightarrow> BlobStorage \<Rightarrow> bool" where
  "storage_frame s s' \<longleftrightarrow>
     files s' = files s \<and> cf_options s' = cf_options s \<and> db_options s' = db_options s \<and> file_cache s' = file_cache s"

lemma storage_frame_parts:
  "storage_frame s s' \<Longrightarrow> FindFile s' = FindFile s \<and> keyless s' = keyless s \<and> file_cache s' = file_cache s"
  by (auto simp: storage_frame_def FindFile_def keyless_def fun_eq_iff)

lemma storage_frame_disk: "storage_frame s s' \<Longrightarrow> disk_ok env D s' cache = disk_ok env D s cache"
  by (drule storage_frame_parts) (simp add: disk_ok_def file_ok_def cong: option.case_cong)

lemma storage_frame_prefetcher: "storage_frame s s' \<Longrightarrow> prefetcher_ok env D s' n pf = prefetcher_ok env D s n pf"
  by (simp add: storage_frame_parts prefetcher_ok_def)

lemma the_storage_put [simp]:
  "the_storage k (put_storage cf s db) = (if k = cf then Some s else the_storage k db)"
  by (simp add: GetBlobStorage_def put_storage_def AList.update_conv')

lemma the_storage_NewFile: "NewFile io db = (r, db') \<Longrightarrow> the_storage cf db' = the_storage cf db"
  by (auto simp: NewFile_def NewFileNumber_def GetBlobStorage_def Let_def split: if_splits)

lemma count_live_frame:
  "the_storage cf db = Some s \<Longrightarrow> \<exists>s'. the_storage cf (count_live cf val db) = Some s' \<and> storage_frame s s'"
  by (simp add: count_live_def storage_frame_def)

lemma ensure_blob_builder_spec:
  assumes "tb_files env tb R" "tb_ok ops tb" "ensure_blob_builder env tb db = (tb', db')" "ok (tb_status tb')"
  shows "\<exists>R'. tb_files env tb' R' \<and> (\<forall>idx r. points_into R idx r \<longrightarrow> points_into R' idx r) \<and> same_frame tb tb' \<and>
    (\<forall>cf. the_storage cf db' = the_storage cf db) \<and> tb_blob_builder tb' \<noteq> None"
proof (cases "tb_blob_builder tb")
  case None
  then have R: "tb_blob_handle tb = None" "list_all2 (finished_as env (tb_cf_options tb) (tb_target_level tb)) (tb_finished_blobs tb) R"
    using assms(1) by (auto simp: tb_files_def split: option.splits)
  obtain h where n: "NewFile (we_io env) db = (Inr h, db')" and tb': "tb' = tb\<lparr>tb_status := OK, tb_blob_handle := Some h,
      tb_blob_builder := Some (new_BlobFileBuilder (we_append env) (tb_cf_options tb))\<rparr>"
    using assms(3,4) None by (auto simp: ensure_blob_builder_def NewFile_def Let_def split: prod.splits sum.splits if_splits)
  have "tb_files env tb' (R @ [(hd_number h, [], [])])"
    using R unfolding tb_files_def
    by (intro exI [of _ R] exI [of _ "[(hd_number h, [], [])]"]) (simp add: tb' being_built_def records_ok_def)
  moreover have "points_into (R @ [(hd_number h, [], [])]) idx r" if "points_into R idx r" for idx r
    using that by (auto simp: points_into_def)
  ultimately show ?thesis using the_storage_NewFile [OF n] by (auto simp: tb' same_frame_def)
next
  case (Some b)
  then show ?thesis using assms by (auto simp: ensure_blob_builder_def same_frame_def)
qed

text \<open>The index that comes back points to a record with the value, and no other index is invalidated.\<close>

lemma AddBlob_spec:
  assumes files: "tb_files env tb R" and ok: "tb_ok ops tb" "tb_ok ops tb'"
    and add: "AddBlob env ops key val tb db = (v, tb', db')"
    and r: "record_ok \<lparr>rec_key = key, rec_value = val, only_value = level_merge (tb_cf_options tb)\<rparr>"
    and s: "the_storage (tb_cf_id tb) db = Some s"
  shows "\<exists>R' s'. tb_files env tb' R' \<and> (\<forall>idx r. points_into R idx r \<longrightarrow> points_into R' idx r) \<and> same_frame tb tb' \<and>
    the_storage (tb_cf_id tb) db' = Some s' \<and> storage_frame s s' \<and>
    (\<exists>idx r. DecodeInto BlobIndex_DecodeFrom v = Inr idx \<and> points_into R' idx r \<and> rec_value r = val)"
proof -
  let ?r = "\<lparr>rec_key = key, rec_value = val, only_value = level_merge (tb_cf_options tb)\<rparr>"
  obtain tb1 db1 where e: "ensure_blob_builder env tb db = (tb1, db1)" by fastforce
  have st1: "ok (tb_status tb1)" using add ok(1) e tb_okD(1) [OF ok(2)] by (auto simp: AddBlob_def split: if_splits)
  obtain R1 where R1: "tb_files env tb1 R1" "\<And>idx r. points_into R idx r \<Longrightarrow> points_into R1 idx r" "same_frame tb tb1"
    "\<And>cf. the_storage cf db1 = the_storage cf db" "tb_blob_builder tb1 \<noteq> None"
    using ensure_blob_builder_spec [OF files ok(1) e st1] by blast
  then obtain b h F rs hs where b: "tb_blob_builder tb1 = Some b" "tb_blob_handle tb1 = Some h" "R1 = F @ [(hd_number h, rs, hs)]"
    "being_built env (tb_cf_options tb) rs hs b"
    "list_all2 (finished_as env (tb_cf_options tb) (tb_target_level tb)) (tb_finished_blobs tb1) F"
    by (auto simp: tb_files_def same_frame_def split: option.splits)
  obtain bh b2 where a: "BlobFileBuilder_Add (env_libs (we_read env)) (env_crc (we_read env)) (we_append env) ?r \<lparr>bh_offset = 0, bh_size = 0\<rparr> b = (bh, b2)"
    by fastforce
  let ?tb2 = "tb1\<lparr>tb_blob_builder := Some b2, tb_bytes_written := tb_bytes_written tb1 + word_of_nat (length key + length val + BlobRecord_size ?r)\<rparr>"
  let ?R = "F @ [(hd_number h, rs @ [?r], hs @ [bh])]" and ?idx = "\<lparr>bi_file_number = hd_number h, blob_handle = bh\<rparr>"
  have len: "length hs = length rs" using b(4) length_add_records by (auto simp: being_built_def)
  have built: "being_built env (tb_cf_options tb) (rs @ [?r]) (hs @ [bh]) b2" by (rule being_built_Add [OF b(4) r _ a]) simp
  have opts: "tb_cf_options tb1 = tb_cf_options tb" "tb_cf_id tb1 = tb_cf_id tb" "tb_target_level tb1 = tb_target_level tb"
    using R1(3) by (simp_all add: same_frame_def)
  then have files2: "tb_files env ?tb2 ?R" using b built by (auto simp: tb_files_def)
  have mono: "points_into ?R idx r" if "points_into R idx r" for idx r
    using R1(2) [OF that] len unfolding b(3) by (fastforce simp: points_into_def nth_append)
  have new: "points_into ?R ?idx ?r" unfolding points_into_def
    by (intro exI [of _ "rs @ [?r]"] exI [of _ "hs @ [bh]"] exI [of _ "length rs"]) (simp add: nth_append len)
  have idx: "DecodeInto BlobIndex_DecodeFrom (BlobIndex_EncodeTo ?idx []) = Inr ?idx"
    using BlobIndex_Decode_Encode [of ?idx "[]"] by (simp add: DecodeInto_def)
  obtain s' where s': "the_storage (tb_cf_id tb) (count_live (tb_cf_id tb) val db1) = Some s'" "storage_frame s s'"
    using count_live_frame [where cf = "tb_cf_id tb" and db = db1 and s = s and val = val] s R1(4) by auto
  have ok2: "tb_ok ops ?tb2" and out: "v = BlobIndex_EncodeTo ?idx []" "(tb', db') = (if word_of_nat (length (bb_file b2)) \<ge> blob_file_target_size (tb_cf_options tb)
      then FinishBlobFile env ops ?tb2 (count_live (tb_cf_id tb) val db1) else (?tb2, count_live (tb_cf_id tb) val db1))"
    using add ok b(1,2) a st1 opts by (auto simp: AddBlob_def e Let_def split: if_splits prod.splits)
  have "tb_files env tb' ?R \<and> same_frame ?tb2 tb' \<and> db' = count_live (tb_cf_id tb) val db1"
    using out(2) FinishBlobFile_spec [OF files2 ok2 _ ok(2), of "count_live (tb_cf_id tb) val db1" db'] files2
    by (auto simp: same_frame_def split: if_splits)
  moreover have "same_frame tb ?tb2" using R1(3) by (simp add: same_frame_def)
  ultimately show ?thesis using mono new idx s' out(1) same_frame_trans by (intro exI [of _ ?R] exI [of _ s']) force
qed
section \<open>Entries keep their meaning\<close>

text \<open>What a value stands for when the files being written are read as well.\<close>

definition means :: "disk \<Rightarrow> written \<Rightarrow> bytes \<Rightarrow> bool \<Rightarrow> bytes \<Rightarrow> bool" where
  "means D R v is_blob w \<longleftrightarrow>
     (if is_blob then \<exists>idx r. DecodeInto BlobIndex_DecodeFrom v = Inr idx \<and> (stored D idx r \<or> points_into R idx r) \<and> w = rec_value r
      else w = v)"

abbreviation is_index :: "ParsedInternalKey \<Rightarrow> bool" where
  "is_index ik \<equiv> ik_type ik = kTypeBlobIndex"

definition same_key :: "ParsedInternalKey \<Rightarrow> ParsedInternalKey \<Rightarrow> bool" where
  "same_key ik ik' \<longleftrightarrow>
     user_key ik' = user_key ik \<and> sequence ik' = sequence ik \<and>
     (ik_type ik' = ik_type ik \<or> {ik_type ik, ik_type ik'} = {kTypeValue, kTypeBlobIndex})"

definition kept :: "disk \<Rightarrow> written \<Rightarrow> bytes \<times> bytes \<Rightarrow> bytes \<times> bytes \<Rightarrow> bool" where
  "kept D R e e' \<longleftrightarrow>
     (\<exists>ik ik'. ParseInternalKey (fst e) = Some ik \<and> ParseInternalKey (fst e') = Some ik' \<and> same_key ik ik' \<and>
        (\<forall>w. denotes D (snd e) (is_index ik) w \<longrightarrow> means D R (snd e') (is_index ik') w))"

definition input_ok :: "TitanCFOptions \<Rightarrow> disk \<Rightarrow> BlobStorage \<Rightarrow> bytes \<times> bytes \<Rightarrow> bool" where
  "input_ok cf D s e \<longleftrightarrow>
     (\<forall>ik. ParseInternalKey (fst e) = Some ik \<longrightarrow>
        (ik_type ik = kTypeValue \<longrightarrow> record_ok \<lparr>rec_key = user_key ik, rec_value = snd e, only_value = level_merge cf\<rparr>) \<and>
        (is_index ik \<longrightarrow> (\<exists>w. denotes D (snd e) True w) \<or>
           (\<exists>idx rest. BlobIndex_DecodeFrom (snd e) = Inr (idx, rest) \<and> FindFile s (bi_file_number idx) = None)))"

text \<open>What the table builder of RocksDB promises: \<open>rows\<close> reads the entries added to it.\<close>

definition base_ok :: "'b base_ops \<Rightarrow> ('b \<Rightarrow> (bytes \<times> bytes) list) \<Rightarrow> bool" where
  "base_ok ops rows \<longleftrightarrow>
     (\<forall>k v b. base_status ops b = OK \<longrightarrow> rows (base_Add ops k v b) = rows b @ [(k, v)]) \<and>
     (\<forall>b. base_status ops b = OK \<longrightarrow> rows (base_Finish ops b) = rows b)"

text \<open>Files are filed under their number and open readers are of known files.\<close>

definition readers_known :: "BlobStorage \<Rightarrow> bool" where
  "readers_known s \<longleftrightarrow>
     (\<forall>n f. FindFile s n = Some f \<longrightarrow> file_number f = n) \<and> (\<forall>n rd. map_of (file_cache s) n = Some rd \<longrightarrow> FindFile s n \<noteq> None)"

lemma readers_known_FindFile:
  assumes "readers_known s" "FindFile s n = Some f" "BlobFileCache_FindFile Extend open_file (file_number f) sz (file_cache s) = (r, fc)"
  shows "readers_known (s\<lparr>file_cache := fc\<rparr>)"
  using assms
  by (auto simp: readers_known_def FindFile_def BlobFileCache_FindFile_def AList.update_conv' split: option.splits sum.splits if_splits)

lemma readers_known_Get:
  assumes "readers_known s" "BlobStorage_Get L Extend open_file building idx r0 cache s = (res, cache', s')"
  shows "readers_known s'"
proof (cases "FindFile s (bi_file_number idx)")
  case (Some f)
  obtain r fc where "BlobFileCache_FindFile Extend open_file (file_number f) (file_size f) (file_cache s) = (r, fc)" by fastforce
  from readers_known_FindFile [OF assms(1) Some this] this show ?thesis
    using assms(2) Some by (auto simp: BlobStorage_Get_def BlobFileCache_Get_def Let_def split: sum.splits prod.splits)
qed (use assms in \<open>auto simp: BlobStorage_Get_def\<close>)

lemma readers_known_NewPrefetcher:
  assumes "readers_known s" "BlobStorage_NewPrefetcher Extend open_file n s = (res, s')"
  shows "readers_known s'"
proof (cases "FindFile s n")
  case (Some f)
  obtain r fc where "BlobFileCache_FindFile Extend open_file (file_number f) (file_size f) (file_cache s) = (r, fc)" by fastforce
  from readers_known_FindFile [OF assms(1) Some this] this show ?thesis
    using assms(2) Some by (auto simp: BlobStorage_NewPrefetcher_def BlobFileCache_NewPrefetcher_def Let_def split: sum.splits prod.splits)
qed (use assms in \<open>auto simp: BlobStorage_NewPrefetcher_def\<close>)

lemma readers_known_frame: "storage_frame s s' \<Longrightarrow> readers_known s \<Longrightarrow> readers_known s'"
  by (simp add: readers_known_def storage_frame_def FindFile_def)

definition builder_inv ::
  "write_env \<Rightarrow> ('b \<Rightarrow> (bytes \<times> bytes) list) \<Rightarrow> disk \<Rightarrow> BlobStorage \<Rightarrow> 'b TitanTableBuilder \<Rightarrow> blob_cache option \<Rightarrow> TitanDB
     \<Rightarrow> written \<Rightarrow> (bytes \<times> bytes) list \<Rightarrow> bool" where
  "builder_inv env rows D s0 tb cache db R ins \<longleftrightarrow>
     tb_files env tb R \<and> list_all2 (kept D R) ins (rows (tb_base tb)) \<and>
     (\<exists>s. the_storage (tb_cf_id tb) db = Some s \<and> files s = files s0 \<and> cf_options s = cf_options s0 \<and> db_options s = db_options s0 \<and>
        disk_ok (we_read env) D s cache \<and> readers_known s \<and>
        (\<forall>n pf. map_of (tb_merging_files tb) n = Some pf \<longrightarrow> prefetcher_ok (we_read env) D s n pf) \<and>
        (\<forall>n x. map_of (tb_encountered_files tb) n = Some x \<longrightarrow> x = FindFile s n))"

lemma denotes_means: "denotes D v b w \<Longrightarrow> means D R v b w"
  by (cases b) (simp_all add: denotes_def means_def, blast)

lemma kept_refl: "ParseInternalKey k = Some ik \<Longrightarrow> kept D R (k, v) (k, v)"
  by (auto simp: kept_def same_key_def intro: denotes_means)

lemma kept_mono: "kept D R e e' \<Longrightarrow> (\<And>idx r. points_into R idx r \<Longrightarrow> points_into R' idx r) \<Longrightarrow> kept D R' e e'"
  unfolding kept_def means_def by (metis (no_types, lifting))

lemma kept_all_mono:
  "list_all2 (kept D R) es es' \<Longrightarrow> (\<And>idx r. points_into R idx r \<Longrightarrow> points_into R' idx r) \<Longrightarrow> list_all2 (kept D R') es es'"
  by (erule list_all2_mono) (rule kept_mono)

text \<open>An entry whose type is exchanged between value and index.\<close>

lemma kept_retyped:
  assumes "ParseInternalKey k = Some ik" "{ik_type ik, t} \<subseteq> {kTypeValue, kTypeBlobIndex}"
    and "\<And>w. denotes D v (is_index ik) w \<Longrightarrow> means D R v' (t = kTypeBlobIndex) w"
  shows "kept D R (k, v) (AppendInternalKey [] (ik\<lparr>ik_type := t\<rparr>), v')"
proof -
  have "seq_ok (sequence ik)" using Parse_seq_ok [OF assms(1)] by simp
  moreover have "IsExtendedValueType t" using assms(2) by (auto simp: IsExtendedValueType_def IsValueType_def)
  ultimately have "ParseInternalKey (AppendInternalKey [] (ik\<lparr>ik_type := t\<rparr>)) = Some (ik\<lparr>ik_type := t\<rparr>)" by (simp add: Parse_Append)
  moreover have "same_key ik (ik\<lparr>ik_type := t\<rparr>)" using assms(2) by (auto simp: same_key_def)
  ultimately show ?thesis using assms(1,3) by (auto simp: kept_def)
qed

lemma builder_inv_base_add:
  assumes "base_ok ops rows" "tb_ok ops tb \<or> base_status ops (tb_base tb) = OK" "builder_inv env rows D s0 tb cache db R ins" "kept D R (k, v) (k', v')"
  shows "builder_inv env rows D s0 (base_add ops k' v' tb) cache db R (ins @ [(k, v)])"
proof -
  have "base_status ops (tb_base tb) = OK" using assms(2) tb_okD(2) by auto
  then have "rows (base_Add ops k' v' (tb_base tb)) = rows (tb_base tb) @ [(k', v')]" using assms(1) by (simp add: base_ok_def)
  then show ?thesis using assms(3,4) by (auto simp: builder_inv_def base_add_def list_all2_appendI)
qed

lemma denotes_decodes:
  assumes "denotes D v True w" "BlobIndex_DecodeFrom v = Inr (idx, rest)"
  shows "\<exists>r. stored D idx r \<and> w = rec_value r"
  using assms by (auto simp: denotes_def DecodeInto_def split: if_splits)

lemma storage_read_keeps:
  assumes "the_storage cf db = Some s" "disk_ok env D s cache"
    and "(\<exists>r. stored D idx r) \<or> FindFile s (bi_file_number idx) = None"
    and "BlobStorage_Get (env_libs env) (env_crc env) (env_open env) (env_building env) idx r0 cache s = (res, cache', s')"
  shows "\<exists>fc. s' = s\<lparr>file_cache := fc\<rparr> \<and> disk_ok env D s' cache' \<and> (\<forall>r. stored D idx r \<longrightarrow> (\<exists>r'. res = Inr r' \<and> rec_value r' = rec_value r))"
proof (cases "FindFile s (bi_file_number idx) = None")
  case True
  have "\<not> stored D idx r" for r using stored_file [OF assms(2), of idx r] True by auto
  moreover have "s' = s" "cache' = cache" using assms(4) True by (auto simp: BlobStorage_Get_def)
  ultimately show ?thesis using assms(2) by (auto intro: exI [of _ "file_cache s"])
next
  case False
  then obtain r where r: "stored D idx r" using assms(3) by auto
  have "\<exists>r'. res = Inr r' \<and> rec_value r' = rec_value q" if "stored D idx q" for q
    using BlobStorage_Get_disk [OF assms(2) that, of r0] assms(4) by auto
  then show ?thesis using BlobStorage_Get_disk [OF assms(2) r, of r0] assms(4) by auto
qed
section \<open>The branches of \<open>Add\<close>\<close>

lemma BlobIndex_DecodeFrom_error: "BlobIndex_DecodeFrom v = Inl s \<Longrightarrow> s \<noteq> OK"
  by (auto simp: BlobIndex_DecodeFrom_def split: option.splits sum.splits)

lemma input_index:
  assumes "input_ok cf D s0 (key, val)" "ParseInternalKey key = Some ik" "is_index ik" "BlobIndex_DecodeFrom val = Inr (idx, rest)"
    and "FindFile s = FindFile s0"
  shows "(\<exists>r. stored D idx r) \<or> FindFile s (bi_file_number idx) = None"
  using assms denotes_decodes [of D val _ idx rest] by (auto simp: input_ok_def)

lemma Add_fallback_keeps:
  assumes base: "base_ok ops rows" and inv: "builder_inv env rows D s0 tb cache db R ins" and ok: "tb_ok ops tb" "tb_ok ops tb'"
    and inp: "input_ok cf D s0 (key, val)" and ik: "ParseInternalKey key = Some ik" "is_index ik"
    and add: "Add_fallback env ops ik key val tb cache db = (tb', cache', db')"
  shows "\<exists>R'. builder_inv env rows D s0 tb' cache' db' R' (ins @ [(key, val)])"
proof -
  obtain idx rest where i: "BlobIndex_DecodeFrom val = Inr (idx, rest)"
    using add tb_okD(1) [OF ok(2)] BlobIndex_DecodeFrom_error [of val] by (cases "BlobIndex_DecodeFrom val") (auto simp: Add_fallback_def)
  obtain s where s: "the_storage (tb_cf_id tb) db = Some s" "files s = files s0" "cf_options s = cf_options s0" "db_options s = db_options s0"
    "disk_ok (we_read env) D s cache" "\<And>n pf. map_of (tb_merging_files tb) n = Some pf \<Longrightarrow> prefetcher_ok (we_read env) D s n pf"
    "\<And>n x. map_of (tb_encountered_files tb) n = Some x \<Longrightarrow> x = FindFile s n"
    using inv by (auto simp: builder_inv_def)
  have "FindFile s = FindFile s0" using s(2) by (simp add: FindFile_def fun_eq_iff)
  note idx = input_index [OF inp ik i this]
  obtain res cache1 s1 where g: "BlobStorage_Get (env_libs (we_read env)) (env_crc (we_read env)) (env_open (we_read env)) (env_building (we_read env))
      idx new_BlobRecord cache s = (res, cache1, s1)" by (metis prod_cases3)
  obtain fc where fc: "s1 = s\<lparr>file_cache := fc\<rparr>" "disk_ok (we_read env) D s1 cache1" "\<And>r. stored D idx r \<Longrightarrow> \<exists>r'. res = Inr r' \<and> rec_value r' = rec_value r"
    using storage_read_keeps [OF s(1,5) idx g] by blast
  have inv1: "builder_inv env rows D s0 (tb\<lparr>tb_bytes_read := n\<rparr>) cache1 (put_storage (tb_cf_id tb) s1 db) R ins" for n
    using inv s(1-4) fc(1,2) s(6,7) readers_known_Get [OF _ g] by (auto simp: builder_inv_def FindFile_def)
  have same: "w = rec_value r'" if "denotes D val True w" "res = Inr r'" for w r'
    using denotes_decodes [OF that(1) i] fc(3) that(2) by auto
  show ?thesis
  proof (cases res)
    case (Inl st)
    then have "tb' = base_add ops key val tb" "cache' = cache1" "db' = put_storage (tb_cf_id tb) s1 db"
      using add i s(1) g by (simp_all add: Add_fallback_def)
    then show ?thesis using builder_inv_base_add [OF base _ inv1 [of "tb_bytes_read tb"] kept_refl [OF ik(1)], of val] ok(1) by auto
  next
    case (Inr r')
    have "kept D R (key, val) (AppendInternalKey [] (ik\<lparr>ik_type := kTypeValue\<rparr>), rec_value r')"
      using ik same Inr by (intro kept_retyped) (auto simp: means_def)
    from builder_inv_base_add [OF base _ inv1 this, of "tb_bytes_read tb + word_of_nat (BlobRecord_size r')"]
    show ?thesis using add i s(1) g Inr tb_okD(2) [OF ok(1)] by (auto simp: Add_fallback_def)
  qed
qed

text \<open>Writing a value and the entry with its index.\<close>

lemma AddBlob_keeps:
  assumes base: "base_ok ops rows" and inv: "builder_inv env rows D s0 tb cache db R ins" and ok: "tb_ok ops tb" "tb_ok ops tb'"
    and add: "AddBlob env ops (user_key ik) val' tb db = (v, tb', db')"
    and r: "record_ok \<lparr>rec_key = user_key ik, rec_value = val', only_value = level_merge (tb_cf_options tb)\<rparr>"
    and ik: "ParseInternalKey key = Some ik" "ik_type ik \<in> {kTypeValue, kTypeBlobIndex}"
    and val: "\<And>w. denotes D val (is_index ik) w \<Longrightarrow> w = val'"
  shows "\<exists>R'. builder_inv env rows D s0 (base_add ops (AppendInternalKey [] (ik\<lparr>ik_type := kTypeBlobIndex\<rparr>)) v tb') cache db' R' (ins @ [(key, val)])"
proof -
  obtain s where s: "the_storage (tb_cf_id tb) db = Some s" "files s = files s0" "cf_options s = cf_options s0" "db_options s = db_options s0"
    "disk_ok (we_read env) D s cache" "\<And>n pf. map_of (tb_merging_files tb) n = Some pf \<Longrightarrow> prefetcher_ok (we_read env) D s n pf"
    "\<And>n x. map_of (tb_encountered_files tb) n = Some x \<Longrightarrow> x = FindFile s n" "tb_files env tb R" "list_all2 (kept D R) ins (rows (tb_base tb))"
    using inv by (auto simp: builder_inv_def)
  obtain R' s' idx q where R': "tb_files env tb' R'" "\<And>idx r. points_into R idx r \<Longrightarrow> points_into R' idx r" "same_frame tb tb'"
    "the_storage (tb_cf_id tb) db' = Some s'" "storage_frame s s'" "DecodeInto BlobIndex_DecodeFrom v = Inr idx" "points_into R' idx q" "rec_value q = val'"
    using AddBlob_spec [OF s(8) ok add r s(1)] by blast
  have "readers_known s" using inv s(1) by (auto simp: builder_inv_def)
  then have "builder_inv env rows D s0 tb' cache db' R' ins"
    using readers_known_frame [OF R'(5)] R'(1,3,4) s(2-7) kept_all_mono [OF s(9) R'(2)] storage_frame_disk [OF R'(5)] storage_frame_prefetcher [OF R'(5)]
      storage_frame_parts [OF R'(5)] R'(5)
    by (auto simp: builder_inv_def same_frame_def storage_frame_def)
  moreover have "kept D R' (key, val) (AppendInternalKey [] (ik\<lparr>ik_type := kTypeBlobIndex\<rparr>), v)"
    using ik val R'(6-8) by (intro kept_retyped) (auto simp: means_def)
  ultimately show ?thesis using builder_inv_base_add [OF base] ok(2) by blast
qed
lemma encounter_keeps:
  assumes "builder_inv env rows D s0 tb cache db R ins" "the_storage (tb_cf_id tb) db = Some s" "encounter n tb db = (file, tb')"
  shows "builder_inv env rows D s0 tb' cache db R ins \<and> file = FindFile s n \<and> tb_cf_id tb' = tb_cf_id tb \<and> tb_cf_options tb' = tb_cf_options tb \<and>
    tb_ok ops tb' = tb_ok ops tb \<and> tb_status tb' = tb_status tb"
proof -
  have e: "\<And>n x. map_of (tb_encountered_files tb) n = Some x \<Longrightarrow> x = FindFile s n" using assms(1,2) by (auto simp: builder_inv_def)
  show ?thesis
  proof (cases "map_of (tb_encountered_files tb) n")
    case None
    then have "file = FindFile s n" "tb' = tb\<lparr>tb_encountered_files := emplace n (FindFile s n) (tb_encountered_files tb)\<rparr>"
      using assms(2,3) by (auto simp: encounter_def)
    then show ?thesis using assms(1,2) None by (auto simp: builder_inv_def tb_ok_iff split: if_splits)
  next
    case (Some x)
    then have "file = FindFile s n" "tb' = tb" using assms(2,3) e [OF Some] by (auto simp: encounter_def split: option.splits)
    then show ?thesis using assms(1) by simp
  qed
qed

lemma merging_prefetcher_keeps:
  assumes inv: "builder_inv env rows D s0 tb cache db R ins" and s: "the_storage (tb_cf_id tb) db = Some s" and r: "stored D idx r"
  shows "\<exists>pf tb' db' s'. merging_prefetcher env (bi_file_number idx) tb db = (Inr pf, tb', db') \<and> builder_inv env rows D s0 tb' cache db' R ins \<and>
    the_storage (tb_cf_id tb) db' = Some s' \<and> disk_ok (we_read env) D s' cache \<and> prefetcher_ok (we_read env) D s' (bi_file_number idx) pf \<and>
    same_frame (tb\<lparr>tb_merging_files := tb_merging_files tb'\<rparr>) tb' \<and> tb_ok ops tb' = tb_ok ops tb"
proof (cases "map_of (tb_merging_files tb) (bi_file_number idx)")
  case None
  have d: "disk_ok (we_read env) D s cache" "files s = files s0" "cf_options s = cf_options s0" "db_options s = db_options s0"
    using inv s by (auto simp: builder_inv_def)
  obtain pf fc where n: "BlobStorage_NewPrefetcher (env_crc (we_read env)) (env_open (we_read env)) (bi_file_number idx) s = (Inr pf, s\<lparr>file_cache := fc\<rparr>)"
    "prefetcher_ok (we_read env) D s (bi_file_number idx) pf" "disk_ok (we_read env) D (s\<lparr>file_cache := fc\<rparr>) cache"
    using NewPrefetcher_disk [OF d(1) r] by blast
  let ?tb = "tb\<lparr>tb_merging_files := emplace (bi_file_number idx) pf (tb_merging_files tb)\<rparr>"
  let ?db = "put_storage (tb_cf_id tb) (s\<lparr>file_cache := fc\<rparr>) db"
  have m: "merging_prefetcher env (bi_file_number idx) tb db = (Inr pf, ?tb, ?db)" using None s n(1) by (simp add: merging_prefetcher_def)
  have "builder_inv env rows D s0 ?tb cache ?db R ins"
    using inv s d n None readers_known_NewPrefetcher [OF _ n(1)] by (auto simp: builder_inv_def FindFile_def split: if_splits)
  then show ?thesis using m n by (auto simp: same_frame_def tb_ok_iff)
next
  case (Some pf)
  then show ?thesis using inv s by (auto simp: merging_prefetcher_def builder_inv_def same_frame_def)
qed

lemma record_ok_value: "record_ok r \<Longrightarrow> record_ok \<lparr>rec_key = k, rec_value = rec_value r, only_value = True\<rparr>"
  by (simp add: record_ok_def BlobRecord_EncodeTo_def)

lemma stored_record_ok:
  assumes "disk_ok env D s cache" "stored D idx r"
  shows "record_ok r"
proof -
  obtain rs hs c prefix i where "D (bi_file_number idx) = Some (rs, hs, c, prefix)" "i < length rs" "rs ! i = r"
    using assms(2) by (auto simp: stored_def)
  then have "built_from (env_libs env) (env_crc env) rs hs c" "r \<in> set rs" using assms(1) by (auto simp: disk_ok_def file_ok_def)
  then show ?thesis by (simp add: built_from_def)
qed

lemma FinishBlobFile_base: "tb_base (fst (FinishBlobFile env ops tb db)) = tb_base tb"
  by (simp add: FinishBlobFile_def Let_def split_beta split: option.split)

lemma ensure_blob_builder_base: "tb_base (fst (ensure_blob_builder env tb db)) = tb_base tb"
  by (simp add: ensure_blob_builder_def split_beta split: option.split sum.split prod.split)

lemma AddBlob_base: "tb_base (fst (snd (AddBlob env ops key val tb db))) = tb_base tb"
  by (simp add: AddBlob_def Let_def split_beta FinishBlobFile_base ensure_blob_builder_base split: option.split)

lemma builder_inv_prefetched:
  assumes "builder_inv env rows D s0 tb cache db R ins" "the_storage (tb_cf_id tb) db = Some s"
    and "disk_ok (we_read env) D s cache'" "prefetcher_ok (we_read env) D s n pf"
  shows "builder_inv env rows D s0 (tb\<lparr>tb_merging_files := AList.update n pf (tb_merging_files tb)\<rparr>) cache' db R ins"
  using assms by (auto simp: builder_inv_def AList.update_conv' split: if_splits)

lemma Add_merge_keeps:
  assumes base: "base_ok ops rows" and inv: "builder_inv env rows D s0 tb cache db R ins" and ok: "tb_ok ops tb" "tb_ok ops tb'"
    and inp: "input_ok cf D s0 (key, val)" and ik: "ParseInternalKey key = Some ik" "is_index ik" and lm: "level_merge (tb_cf_options tb)"
    and add: "Add_merge env ops ik key val tb cache db = (tb', cache', db')"
  shows "\<exists>R'. builder_inv env rows D s0 tb' cache' db' R' (ins @ [(key, val)])"
proof -
  obtain idx rest where i: "BlobIndex_DecodeFrom val = Inr (idx, rest)"
    using add tb_okD(1) [OF ok(2)] BlobIndex_DecodeFrom_error [of val] by (cases "BlobIndex_DecodeFrom val") (auto simp: Add_merge_def)
  obtain s where s: "the_storage (tb_cf_id tb) db = Some s" "FindFile s = FindFile s0"
    using inv by (auto simp: builder_inv_def FindFile_def fun_eq_iff)
  obtain fl tb1 where e: "encounter (bi_file_number idx) tb db = (fl, tb1)" by fastforce
  have tb1: "builder_inv env rows D s0 tb1 cache db R ins" "fl = FindFile s (bi_file_number idx)" "tb_cf_id tb1 = tb_cf_id tb"
    "tb_cf_options tb1 = tb_cf_options tb" "tb_ok ops tb1" "tb_status tb1 \<noteq> Undefined"
    using encounter_keeps [OF inv s(1) e, of ops] ok(1) tb_okD(1) [OF ok(1)] by auto
  show ?thesis
  proof (cases "ShouldMerge tb1 fl")
    case False
    then have "tb' = base_add ops key val tb1" "cache' = cache" "db' = db" using add i e tb1(6) by (simp_all add: Add_merge_def)
    then show ?thesis using builder_inv_base_add [OF base _ tb1(1) kept_refl [OF ik(1)], of val] tb1(5) by auto
  next
    case True
    then have "FindFile s (bi_file_number idx) \<noteq> None" by (auto simp: ShouldMerge_def tb1(2) split: option.splits)
    then obtain r where r: "stored D idx r" using input_index [OF inp ik i s(2)] by auto
    have s1: "the_storage (tb_cf_id tb1) db = Some s" using s(1) tb1(3) by simp
    obtain pf tb2 db2 s2 where p: "merging_prefetcher env (bi_file_number idx) tb1 db = (Inr pf, tb2, db2)" "builder_inv env rows D s0 tb2 cache db2 R ins"
      "the_storage (tb_cf_id tb1) db2 = Some s2" "disk_ok (we_read env) D s2 cache" "prefetcher_ok (we_read env) D s2 (bi_file_number idx) pf"
      "same_frame (tb1\<lparr>tb_merging_files := tb_merging_files tb2\<rparr>) tb2" "tb_ok ops tb2"
      using merging_prefetcher_keeps [OF tb1(1) s1 r, of ops] tb1(5) by blast
    obtain r' cache2 pf' io where g: "BlobFilePrefetcher_Get (env_libs (we_read env)) (env_crc (we_read env)) pf (blob_handle idx) new_BlobRecord cache = (Inr r', cache2, pf', io)"
      "rec_value r' = rec_value r" "disk_ok (we_read env) D s2 cache2" "prefetcher_ok (we_read env) D s2 (bi_file_number idx) pf'"
      using Prefetcher_Get_disk [OF p(4) r p(5)] by blast
    let ?tb3 = "tb2\<lparr>tb_merging_files := AList.update (bi_file_number idx) pf' (tb_merging_files tb2)\<rparr>"
    have tb3: "builder_inv env rows D s0 ?tb3 cache2 db2 R ins" "tb_ok ops ?tb3" "tb_cf_options ?tb3 = tb_cf_options tb"
      using builder_inv_prefetched [OF p(2) _ g(3,4)] p(3,6,7) tb1(4) by (simp_all add: same_frame_def tb_ok_iff)
    obtain v tb4 db4 where a: "AddBlob env ops (user_key ik) (rec_value r') ?tb3 db2 = (v, tb4, db4)" by (metis prod_cases3)
    have eq: "(tb', cache', db') = (if tb_ok ops tb4 then (base_add ops (AppendInternalKey [] (ik\<lparr>ik_type := kTypeBlobIndex\<rparr>)) v tb4, cache2, db4)
        else (base_add ops key val tb4, cache2, db4))"
      using add i e tb1(6) True p(1) g(1) a by (simp add: Add_merge_def)
    have "base_status ops (tb_base tb4) = OK" using AddBlob_base [of env ops "user_key ik" "rec_value r'" ?tb3 db2] a tb_okD(2) [OF tb3(2)] by simp
    then have "tb_ok ops tb4" if "tb_ok ops (base_add ops key val tb4)" using that by (simp only: tb_ok_iff base_add_def) simp
    then have ok4: "tb_ok ops tb4" using eq ok(2) by (metis prod.inject)
    have same: "w = rec_value r'" if "denotes D val (is_index ik) w" for w
    proof -
      have "denotes D val True w" using that ik(2) by simp
      then obtain q where q: "stored D idx q" "w = rec_value q" using denotes_decodes [OF _ i] by blast
      then show ?thesis using Prefetcher_Get_disk [OF p(4) q(1) p(5), of new_BlobRecord] g(1) by auto
    qed
    have rec: "record_ok \<lparr>rec_key = user_key ik, rec_value = rec_value r', only_value = level_merge (tb_cf_options ?tb3)\<rparr>"
      using record_ok_value [OF stored_record_ok [OF p(4) r]] g(2) lm tb3(3) by simp
    show ?thesis
      using AddBlob_keeps [OF base tb3(1,2) ok4 a rec ik(1) _ same] ik(2) eq by (simp only: ok4 if_True prod.inject) blast
  qed
qed
section \<open>A whole table\<close>

text \<open>The fields that no operation changes.\<close>

definition config :: "'b TitanTableBuilder \<Rightarrow> u32 \<times> TitanCFOptions \<times> int" where
  "config tb = (tb_cf_id tb, tb_cf_options tb, tb_target_level tb)"

lemma FinishBlobFile_config: "config (fst (FinishBlobFile env ops tb db)) = config tb"
  by (simp add: FinishBlobFile_def config_def Let_def split_beta split: option.split)

lemma ensure_blob_builder_config: "config (fst (ensure_blob_builder env tb db)) = config tb"
  by (simp add: ensure_blob_builder_def config_def split_beta split: option.split sum.split prod.split)

lemma config_upd [simp]:
  "config (tb\<lparr>tb_status := s\<rparr>) = config tb" "config (tb\<lparr>tb_blob_builder := b\<rparr>) = config tb" "config (tb\<lparr>tb_bytes_written := n\<rparr>) = config tb"
  "config (tb\<lparr>tb_bytes_read := n\<rparr>) = config tb" "config (base_add ops k v tb) = config tb" "config (tb\<lparr>tb_merging_files := m\<rparr>) = config tb"
  "config (tb\<lparr>tb_encountered_files := m'\<rparr>) = config tb" "config (tb\<lparr>tb_base := b'\<rparr>) = config tb"
  by (simp_all add: config_def base_add_def)

lemma AddBlob_config: "config (fst (snd (AddBlob env ops key val tb db))) = config tb"
  by (simp add: AddBlob_def Let_def split_beta FinishBlobFile_config ensure_blob_builder_config split: option.split)

lemma Add_fallback_config: "config (fst (Add_fallback env ops ik key val tb cache db)) = config tb"
  by (simp add: Add_fallback_def Let_def split_beta split: option.split sum.split)

lemma Add_separate_config: "config (fst (Add_separate env ops ik val tb db)) = config tb"
  by (simp add: Add_separate_def Let_def split_beta AddBlob_config)

lemma merging_prefetcher_config: "config (fst (snd (merging_prefetcher env n tb db))) = config tb"
  by (simp add: merging_prefetcher_def Let_def split_beta split: option.split sum.split)

lemma encounter_config: "config (snd (encounter n tb db)) = config tb"
  by (simp add: encounter_def Let_def split: option.split)

lemma Add_merge_config: "config (fst (Add_merge env ops ik key val tb cache db)) = config tb"
proof (cases "BlobIndex_DecodeFrom val")
  case (Inr p)
  obtain fl tb1 where e: "encounter (bi_file_number (fst p)) tb db = (fl, tb1)" by fastforce
  obtain r tb2 db2 where m: "merging_prefetcher env (bi_file_number (fst p)) tb1 db = (r, tb2, db2)" by (metis prod_cases3)
  have c: "config tb1 = config tb" "config tb2 = config tb1"
    using encounter_config [of "bi_file_number (fst p)" tb db] merging_prefetcher_config [of env "bi_file_number (fst p)" tb1 db] e m by simp_all
  show ?thesis
    using Inr c by (cases r) (simp_all add: Add_merge_def e m Let_def split_beta AddBlob_config split: sum.split)
qed (simp add: Add_merge_def)

lemma TitanTableBuilder_Add_config: "config (fst (TitanTableBuilder_Add env ops key val tb cache db)) = config tb"
  by (simp add: TitanTableBuilder_Add_def Let_def split_beta Add_fallback_config Add_separate_config Add_merge_config split: option.split)

lemma Add_keeps:
  assumes base: "base_ok ops rows" and inv: "builder_inv env rows D s0 tb cache db R ins" and ok: "tb_ok ops tb'"
    and inp: "input_ok (tb_cf_options tb) D s0 (key, val)"
    and add: "TitanTableBuilder_Add env ops key val tb cache db = (tb', cache', db')"
  shows "\<exists>R'. builder_inv env rows D s0 tb' cache' db' R' (ins @ [(key, val)])"
proof -
  have ok0: "tb_ok ops tb" using add ok by (auto simp: TitanTableBuilder_Add_def split: if_splits)
  obtain ik where ik: "ParseInternalKey key = Some ik"
    using add ok0 tb_okD(1) [OF ok] by (auto simp: TitanTableBuilder_Add_def split: if_splits option.splits)
  let ?opts = "tb_cf_options tb"
  consider (fallback) "is_index ik" "blob_run_mode ?opts = kFallback"
    | (separate) "ik_type ik = kTypeValue" "word_of_nat (length val) \<ge> min_blob_size ?opts" "blob_run_mode ?opts = kRunNormal"
    | (merge) "is_index ik" "level_merge ?opts" "Add_merge env ops ik key val tb cache db = (tb', cache', db')"
    | (plain) "tb' = base_add ops key val tb" "cache' = cache" "db' = db"
    using add ok0 ik by (auto simp: TitanTableBuilder_Add_def split: if_splits)
  then show ?thesis
  proof cases
    case fallback
    then show ?thesis using add ok0 ik Add_fallback_keeps [OF base inv ok0 ok inp ik] by (simp add: TitanTableBuilder_Add_def)
  next
    case separate
    obtain v tb1 db1 where a: "AddBlob env ops (user_key ik) val tb db = (v, tb1, db1)" by (metis prod_cases3)
    have r: "(tb', cache', db') = (if tb_ok ops tb1 then base_add ops (AppendInternalKey [] (ik\<lparr>ik_type := kTypeBlobIndex\<rparr>)) v tb1 else tb1, cache, db1)"
      using add ok0 ik separate a by (simp add: TitanTableBuilder_Add_def Add_separate_def)
    have ok1: "tb_ok ops tb1"
    proof (rule ccontr)
      assume "\<not> tb_ok ops tb1"
      with r have "tb' = tb1" by (simp only: if_False prod.inject)
      then show False using ok \<open>\<not> tb_ok ops tb1\<close> by blast
    qed
    have "record_ok \<lparr>rec_key = user_key ik, rec_value = val, only_value = level_merge ?opts\<rparr>"
      using inp ik separate(1) by (simp add: input_ok_def)
    from AddBlob_keeps [OF base inv ok0 ok1 a this ik, of val] separate(1) r ok1 show ?thesis
      by (auto simp: denotes_def)
  next
    case merge
    then show ?thesis using Add_merge_keeps [OF base inv ok0 ok inp ik] by simp
  next
    case plain
    then show ?thesis using builder_inv_base_add [OF base _ inv kept_refl [OF ik], of val] ok0 by auto
  qed
qed
fun add_entries ::
  "write_env \<Rightarrow> 'b base_ops \<Rightarrow> (bytes \<times> bytes) list \<Rightarrow> 'b TitanTableBuilder \<Rightarrow> blob_cache option \<Rightarrow> TitanDB
     \<Rightarrow> 'b TitanTableBuilder \<times> blob_cache option \<times> TitanDB" where
  "add_entries env ops [] tb cache db = (tb, cache, db)"
| "add_entries env ops ((k, v) # es) tb cache db =
     (let (tb, cache, db) = TitanTableBuilder_Add env ops k v tb cache db in add_entries env ops es tb cache db)"

lemma add_entries_failed: "\<not> tb_ok ops tb \<Longrightarrow> add_entries env ops es tb cache db = (tb, cache, db)"
  by (induction es) (auto simp: TitanTableBuilder_Add_def)

lemma add_entries_keeps:
  assumes "base_ok ops rows" "builder_inv env rows D s0 tb cache db R ins" "\<forall>e \<in> set es. input_ok (tb_cf_options tb) D s0 e"
    and "add_entries env ops es tb cache db = (tb', cache', db')" "tb_ok ops tb'"
  shows "(\<exists>R'. builder_inv env rows D s0 tb' cache' db' R' (ins @ es)) \<and> config tb' = config tb"
  using assms(2-4)
proof (induction es arbitrary: tb cache db R ins)
  case (Cons e es)
  obtain k v where e: "e = (k, v)" by fastforce
  obtain tb1 cache1 db1 where a: "TitanTableBuilder_Add env ops k v tb cache db = (tb1, cache1, db1)" by (metis prod_cases3)
  have r: "add_entries env ops es tb1 cache1 db1 = (tb', cache', db')" using Cons.prems(3) by (simp add: e a)
  have ok1: "tb_ok ops tb1" using r assms(5) add_entries_failed [of ops tb1 env es] by (cases "tb_ok ops tb1") auto
  have c: "config tb1 = config tb" using TitanTableBuilder_Add_config [of env ops k v tb cache db] a by simp
  obtain R1 where "builder_inv env rows D s0 tb1 cache1 db1 R1 (ins @ [e])"
    using Add_keeps [OF assms(1) Cons.prems(1) ok1 _ a] Cons.prems(2) e by auto
  from Cons.IH [OF this _ r] c Cons.prems(2) show ?case by (simp add: config_def)
qed auto

lemma new_builder_inv:
  assumes "NewTableBuilder opts mode cf level start base db = Some tb" "the_storage cf db = Some s" "disk_ok (we_read env) D s cache" "readers_known s" "rows base = []"
  shows "builder_inv env rows D s tb cache db [] []" "tb_cf_id tb = cf" "tb_cf_options tb = opts\<lparr>blob_run_mode := mode\<rparr>" "tb_target_level tb = level"
  using assms by (auto simp: NewTableBuilder_def new_TitanTableBuilder_def builder_inv_def tb_files_def Let_def)

section \<open>Finishing the table\<close>

lemma FinishBlobFile_ok:
  assumes "tb_files env tb R" "tb_ok ops tb" "FinishBlobFile env ops tb db = (tb', db')" "\<forall>b. tb_blob_builder tb' = Some b \<longrightarrow> bb_status b = OK"
  shows "tb_ok ops tb'"
proof (cases "tb_blob_builder tb")
  case None
  then show ?thesis using assms by (simp add: FinishBlobFile_def)
next
  case (Some b)
  obtain h where h: "tb_blob_handle tb = Some h" using assms(1) Some by (auto simp: tb_files_def split: option.splits)
  obtain s b' where f: "BlobFileBuilder_Finish (env_crc (we_read env)) (we_append env) (we_flush env) b = (s, b')" by fastforce
  have "tb_ok ops (tb\<lparr>tb_blob_builder := Some b'\<rparr>)"
  proof (rule ccontr)
    assume n: "\<not> tb_ok ops (tb\<lparr>tb_blob_builder := Some b'\<rparr>)"
    then have "tb_blob_builder tb' = Some b'" using assms(3) Some h f by (auto simp: FinishBlobFile_def Let_def split: prod.splits)
    then show False using n assms(2,4) by (simp add: tb_ok_iff)
  qed
  then show ?thesis using assms(3) Some h f tb_okD(1,2) [OF assms(2)] by (auto simp: FinishBlobFile_def Let_def tb_ok_iff)
qed

lemma Finish_parts:
  assumes "builder_inv env rows D s0 tb cache db R ins" "tb_ok ops tb" "base_ok ops rows"
    and "TitanTableBuilder_Finish env ops tb db = (OK, tb', db')"
  obtains fs' where "list_all2 (finished_as env (tb_cf_options tb) (tb_target_level tb)) (tb_finished_blobs tb') R"
    "list_all2 (kept D R) ins (rows (tb_base tb'))"
    "LogAndApply (io_log_add (we_io env)) (io_log_sync (we_io env)) (adds_edit (tb_cf_id tb) (map fst (tb_finished_blobs tb'))) (blob_file_set db) = (OK, fs')"
    "blob_file_set db' = fs'"
proof -
  let ?tb1 = "tb\<lparr>tb_base := base_Finish ops (tb_base tb)\<rparr>"
  obtain tb2 db2 where f: "FinishBlobFile env ops ?tb1 db = (tb2, db2)" by fastforce
  obtain st db3 where b: "BatchFinishFiles (we_io env) (tb_cf_id tb2) (tb_finished_blobs tb2) db2 = (st, db3)" by fastforce
  have c: "config tb2 = config tb" using FinishBlobFile_config [of env ops ?tb1 db] f by simp
  have u: "tb_status tb2 \<noteq> Undefined" and tb': "tb' = tb2\<lparr>tb_status := st\<rparr>" "db' = db3" and ok': "tb_ok ops tb'"
    using assms(4) f b by (auto simp: TitanTableBuilder_Finish_def Let_def split: if_splits)
  have base: "tb_base tb2 = base_Finish ops (tb_base tb)" using FinishBlobFile_base [of env ops ?tb1 db] f by simp
  have bst: "base_status ops (base_Finish ops (tb_base tb)) = OK" using tb_okD(2) [OF ok'] tb' base by simp
  then have ok1: "tb_ok ops ?tb1" using assms(2) by (simp add: tb_ok_iff)
  have files1: "tb_files env ?tb1 R" using assms(1) by (simp add: builder_inv_def)
  have "\<forall>b. tb_blob_builder tb2 = Some b \<longrightarrow> bb_status b = OK" using ok' tb'(1) by (simp add: tb_ok_iff)
  then have "tb_ok ops tb2" by (rule FinishBlobFile_ok [OF files1 ok1 f])
  note F = FinishBlobFile_spec [OF files1 ok1 f this]
  have "list_all2 (finished_as env (tb_cf_options tb) (tb_target_level tb)) (tb_finished_blobs tb2) R"
    using F c by (auto simp: tb_files_def config_def split: option.splits)
  moreover have "list_all2 (kept D R) ins (rows (tb_base tb2))"
    using assms(1,3) base tb_okD(2) [OF assms(2)] by (simp add: builder_inv_def base_ok_def)
  moreover have "st = OK" using tb_okD(1) [OF ok'] tb' by simp
  moreover from b this obtain fs' where
    "LogAndApply (io_log_add (we_io env)) (io_log_sync (we_io env)) (adds_edit (tb_cf_id tb2) (map fst (tb_finished_blobs tb2))) (blob_file_set db2) = (OK, fs')"
    "blob_file_set db3 = fs'"
    by (cases rule: BatchFinishFiles_cases) auto
  ultimately show thesis using that [of fs'] tb' F c by (simp add: config_def)
qed
section \<open>The files on disk\<close>

text \<open>The cache keys of different files differ.\<close>

definition unique_prefixes :: "read_env \<Rightarrow> bool" where
  "unique_prefixes env \<longleftrightarrow>
     (\<forall>n n' f p f' p' a b. env_open env n = Inr (f, p) \<longrightarrow> env_open env n' = Inr (f', p') \<longrightarrow> n \<noteq> n' \<longrightarrow>
        EncodeBlobCache p a \<noteq> EncodeBlobCache p' b)"

text \<open>The file system has the finished files as they were written.\<close>

definition served :: "read_env \<Rightarrow> BlobFileMeta \<times> BlobFileHandle \<Rightarrow> bool" where
  "served env fh \<longleftrightarrow>
     length (hd_file (snd fh)) < 2 ^ 64 \<and> (\<exists>p. env_open env (hd_number (snd fh)) = Inr (pread (hd_file (snd fh)), p))"

definition same_entry :: "disk \<Rightarrow> disk \<Rightarrow> bytes \<times> bytes \<Rightarrow> bytes \<times> bytes \<Rightarrow> bool" where
  "same_entry D D' e e' \<longleftrightarrow>
     (\<exists>ik ik'. ParseInternalKey (fst e) = Some ik \<and> ParseInternalKey (fst e') = Some ik' \<and> same_key ik ik' \<and>
        (\<forall>w. denotes D (snd e) (is_index ik) w \<longrightarrow> denotes D' (snd e') (is_index ik') w))"

definition disk_file :: "read_env \<Rightarrow> BlobFileMeta \<times> BlobFileHandle \<Rightarrow> u64 \<times> BlobRecord list \<times> BlobHandle list
    \<Rightarrow> u64 \<times> BlobRecord list \<times> BlobHandle list \<times> bytes \<times> bytes" where
  "disk_file env fh d = (fst d, fst (snd d), snd (snd d), hd_file (snd fh), (case env_open env (fst d) of Inr (f, p) \<Rightarrow> p | Inl s \<Rightarrow> []))"

lemma FindFile_fold_AddBlobFile:
  "distinct (map file_number ms) \<Longrightarrow> (\<And>f. f \<in> set ms \<Longrightarrow> FindFile s (file_number f) = None) \<Longrightarrow>
   FindFile (fold AddBlobFile ms s) n = (case map_of (number_files ms) n of Some f \<Rightarrow> Some f | None \<Rightarrow> FindFile s n)"
proof (induction ms arbitrary: s)
  case (Cons m ms)
  have fresh: "FindFile s (file_number m) = None" using Cons.prems(2) by simp
  have other: "FindFile (AddBlobFile m s) (file_number f) = None" if "f \<in> set ms" for f
    using that Cons.prems FindFile_AddBlobFile [OF fresh] by (auto simp: image_iff)
  have "map_of (number_files ms) (file_number m) = None" using Cons.prems(1) by (auto simp: number_files_def map_of_eq_None_iff)
  then show ?case
    using Cons.IH [of "AddBlobFile m s"] Cons.prems(1) other FindFile_AddBlobFile [OF fresh]
    by (auto simp: number_files_def split: option.splits)
qed (simp add: number_files_def)

lemma fold_AddBlobFile_fields:
  "cf_options (fold AddBlobFile ms s) = cf_options s" "file_cache (fold AddBlobFile ms s) = file_cache s"
  by (induction ms arbitrary: s) simp_all

lemma file_cache_ComputeGCScore [simp]: "file_cache (fst (ComputeGCScore s)) = file_cache s"
  by (simp add: ComputeGCScore_def Let_def)

text \<open>
  A file and its handle as they are installed; \<open>lm\<close> says whether the family merges by level, which
  makes sorted files keyless.
\<close>

definition complete :: "read_env \<Rightarrow> bool \<Rightarrow> BlobFileMeta \<times> BlobFileHandle \<Rightarrow> u64 \<times> BlobRecord list \<times> BlobHandle list \<Rightarrow> bool" where
  "complete env lm fh d \<longleftrightarrow>
     (case (fh, d) of ((f, h), (n, rs, hs)) \<Rightarrow>
        hd_number h = n \<and> file_number f = n \<and> file_size f = word_of_nat (length (hd_file h)) \<and>
        (\<forall>r \<in> set rs. only_value r = (lm \<and> file_type f = kSorted)) \<and>
        (length (hd_file h) < 2 ^ 64 \<longrightarrow> built_from (env_libs env) (env_crc env) rs hs (hd_file h)))"

lemma built_fromI:
  assumes "append_ok ap" "add_records L Extend ap rs (new_BlobFileBuilder ap cf) = (hs, b)" "BlobFileBuilder_Finish Extend ap flush b = (OK, b')"
    and "\<forall>r \<in> set rs. record_ok r" "length (bb_file b') < 2 ^ 64"
  shows "built_from L Extend rs hs (bb_file b')"
  using assms unfolding built_from_def by blast

lemma complete_finished:
  assumes "append_ok (we_append env)" "finished_as env cf level fh d"
  shows "complete (we_read env) (level_merge cf) fh d"
proof -
  obtain f h n rs hs where d: "fh = (f, h)" "d = (n, rs, hs)" by (metis prod.exhaust)
  then obtain b b' where b: "being_built env cf rs hs b" "hd_file h = bb_file b'"
    "BlobFileBuilder_Finish (env_crc (we_read env)) (we_append env) (we_flush env) b = (OK, b')"
    using assms(2) by (auto simp: finished_as_def)
  have "built_from (env_libs (we_read env)) (env_crc (we_read env)) rs hs (bb_file b')" if "length (bb_file b') < 2 ^ 64"
    using b(1) that by (intro built_fromI [OF assms(1) _ b(3), where cf = cf]) (auto simp: being_built_def records_ok_def)
  then show ?thesis using assms d b(1,2) by (auto simp: complete_def finished_as_def being_built_def records_ok_def)
qed

lemma file_ok_finished:
  assumes "complete (we_read env) lm (f, h) (n, rs, hs)" "served (we_read env) (f, h)"
    and "FindFile s n = Some f" "lm = level_merge (cf_options s)" "map_of (file_cache s) n = None"
  shows "file_ok (we_read env) s n (snd (disk_file (we_read env) (f, h) (n, rs, hs)))"
  using assms by (auto simp: complete_def file_ok_def disk_file_def served_def keyless_def)

lemma means_denotes:
  assumes "means D R v b w" "distinct (map fst R)" "length FH = length R" "\<And>n. n \<in> set (map fst R) \<Longrightarrow> D n = None"
  shows "denotes (D ++ map_of (map2 (disk_file env) FH R)) v b w"
proof (cases b)
  case True
  let ?N = "map2 (disk_file env) FH R"
  have keys: "map fst ?N = map fst R" using assms(3) by (induction FH R rule: list_induct2) (simp_all add: disk_file_def)
  obtain idx r where i: "DecodeInto BlobIndex_DecodeFrom v = Inr idx" "stored D idx r \<or> points_into R idx r" "w = rec_value r"
    using assms(1) True by (auto simp: means_def)
  have "stored (D ++ map_of ?N) idx r"
  proof (cases "points_into R idx r")
    case True
    then obtain rs hs i where p: "(bi_file_number idx, rs, hs) \<in> set R" "i < length rs" "hs ! i = blob_handle idx" "rs ! i = r"
      by (auto simp: points_into_def)
    then obtain j where j: "j < length R" "R ! j = (bi_file_number idx, rs, hs)" by (auto simp: in_set_conv_nth)
    then have "?N ! j = disk_file env (FH ! j) (bi_file_number idx, rs, hs)" "j < length ?N" using assms(3) by simp_all
    then have "disk_file env (FH ! j) (bi_file_number idx, rs, hs) \<in> set ?N" by (metis nth_mem)
    then have "map_of ?N (bi_file_number idx) = Some (snd (disk_file env (FH ! j) (bi_file_number idx, rs, hs)))"
      using assms(2) keys by (intro map_of_is_SomeI) (simp_all add: disk_file_def)
    then show ?thesis using p(2-4) by (auto simp: stored_def disk_file_def)
  next
    case False
    then obtain rs hs c prefix i where "D (bi_file_number idx) = Some (rs, hs, c, prefix)" "i < length rs" "hs ! i = blob_handle idx" "rs ! i = r"
      using i(2) by (auto simp: stored_def)
    moreover from this have "map_of ?N (bi_file_number idx) = None" using assms(4) keys by (force simp: map_of_eq_None_iff simp flip: set_map)
    ultimately show ?thesis by (auto simp: stored_def map_add_def)
  qed
  then show ?thesis using i True by (auto simp: denotes_def)
qed (use assms(1) in \<open>simp add: means_def denotes_def\<close>)
lemma finished_numbers:
  "list_all2 (complete env lm) FH R \<Longrightarrow> map file_number (map fst FH) = map fst R"
  by (induction rule: list_all2_induct) (auto simp: complete_def)

lemma keys_disk_files: "length FH = length R \<Longrightarrow> map fst (map2 (disk_file env) FH R) = map fst R"
  by (induction FH R rule: list_induct2) (simp_all add: disk_file_def)

lemma disk_ok_known:
  assumes "disk_ok env D s cache" "D n = Some d"
  shows "FindFile s n \<noteq> None"
proof -
  have "file_ok env s n d" using assms unfolding disk_ok_def by blast
  then show ?thesis by (auto simp: file_ok_def split: option.splits)
qed

lemma installed_extends:
  assumes "length FH = length R" "\<And>n. n \<in> set (map fst R) \<Longrightarrow> D n = None"
  shows "D \<subseteq>\<^sub>m D ++ map_of (map2 (disk_file env) FH R)"
proof -
  have "map_of (map2 (disk_file env) FH R) n = None" if "D n \<noteq> None" for n
    using assms(2) [of n] that keys_disk_files [OF assms(1), of env] by (metis map_of_eq_None_iff set_map)
  then show ?thesis by (auto simp: map_le_def map_add_def split: option.split)
qed

text \<open>The directory after the files were installed in the storage.\<close>

definition installed :: "BlobStorage \<Rightarrow> (BlobFileMeta \<times> BlobFileHandle) list \<Rightarrow> BlobStorage \<Rightarrow> bool" where
  "installed s FH s' \<longleftrightarrow>
     (\<forall>n. FindFile s' n = (case map_of (number_files (map fst FH)) n of Some f \<Rightarrow> Some f | None \<Rightarrow> FindFile s n)) \<and>
     cf_options s' = cf_options s \<and> file_cache s' = file_cache s"

lemma installed_AddBlobFile:
  assumes "distinct (map file_number (map fst FH))" "\<And>n. n \<in> set (map file_number (map fst FH)) \<Longrightarrow> FindFile s n = None"
  shows "installed s FH (fst (ComputeGCScore (fold AddBlobFile (map fst FH) s)))"
proof -
  have "FindFile (fold AddBlobFile (map fst FH) s) n = (case map_of (number_files (map fst FH)) n of Some f \<Rightarrow> Some f | None \<Rightarrow> FindFile s n)" for n
    by (rule FindFile_fold_AddBlobFile [OF assms(1)]) (use assms(2) in auto)
  then show ?thesis by (simp add: installed_def fold_AddBlobFile_fields)
qed

lemma installed_old_file:
  assumes "installed s FH s'" "file_ok env s n d" "n \<notin> set (map file_number (map fst FH))"
  shows "file_ok env s' n d"
proof -
  have "map_of (number_files (map fst FH)) n = None" using assms(3) by (metis keys_number_files map_of_eq_None_iff set_map)
  then have "FindFile s' n = FindFile s n" "keyless s' = keyless s" "file_cache s' = file_cache s"
    using assms(1) by (simp_all add: installed_def keyless_def fun_eq_iff)
  then show ?thesis using assms(2) by (simp add: file_ok_def split: prod.splits cong: option.case_cong)
qed

lemma installed_new_file:
  assumes "installed s FH s'" "readers_known s" "complete (we_read env) lm (f, h) (n, rs, hs)" "served (we_read env) (f, h)"
    and "(f, h) \<in> set FH" "distinct (map file_number (map fst FH))" "FindFile s n = None" "lm = level_merge (cf_options s)"
  shows "file_ok (we_read env) s' n (snd (disk_file (we_read env) (f, h) (n, rs, hs)))"
proof (rule file_ok_finished [OF assms(3,4)])
  have "file_number f = n" using assms(3) by (simp add: complete_def)
  then have "(n, f) \<in> set (number_files (map fst FH))" using assms(5) by (force simp: number_files_def)
  then have "map_of (number_files (map fst FH)) n = Some f" using assms(6) by (intro map_of_is_SomeI) (simp_all add: number_files_def comp_def)
  then show "FindFile s' n = Some f" using assms(1) by (simp add: installed_def)
  show "map_of (file_cache s') n = None" using assms(1,2,7) by (auto simp: installed_def readers_known_def)
qed (use assms(1,8) in \<open>simp add: installed_def\<close>)

lemma installed_disk_ok:
  assumes old: "disk_ok (we_read env) D s cache" "readers_known s" and new: "installed s FH s'"
    and F: "list_all2 (complete (we_read env) lm) FH R" and io: "unique_prefixes (we_read env)"
    and served: "\<forall>fh \<in> set FH. served (we_read env) fh" and dist: "distinct (map fst R)"
    and fresh: "\<And>n. n \<in> set (map fst R) \<Longrightarrow> FindFile s n = None" and lm: "lm = level_merge (cf_options s)"
    and cache: "caches_ok (D ++ map_of (map2 (disk_file (we_read env)) FH R)) cache2"
  shows "disk_ok (we_read env) (D ++ map_of (map2 (disk_file (we_read env)) FH R)) s' cache2"
proof -
  let ?N = "map2 (disk_file (we_read env)) FH R"
  have len: "length FH = length R" using F by (rule list_all2_lengthD)
  have numbers: "map file_number (map fst FH) = map fst R" by (rule finished_numbers [OF F])
  have files: "file_ok (we_read env) s' n d" if d: "(D ++ map_of ?N) n = Some d" for n d
  proof (cases "map_of ?N n")
    case None
    then have Dn: "D n = Some d" using d by (simp add: map_add_def)
    have "n \<notin> set (map fst R)" using None keys_disk_files [OF len, of "we_read env"] by (metis map_of_eq_None_iff set_map)
    moreover have "file_ok (we_read env) s n d" using old(1) Dn unfolding disk_ok_def by blast
    ultimately show ?thesis using installed_old_file [OF new] numbers by metis
  next
    case (Some d')
    then have "d' = d" "(n, d) \<in> set ?N" using d by (auto simp: map_add_def dest: map_of_SomeD)
    then obtain j where j: "j < length FH" "j < length R" "(n, d) = disk_file (we_read env) (FH ! j) (R ! j)"
      by (auto simp: set_zip)
    obtain f h where fh: "FH ! j = (f, h)" by fastforce
    obtain rs hs where r: "R ! j = (n, rs, hs)" using j(3) by (cases "R ! j") (auto simp: disk_file_def)
    have n: "n \<in> set (map fst R)" using r j(2) by (metis fst_conv length_map nth_map nth_mem)
    have in_: "(f, h) \<in> set FH" using fh j(1) by (metis nth_mem)
    have fin: "complete (we_read env) lm (f, h) (n, rs, hs)" using list_all2_nthD [OF F j(1)] fh r by simp
    have "d = snd (disk_file (we_read env) (f, h) (n, rs, hs))" using j(3) fh r by (metis snd_conv)
    then show ?thesis
      using installed_new_file [OF new old(2) fin _ in_ _ fresh [OF n] lm] served in_ dist numbers by metis
  qed
  have "prefixes_apart (D ++ map_of ?N)"
    unfolding prefixes_apart_def
  proof (intro allI impI)
    fix n n' rs hs c p rs' hs' c' p' a b
    assume "(D ++ map_of ?N) n = Some (rs, hs, c, p)" "(D ++ map_of ?N) n' = Some (rs', hs', c', p')" "n \<noteq> n'"
    moreover from this have "env_open (we_read env) n = Inr (pread c, p)" "env_open (we_read env) n' = Inr (pread c', p')"
      using files [of n "(rs, hs, c, p)"] files [of n' "(rs', hs', c', p')"] by (simp_all add: file_ok_def)
    ultimately show "EncodeBlobCache p a \<noteq> EncodeBlobCache p' b" using io unfolding unique_prefixes_def by blast
  qed
  then show ?thesis using old(1) cache files unfolding disk_ok_def by blast
qed

section \<open>Properties\<close>

text \<open>
  C2. Separation of values: when the entries of a flush or compaction are added and the table is
  finished without an error, the table has one entry for each, in order, with the same user key and
  sequence number, and every entry stands for the value it stood for before: inline, in
  a blob file that was there already, or in one that the builder has written. The family then knows
  the new blob files, so that reads, which rely on just this state, return the same values.
\<close>

theorem separation_keeps_values:
  assumes base: "base_ok ops rows" "rows base = []" and io: "append_ok (we_append env)" "unique_prefixes (we_read env)"
    and s: "the_storage cf db = Some s" "readers_known s" "disk_ok (we_read env) D s cache"
    and new: "NewTableBuilder opts mode cf level start base db = Some tb" "level_merge opts = level_merge (cf_options s)"
    and inp: "\<forall>e \<in> set es. input_ok opts D s e"
    and run: "add_entries env ops es tb cache db = (tb1, cache1, db1)" "TitanTableBuilder_status ops tb1 = OK"
    and fin: "TitanTableBuilder_Finish env ops tb1 db1 = (OK, tb2, db2)" "\<forall>fh \<in> set (tb_finished_blobs tb2). served (we_read env) fh"
  shows "\<exists>D' s2. the_storage cf db2 = Some s2 \<and> D \<subseteq>\<^sub>m D' \<and> list_all2 (same_entry D D') es (rows (tb_base tb2)) \<and>
    (\<forall>cache2. caches_ok D' cache2 \<longrightarrow> disk_ok (we_read env) D' s2 cache2)"
proof -
  note new' = new_builder_inv [of opts mode cf level start base db tb s env D cache rows, OF new(1) s(1,3,2) base(2)]
  have "\<forall>e \<in> set es. input_ok (tb_cf_options tb) D s e" using inp by (simp add: input_ok_def new'(3))
  moreover have "tb_ok ops tb1" using run(2) by simp
  ultimately obtain R where inv: "builder_inv env rows D s tb1 cache1 db1 R es" and c: "config tb1 = config tb"
    using add_entries_keeps [OF base(1) new'(1) _ run(1)] by auto
  obtain fs' where F: "list_all2 (finished_as env (tb_cf_options tb1) (tb_target_level tb1)) (tb_finished_blobs tb2) R"
    "list_all2 (kept D R) es (rows (tb_base tb2))"
    "LogAndApply (io_log_add (we_io env)) (io_log_sync (we_io env)) (adds_edit (tb_cf_id tb1) (map fst (tb_finished_blobs tb2))) (blob_file_set db1) = (OK, fs')"
    "blob_file_set db2 = fs'"
    by (rule Finish_parts [OF inv \<open>tb_ok ops tb1\<close> base(1) fin(1)])
  have cf: "tb_cf_id tb1 = cf" "level_merge (tb_cf_options tb1) = level_merge (cf_options s)" using c new' new(2) by (simp_all add: config_def)
  obtain s1 where s1: "the_storage cf db1 = Some s1" "cf_options s1 = cf_options s" "disk_ok (we_read env) D s1 cache1" "readers_known s1"
    using inv cf(1) by (auto simp: builder_inv_def)
  let ?FH = "tb_finished_blobs tb2" and ?s2 = "fst (ComputeGCScore (fold AddBlobFile (map fst (tb_finished_blobs tb2)) s1))"
  let ?D = "D ++ map_of (map2 (disk_file (we_read env)) ?FH R)"
  note L = LogAndApply_adds [OF F(3)[unfolded cf(1)]]
  have s2: "the_storage cf db2 = Some ?s2" using L s1(1) F(4) by (simp add: GetBlobStorage_def)
  have comp: "list_all2 (complete (we_read env) (level_merge (tb_cf_options tb1))) ?FH R"
    using F(1) by (rule list_all2_mono) (rule complete_finished [OF io(1)])
  have numbers: "map file_number (map fst ?FH) = map fst R" using finished_numbers [OF comp] .
  have fresh: "FindFile s1 n = None" if "n \<in> set (map fst R)" for n
    using that numbers L s1(1) by (metis (no_types, lifting) GetBlobStorage_def image_iff set_map)
  have dist: "distinct (map fst R)" using L numbers by metis
  have D0: "D n = None" if "n \<in> set (map fst R)" for n
    using fresh [OF that] disk_ok_known [OF s1(3)] by (cases "D n") auto
  have len: "length ?FH = length R" using F(1) by (rule list_all2_lengthD)
  have lm: "level_merge (tb_cf_options tb1) = level_merge (cf_options s1)" unfolding s1(2) by (rule cf(2))
  have inst: "installed s1 ?FH ?s2" by (rule installed_AddBlobFile) (simp_all only: numbers dist fresh)
  have "list_all2 (same_entry D ?D) es (rows (tb_base tb2))"
    using F(2) means_denotes [OF _ dist len D0] by (elim list_all2_mono) (auto simp: kept_def same_entry_def)
  moreover have "disk_ok (we_read env) ?D ?s2 cache2" if "caches_ok ?D cache2" for cache2
    by (rule installed_disk_ok [OF s1(3,4) inst comp io(2) fin(2) dist fresh lm that])
  moreover have "D \<subseteq>\<^sub>m ?D" by (rule installed_extends [OF len D0])
  ultimately show ?thesis using s2 by blast
qed
section \<open>Witnesses\<close>

text \<open>A table builder that collects its entries in a list.\<close>

definition list_ops :: "(bytes \<times> bytes) list base_ops" where
  "list_ops = \<lparr>base_Add = \<lambda>k v b. b @ [(k, v)], base_status = \<lambda>_. OK, base_Finish = id, base_Abandon = id,
     base_NumEntries = \<lambda>b. word_of_nat (length b), base_FileSize = \<lambda>_. 0, base_NeedCompact = \<lambda>_. False\<rparr>"

definition w_sep_file :: bytes where
  "w_sep_file = [20, 166, 224, 43, 1, 0, 0, 0, 0, 0, 0, 0, 5, 0, 0, 0, 0, 1, 5, 2, 7, 8,
   0, 0, 0, 0, 0, 0, 0, 0, 0, 0, 0, 0, 0, 0, 0, 0, 0, 0, 0, 0, 198, 237, 57, 142, 20, 166, 224, 43, 0, 0, 0, 0]"

definition w_sep_env :: write_env where
  "w_sep_env = \<lparr>we_read = \<lparr>env_libs = zero_libs, env_crc = \<lambda>a _. a,
       env_open = \<lambda>n. if n = 1 then Inr (pread w_sep_file, [1]) else Inl IOError, env_building = \<lambda>_ _ _. Inl IOError\<rparr>,
     we_append = w_append, we_flush = OK, we_io = w_manager_io\<rparr>"

text \<open>A large value, a small one and a deletion.\<close>

definition w_sep_entries :: "(bytes \<times> bytes) list" where
  "w_sep_entries = [(AppendInternalKey [] \<lparr>user_key = [5], sequence = 2, ik_type = 1\<rparr>, [7, 8]),
     (AppendInternalKey [] \<lparr>user_key = [6], sequence = 3, ik_type = 1\<rparr>, [9]), (AppendInternalKey [] \<lparr>user_key = [7], sequence = 4, ik_type = 0\<rparr>, [])]"

definition w_sep_opts :: TitanCFOptions where
  "w_sep_opts = w_cf\<lparr>min_blob_size := 2\<rparr>"

definition w_sep_db :: TitanDB where
  "w_sep_db = new_TitanDB ((new_BlobFileSet default_TitanDBOptions)\<lparr>column_families := [(0, w_storage0)], manifest := Some []\<rparr>)"

definition w_sep_added :: "(bytes \<times> bytes) list TitanTableBuilder \<times> blob_cache option \<times> TitanDB" where
  "w_sep_added = add_entries w_sep_env list_ops w_sep_entries
     (the (NewTableBuilder w_sep_opts kRunNormal 0 0 (-1) [] w_sep_db)) None w_sep_db"

definition w_sep_done :: "Status \<times> (bytes \<times> bytes) list TitanTableBuilder \<times> TitanDB" where
  "w_sep_done = TitanTableBuilder_Finish w_sep_env list_ops (fst w_sep_added) (snd (snd w_sep_added))"
lemma w_sep_run:
  "(let a = w_sep_added; d = TitanTableBuilder_Finish w_sep_env list_ops (fst a) (snd (snd a))
    in (TitanTableBuilder_status list_ops (fst a), fst d, map (\<lambda>(f, h). (hd_number h, hd_file h)) (tb_finished_blobs (fst (snd d)))))
   = (OK, OK, [(1, w_sep_file)])"
  by code_simp

lemma w_sep_results:
  "TitanTableBuilder_status list_ops (fst w_sep_added) = OK" "fst w_sep_done = OK"
  "map (\<lambda>(f, h). (hd_number h, hd_file h)) (tb_finished_blobs (fst (snd w_sep_done))) = [(1, w_sep_file)]"
  using w_sep_run by (simp_all only: prod.inject Let_def w_sep_done_def)

lemma w_sep_base: "base_ok list_ops id"
  by (simp add: base_ok_def list_ops_def)

lemma w_sep_storage: "the_storage 0 w_sep_db = Some w_storage0" "readers_known w_storage0" "disk_ok (we_read w_sep_env) Map.empty w_storage0 None"
  using zero_libs_ok
  by (simp_all add: w_sep_db_def new_TitanDB_def GetBlobStorage_def readers_known_def w_storage0_files disk_ok_def prefixes_apart_def caches_ok_def
      w_sep_env_def) (simp add: w_storage0_def new_BlobStorage_def)

lemma w_sep_inputs: "\<forall>e \<in> set w_sep_entries. input_ok w_sep_opts Map.empty w_storage0 e"
  by (auto simp: w_sep_entries_def input_ok_def Parse_Append IsExtendedValueType_def IsValueType_def record_ok_def
      BlobRecord_EncodeTo_def PutLengthPrefixedSlice_def PutVarint32_def EncodeVarint32_def)

theorem separation_keeps_values_witness:
  "\<exists>D. list_all2 (same_entry Map.empty D) w_sep_entries (tb_base (fst (snd w_sep_done)))"
proof -
  let ?tb = "the (NewTableBuilder w_sep_opts kRunNormal 0 0 (-1) [] w_sep_db)" and ?R = "we_read w_sep_env"
  have new: "NewTableBuilder w_sep_opts kRunNormal 0 0 (-1) [] w_sep_db = Some ?tb"
    using w_sep_storage(1) by (simp add: NewTableBuilder_def Let_def)
  have lm: "level_merge w_sep_opts = level_merge (cf_options w_storage0)" by (simp add: w_sep_opts_def w_storage0_files)
  have run: "add_entries w_sep_env list_ops w_sep_entries ?tb None w_sep_db = (fst w_sep_added, fst (snd w_sep_added), snd (snd w_sep_added))"
    by (simp add: w_sep_added_def)
  have fin: "TitanTableBuilder_Finish w_sep_env list_ops (fst w_sep_added) (snd (snd w_sep_added)) = (OK, fst (snd w_sep_done), snd (snd w_sep_done))"
    using w_sep_results(2) by (metis prod.collapse w_sep_done_def)
  have "append_ok (we_append w_sep_env)" using w_append_ok by (simp add: w_sep_env_def)
  moreover have "unique_prefixes ?R" by (simp add: unique_prefixes_def w_sep_env_def)
  moreover have "\<forall>fh \<in> set (tb_finished_blobs (fst (snd w_sep_done))). served ?R fh"
  proof
    fix fh assume "fh \<in> set (tb_finished_blobs (fst (snd w_sep_done)))"
    then have "(hd_number (snd fh), hd_file (snd fh)) \<in> set (map (\<lambda>(f, h). (hd_number h, hd_file h)) (tb_finished_blobs (fst (snd w_sep_done))))"
      by (force simp: split_beta)
    then show "served ?R fh" unfolding w_sep_results(3) by (simp add: served_def w_sep_env_def) (simp add: w_sep_file_def)
  qed
  ultimately show ?thesis
    using separation_keeps_values [OF w_sep_base _ _ _ w_sep_storage new lm w_sep_inputs run w_sep_results(1) fin] by auto
qed

end
