(* ===== verification/Table_Safety.thy ===== *)
theory Table_Safety
  imports Value_Separation
begin

text \<open>
  The pointers and blob files of a table builder, for every input and every answer of the environment,
  and what the builder makes of failures.
\<close>

section \<open>Handles and finished files\<close>

text \<open>A finished file: its metadata describes the content behind its handle, and the file is pending.\<close>

definition finished_ok :: "int \<Rightarrow> TitanDB \<Rightarrow> BlobFileMeta \<times> BlobFileHandle \<Rightarrow> bool" where
  "finished_ok level db fh \<longleftrightarrow>
     (case fh of (f, h) \<Rightarrow>
        file_number f = hd_number h \<and> file_size f = word_of_nat (length (hd_file h)) \<and> file_type f = kSorted \<and>
        file_state f = kPendingLSM \<and> file_level f = word_of_int level \<and> hd_number h \<in> set (pending_outputs db))"

definition builder_typed :: "'b base_ops \<Rightarrow> 'b TitanTableBuilder \<Rightarrow> TitanDB \<Rightarrow> bool" where
  "builder_typed ops tb db \<longleftrightarrow>
     (tb_ok ops tb \<longrightarrow> (tb_blob_builder tb = None \<longleftrightarrow> tb_blob_handle tb = None)) \<and>
     (\<forall>h. tb_blob_handle tb = Some h \<longrightarrow> hd_number h \<in> set (pending_outputs db)) \<and>
     (tb_ok ops tb \<longrightarrow> (\<forall>fh \<in> set (tb_finished_blobs tb). finished_ok (tb_target_level tb) db fh))"

lemma pending_put_storage [simp]: "pending_outputs (put_storage cf s db) = pending_outputs db"
  by (simp add: put_storage_def)

lemma finished_ok_pending: "pending_outputs db' = pending_outputs db \<Longrightarrow> finished_ok l db' fh = finished_ok l db fh"
  by (simp add: finished_ok_def)

lemma builder_typed_frame:
  assumes "builder_typed ops tb db" "tb_ok ops tb' \<Longrightarrow> tb_ok ops tb" "pending_outputs db' = pending_outputs db"
    and "tb_blob_builder tb' = tb_blob_builder tb" "tb_blob_handle tb' = tb_blob_handle tb" "tb_finished_blobs tb' = tb_finished_blobs tb"
      "tb_target_level tb' = tb_target_level tb"
  shows "builder_typed ops tb' db'"
  using assms by (auto simp: builder_typed_def finished_ok_pending [OF assms(3)])

lemma FinishBlobFile_typed:
  assumes "builder_typed ops tb db" "tb_ok ops tb" "FinishBlobFile env ops tb db = (tb', db')"
  shows "builder_typed ops tb' db'"
proof (cases "tb_blob_builder tb")
  case None
  then show ?thesis using assms by (simp add: FinishBlobFile_def)
next
  case (Some b)
  obtain h where h: "tb_blob_handle tb = Some h" "hd_number h \<in> set (pending_outputs db)" using assms(1,2) Some by (auto simp: builder_typed_def)
  obtain s b' where f: "BlobFileBuilder_Finish (env_crc (we_read env)) (we_append env) (we_flush env) b = (s, b')" by fastforce
  let ?tb = "tb\<lparr>tb_blob_builder := Some b'\<rparr>"
  show ?thesis
  proof (cases "tb_ok ops ?tb")
    case True
    then show ?thesis
      using assms Some h f
      by (auto simp: FinishBlobFile_def builder_typed_def finished_ok_def transit_def new_BlobFileMeta_def Let_def)
  next
    case False
    then have "\<not> tb_ok ops (?tb\<lparr>tb_status := st, tb_blob_handle := None\<rparr>)" for st
      using tb_okD [OF assms(2)] by (simp add: tb_ok_iff)
    moreover have "tb' = ?tb\<lparr>tb_status := fst (DeleteFile (we_io env) h db), tb_blob_handle := None\<rparr>"
      using assms(3) Some h f False by (auto simp: FinishBlobFile_def Let_def split: prod.splits)
    ultimately show ?thesis by (simp add: builder_typed_def)
  qed
qed

lemma NewFile_pending:
  "NewFile io db = (Inr h, db') \<Longrightarrow> pending_outputs db' = List.insert (hd_number h) (pending_outputs db)"
  "NewFile io db = (Inl s, db') \<Longrightarrow> pending_outputs db' = pending_outputs db \<and> s \<noteq> OK"
  by (auto simp: NewFile_def NewFileNumber_def Let_def ok_def split: if_splits)

lemma ensure_blob_builder_typed:
  assumes "builder_typed ops tb db" "tb_ok ops tb" "ensure_blob_builder env tb db = (tb', db')"
  shows "builder_typed ops tb' db'" "ok (tb_status tb') \<Longrightarrow> tb_blob_builder tb' \<noteq> None \<and> tb_blob_handle tb' \<noteq> None"
    "base_status ops (tb_base tb') = OK"
proof -
  show "base_status ops (tb_base tb') = OK"
    using ensure_blob_builder_base [of env tb db] assms(3) tb_okD(2) [OF assms(2)] by simp
  show "builder_typed ops tb' db'"
    using assms NewFile_pending [of "we_io env" db]
    by (auto simp: ensure_blob_builder_def builder_typed_def finished_ok_def tb_ok_iff split: option.splits sum.splits prod.splits)
  show "tb_blob_builder tb' \<noteq> None \<and> tb_blob_handle tb' \<noteq> None" if "ok (tb_status tb')"
    using that assms NewFile_pending(2) [of "we_io env" db]
    by (auto simp: ensure_blob_builder_def builder_typed_def ok_def split: option.splits sum.splits prod.splits)
qed
lemma count_live_pending [simp]: "pending_outputs (count_live cf val db) = pending_outputs db"
  by (simp add: count_live_def split: option.split)

text \<open>Writing a value never follows a null handle.\<close>

lemma AddBlob_typed:
  assumes t: "builder_typed ops tb db" and add: "AddBlob env ops key val tb db = (v, tb', db')"
  shows "builder_typed ops tb' db'"
proof (cases "tb_ok ops tb")
  case False
  then show ?thesis using assms by (simp add: AddBlob_def)
next
  case True
  obtain tb1 db1 where e: "ensure_blob_builder env tb db = (tb1, db1)" by fastforce
  note E = ensure_blob_builder_typed [OF t True e]
  show ?thesis
  proof (cases "ok (tb_status tb1)")
    case False
    then show ?thesis using add True e E(1) by (simp add: AddBlob_def)
  next
    case ok: True
    then obtain b h where b: "tb_blob_builder tb1 = Some b" "tb_blob_handle tb1 = Some h" using E(2) by auto
    let ?r = "\<lparr>rec_key = key, rec_value = val, only_value = level_merge (tb_cf_options tb1)\<rparr>"
    obtain bh b2 where a: "BlobFileBuilder_Add (env_libs (we_read env)) (env_crc (we_read env)) (we_append env) ?r \<lparr>bh_offset = 0, bh_size = 0\<rparr> b = (bh, b2)"
      by fastforce
    let ?tb2 = "tb1\<lparr>tb_blob_builder := Some b2, tb_bytes_written := tb_bytes_written tb1 + word_of_nat (length key + length val + BlobRecord_size ?r)\<rparr>"
    let ?db2 = "count_live (tb_cf_id tb1) val db1"
    have "bb_status b2 = OK \<Longrightarrow> bb_status b = OK" using a by (auto simp: BlobFileBuilder_Add_def ok_def split: if_splits)
    then have "tb_ok ops ?tb2 \<Longrightarrow> tb_ok ops tb1" using b by (auto simp: tb_ok_iff)
    then have t2: "builder_typed ops ?tb2 ?db2" using E(1) b by (auto simp: builder_typed_def finished_ok_def)
    let ?full = "blob_file_target_size (tb_cf_options tb1) \<le> word_of_nat (length (bb_file b2))"
    have "snd (AddBlob env ops key val tb db) =
        (if tb_ok ops ?tb2 \<and> ?full then FinishBlobFile env ops ?tb2 ?db2 else (?tb2, ?db2))"
      using True e ok b a by (simp add: AddBlob_def Let_def split_beta)
    then show ?thesis using add t2 FinishBlobFile_typed [OF t2, of env tb' db'] by (simp split: if_splits)
  qed
qed

lemma base_add_typed: "builder_typed ops tb db \<Longrightarrow> base_status ops (tb_base tb) = OK \<Longrightarrow> builder_typed ops (base_add ops k v tb) db"
  by (rule builder_typed_frame) (auto simp: base_add_def tb_ok_iff)

lemma encounter_fields:
  assumes "encounter n tb db = (fl, tb')"
  shows "tb_blob_builder tb' = tb_blob_builder tb" "tb_blob_handle tb' = tb_blob_handle tb" "tb_finished_blobs tb' = tb_finished_blobs tb"
    "tb_target_level tb' = tb_target_level tb" "tb_base tb' = tb_base tb" "tb_ok ops tb' \<Longrightarrow> tb_status tb = OK"
  using assms by (auto simp: encounter_def tb_ok_iff split: option.splits)

lemma merging_prefetcher_fields:
  assumes "merging_prefetcher env n tb db = (r, tb', db')"
  shows "tb_blob_builder tb' = tb_blob_builder tb" "tb_blob_handle tb' = tb_blob_handle tb" "tb_finished_blobs tb' = tb_finished_blobs tb"
    "tb_target_level tb' = tb_target_level tb" "tb_base tb' = tb_base tb" "pending_outputs db' = pending_outputs db"
  using assms by (auto simp: merging_prefetcher_def Let_def split: option.splits sum.splits prod.splits)

lemma Add_merge_typed:
  assumes t: "builder_typed ops tb db" and ok: "tb_ok ops tb" and add: "Add_merge env ops ik key val tb cache db = (tb', cache', db')"
  shows "builder_typed ops tb' db'"
proof (cases "BlobIndex_DecodeFrom val")
  case (Inl s)
  then show ?thesis using add by (intro builder_typed_frame [OF t]) (auto simp: Add_merge_def ok)
next
  case (Inr p)
  let ?n = "bi_file_number (fst p)"
  obtain fl tb1 where e: "encounter ?n tb db = (fl, tb1)" by fastforce
  note E = encounter_fields [OF e]
  have t1: "builder_typed ops tb1 db" using E(1-4) by (intro builder_typed_frame [OF t]) (simp_all add: ok)
  have b1: "base_status ops (tb_base tb1) = OK" using tb_okD(2) [OF ok] E(5) by simp
  obtain r tb2 db2 where m: "merging_prefetcher env ?n tb1 db = (r, tb2, db2)" by (metis prod_cases3)
  note M = merging_prefetcher_fields [OF m]
  have t2: "builder_typed ops (tb2\<lparr>tb_merging_files := x\<rparr>) db2" for x
    using M E(1-5) by (intro builder_typed_frame [OF t]) (simp_all add: ok)
  have b2: "base_status ops (tb_base tb2) = OK" using b1 M(5) by simp
  consider "tb' = tb1" "db' = db" | "tb' = base_add ops key val tb1" "db' = db" | x where "tb' = base_add ops key val (tb2\<lparr>tb_merging_files := x\<rparr>)" "db' = db2"
    | x w v tb3 k' v' where "AddBlob env ops (user_key ik) w (tb2\<lparr>tb_merging_files := x\<rparr>) db2 = (v, tb3, db')" "tb' = base_add ops k' v' tb3"
  proof -
    show thesis
      using add Inr e m that(1,2) that(3) [of "tb_merging_files tb2"] that(3,4)
      by (auto simp: Add_merge_def Let_def split: if_splits sum.splits prod.splits)
  qed
  then show ?thesis
  proof cases
    case (4 x w v tb3 k' v')
    then have "tb_base tb3 = tb_base tb2" using AddBlob_base [of env ops "user_key ik" w "tb2\<lparr>tb_merging_files := x\<rparr>" db2] by simp
    then show ?thesis using AddBlob_typed [OF t2 4(1)] base_add_typed b2 4(2) by metis
  qed (use t1 t2 b1 b2 base_add_typed [of ops] in \<open>simp_all\<close>)
qed

lemma Add_fallback_typed:
  assumes t: "builder_typed ops tb db" and ok: "tb_ok ops tb" and add: "Add_fallback env ops ik key val tb cache db = (tb', cache', db')"
  shows "builder_typed ops tb' db'"
  using add
  by (intro builder_typed_frame [OF t])
    (auto simp: Add_fallback_def base_add_def Let_def ok split: sum.splits option.splits prod.splits)

lemma Add_typed:
  assumes t: "builder_typed ops tb db" and add: "TitanTableBuilder_Add env ops key val tb cache db = (tb', cache', db')"
  shows "builder_typed ops tb' db'"
proof (cases "tb_ok ops tb")
  case False
  then show ?thesis using assms by (simp add: TitanTableBuilder_Add_def)
next
  case ok: True
  show ?thesis
  proof (cases "ParseInternalKey key")
    case None
    then show ?thesis using add ok by (intro builder_typed_frame [OF t]) (auto simp: TitanTableBuilder_Add_def)
  next
    case (Some ik)
    obtain v tb1 db1 where a: "AddBlob env ops (user_key ik) val tb db = (v, tb1, db1)" by (metis prod_cases3)
    have b1: "base_status ops (tb_base tb1) = OK" using AddBlob_base [of env ops "user_key ik" val tb db] a tb_okD(2) [OF ok] by simp
    have sep: "builder_typed ops (fst (Add_separate env ops ik val tb db)) (snd (Add_separate env ops ik val tb db))"
      using AddBlob_typed [OF t a] base_add_typed [OF _ b1] by (simp add: Add_separate_def a)
    show ?thesis
      using add ok Some sep base_add_typed [OF t tb_okD(2) [OF ok]] Add_fallback_typed [OF t ok] Add_merge_typed [OF t ok]
      by (auto simp: TitanTableBuilder_Add_def split: if_splits prod.splits)
  qed
qed

lemma add_entries_typed:
  "builder_typed ops tb db \<Longrightarrow> add_entries env ops es tb cache db = (tb', cache', db') \<Longrightarrow> builder_typed ops tb' db'"
proof (induction es arbitrary: tb cache db)
  case (Cons e es)
  obtain k v where e: "e = (k, v)" by fastforce
  obtain tb1 cache1 db1 where a: "TitanTableBuilder_Add env ops k v tb cache db = (tb1, cache1, db1)" by (metis prod_cases3)
  show ?case using Cons.IH [OF Add_typed [OF Cons.prems(1) a]] Cons.prems(2) by (simp add: e a)
qed simp
section \<open>Properties\<close>



text \<open>
  C35. A failure to finish a blob file in the middle of a table: the handle is given away for deletion
  but the blob builder stays, and both the end of the table and its abandonment follow the null handle.
\<close>

theorem failed_blob_file_null_handle:
  assumes "tb_ok ops tb" "tb_blob_builder tb = Some b" "tb_blob_handle tb = Some h"
    and "BlobFileBuilder_Finish (env_crc (we_read env)) (we_append env) (we_flush env) b = (st, b')" "st \<noteq> OK"
    and "FinishBlobFile env ops tb db = (tb', db')"
  shows "\<not> tb_ok ops tb' \<and> fst (TitanTableBuilder_Finish env' ops tb' db'') = Undefined \<and>
    tb_status (fst (TitanTableBuilder_Abandon env' ops tb' db'')) = Undefined"
proof -
  have st: "bb_status b' = st" using assms(4) by (auto simp: BlobFileBuilder_Finish_def Let_def split: if_splits prod.splits)
  then have "\<not> tb_ok ops (tb\<lparr>tb_blob_builder := Some b'\<rparr>)" using assms(5) by (simp add: tb_ok_iff)
  then have tb': "tb_blob_builder tb' = Some b'" "tb_blob_handle tb' = None"
    using assms(2-4,6) by (auto simp: FinishBlobFile_def Let_def split: prod.splits)
  then have "\<not> tb_ok ops tb'" using st assms(5) by (simp add: tb_ok_iff)
  moreover have "fst (TitanTableBuilder_Finish env' ops tb' db'') = Undefined"
    using tb' by (simp add: TitanTableBuilder_Finish_def FinishBlobFile_def split_beta Let_def)
  moreover have "tb_status (fst (TitanTableBuilder_Abandon env' ops tb' db'')) = Undefined"
    using tb' by (simp add: TitanTableBuilder_Abandon_def Let_def)
  ultimately show ?thesis by blast
qed

definition w_open_builder :: "(bytes \<times> bytes) list TitanTableBuilder" where
  "w_open_builder = (new_TitanTableBuilder 0 w_sep_opts [] 1 0 (-1) w_storage0)
     \<lparr>tb_blob_handle := Some \<lparr>hd_number = 1, hd_file = []\<rparr>, tb_blob_builder := Some (new_BlobFileBuilder w_append w_sep_opts)\<rparr>"

lemma w_open_builder_fields:
  "tb_ok list_ops w_open_builder" "tb_blob_builder w_open_builder = Some (new_BlobFileBuilder w_append w_sep_opts)"
  "tb_blob_handle w_open_builder = Some \<lparr>hd_number = 1, hd_file = []\<rparr>" "tb_finished_blobs w_open_builder = []" "tb_cf_id w_open_builder = 0"
  by (simp_all add: w_open_builder_def tb_ok_iff list_ops_def new_TitanTableBuilder_def new_BlobFileBuilder_def w_append_def)

theorem failed_blob_file_null_handle_witness:
  "fst (TitanTableBuilder_Finish w_sep_env list_ops (fst (FinishBlobFile (w_sep_env\<lparr>we_flush := IOError\<rparr>) list_ops w_open_builder w_sep_db)) w_sep_db) = Undefined"
proof -
  let ?env = "w_sep_env\<lparr>we_flush := IOError\<rparr>" and ?b = "new_BlobFileBuilder w_append w_sep_opts"
  have "fst (BlobFileBuilder_Finish (env_crc (we_read ?env)) (we_append ?env) (we_flush ?env) ?b) = IOError"
    by (simp add: BlobFileBuilder_Finish_def new_BlobFileBuilder_def w_sep_env_def w_append_def Let_def)
  then have "BlobFileBuilder_Finish (env_crc (we_read ?env)) (we_append ?env) (we_flush ?env) ?b
      = (IOError, snd (BlobFileBuilder_Finish (env_crc (we_read ?env)) (we_append ?env) (we_flush ?env) ?b))" by (metis prod.collapse)
  from failed_blob_file_null_handle [OF w_open_builder_fields(1-3) this _ prod.collapse [symmetric]] show ?thesis by blast
qed



end
