(* ===== verification/Foreground_Builder.thy ===== *)
theory Foreground_Builder
  imports Table_Builder
begin

text \<open>
  \<^verbatim>\<open>ForegroundBuilder\<close> (\<^verbatim>\<open>table_builder.h/.cc\<close>): the separation of values before they reach the memtable,
  and its users in \<^verbatim>\<open>db_impl.cc\<close>, \<^verbatim>\<open>Put\<close> and \<^verbatim>\<open>OnMemTableSealed\<close>.

  A caller of \<^verbatim>\<open>Add\<close> queues a request and waits for the answer of the thread of that queue, so a request
  is one step. The result \<open>None\<close> is the end of the process, by \<^verbatim>\<open>abort\<close> or by following a null
  pointer. \<^verbatim>\<open>std::hash\<close> is a parameter. A write batch is the list of its blob indexes: column
  family, key and entry. The LSM tree of RocksDB is given by its operations \<open>lsm_ops\<close>.
\<close>

type_synonym WriteBatch = "(u32 \<times> bytes \<times> bytes) list"

record 'l lsm_ops =
  lsm_Get :: "u32 \<Rightarrow> bytes \<Rightarrow> 'l \<Rightarrow> Status + bytes \<times> bool"
  lsm_Write :: "WriteBatch \<Rightarrow> 'l \<Rightarrow> Status \<times> 'l"
  lsm_Put :: "u32 \<Rightarrow> bytes \<Rightarrow> bytes \<Rightarrow> 'l \<Rightarrow> Status \<times> 'l"
  lsm_sequence :: "'l \<Rightarrow> u64"

definition PutBlobIndex :: "u32 \<Rightarrow> bytes \<Rightarrow> bytes \<Rightarrow> WriteBatch \<Rightarrow> Status \<times> WriteBatch" where
  "PutBlobIndex cf key entry wb = (OK, wb @ [(cf, key, entry)])"

record ForegroundBuilder =
  fb_num_builders :: nat
  fb_cf_id :: u32
  fb_cf_options :: TitanCFOptions
  fb_handle :: "BlobFileHandle option list"
  fb_builder :: "BlobFileBuilder option list"
  fb_finished_files :: "(BlobFileMeta \<times> BlobFileHandle) list list"

definition new_ForegroundBuilder :: "u32 \<Rightarrow> TitanDBOptions \<Rightarrow> TitanCFOptions \<Rightarrow> ForegroundBuilder" where
  "new_ForegroundBuilder cf db_opts opts =
     (let n = num_foreground_builders db_opts
      in \<lparr>fb_num_builders = n, fb_cf_id = cf, fb_cf_options = opts, fb_handle = replicate n None, fb_builder = replicate n None,
          fb_finished_files = replicate n []\<rparr>)"

definition ForegroundBuilder_Init :: "ForegroundBuilder \<Rightarrow> ForegroundBuilder" where
  "ForegroundBuilder_Init fb =
     (let n = fb_num_builders fb
      in fb\<lparr>fb_handle := replicate n None, fb_builder := replicate n None, fb_finished_files := replicate n []\<rparr>)"

section \<open>The requests of a queue\<close>

definition FinishBlob :: "write_env \<Rightarrow> nat \<Rightarrow> ForegroundBuilder \<Rightarrow> ForegroundBuilder option" where
  "FinishBlob env b fb =
     (case (fb_builder fb ! b, fb_handle fb ! b) of
        (None, None) \<Rightarrow> Some fb
      | (Some bl, Some h) \<Rightarrow>
          (let (s, bl) = BlobFileBuilder_Finish (env_crc (we_read env)) (we_append env) (we_flush env) bl
           in if ok s then
                let f = new_BlobFileMeta\<lparr>file_number := hd_number h, file_size := word_of_nat (length (bb_file bl)),
                          file_entries := bb_num_entries bl, file_level := 0,
                          smallest_key := bb_smallest_key bl, largest_key := bb_largest_key bl, file_type := kUnSorted\<rparr>;
                    f = transit kReset f
                in Some (fb\<lparr>fb_finished_files := (fb_finished_files fb)[b := fb_finished_files fb ! b @ [(f, h\<lparr>hd_file := bb_file bl\<rparr>)]],
                            fb_builder := (fb_builder fb)[b := None], fb_handle := (fb_handle fb)[b := None]\<rparr>)
              else None)
      | _ \<Rightarrow> None)"

text \<open>A request to flush: it is told from the others by its empty key.\<close>

definition flush_request :: "write_env \<Rightarrow> nat \<Rightarrow> ForegroundBuilder \<Rightarrow> TitanDB \<Rightarrow> (ForegroundBuilder \<times> TitanDB) option" where
  "flush_request env b fb db =
     do { fb \<leftarrow> FinishBlob env b fb;
          Some (if fb_finished_files fb ! b \<noteq> []
                then (fb\<lparr>fb_finished_files := (fb_finished_files fb)[b := []]\<rparr>,
                      snd (BatchFinishFiles (we_io env) (fb_cf_id fb) (fb_finished_files fb ! b) db))
                else (fb, db)) }"

text \<open>The file to write to, the current one or a new one, which readers learn of at once.\<close>

definition ensure_builder ::
  "write_env \<Rightarrow> (u64 \<Rightarrow> Status) \<Rightarrow> nat \<Rightarrow> ForegroundBuilder \<Rightarrow> TitanDB \<Rightarrow> (Status \<times> ForegroundBuilder \<times> TitanDB) option" where
  "ensure_builder env open_building b fb db =
     (if fb_handle fb ! b = None \<and> fb_builder fb ! b = None then
        (case NewFile (we_io env) db of
           (Inl s, db) \<Rightarrow> Some (s, fb, db)
         | (Inr h, db) \<Rightarrow>
             (case the_storage (fb_cf_id fb) db of
                None \<Rightarrow> None
              | Some st \<Rightarrow>
                  Some (OK, fb\<lparr>fb_handle := (fb_handle fb)[b := Some h],
                               fb_builder := (fb_builder fb)[b := Some (new_BlobFileBuilder (we_append env) (fb_cf_options fb))]\<rparr>,
                        put_storage (fb_cf_id fb) (snd (AddBuildingFile (open_building (hd_number h)) (hd_number h) st)) db)))
      else Some (OK, fb, db))"

definition write_request ::
  "write_env \<Rightarrow> (u64 \<Rightarrow> Status) \<Rightarrow> nat \<Rightarrow> bytes \<Rightarrow> bytes \<Rightarrow> WriteBatch \<Rightarrow> ForegroundBuilder \<Rightarrow> TitanDB
     \<Rightarrow> (Status \<times> WriteBatch \<times> ForegroundBuilder \<times> TitanDB) option" where
  "write_request env open_building b key val wb fb db =
     do { (s, fb, db) \<leftarrow> ensure_builder env open_building b fb db;
          if \<not> ok s then Some (s, wb, fb, db)
          else
            (case (fb_builder fb ! b, fb_handle fb ! b) of
               (Some bl, Some h) \<Rightarrow>
                 (let r = \<lparr>rec_key = key, rec_value = val, only_value = False\<rparr>;
                      (bh, bl) = BlobFileBuilder_Add (env_libs (we_read env)) (env_crc (we_read env)) (we_append env) r
                                   \<lparr>bh_offset = 0, bh_size = 0\<rparr> bl;
                      fb = fb\<lparr>fb_builder := (fb_builder fb)[b := Some bl]\<rparr>;
                      db = count_live (fb_cf_id fb) val db
                  in do { fb \<leftarrow> (if word_of_nat (length (bb_file bl)) \<ge> blob_file_target_size (fb_cf_options fb)
                                 then FinishBlob env b fb else Some fb);
                          let index_entry = BlobIndex_EncodeTo \<lparr>bi_file_number = hd_number h, blob_handle = bh\<rparr> [];
                          let (s, wb) = PutBlobIndex (fb_cf_id fb) key index_entry wb;
                          Some (s, wb, fb, db) })
             | _ \<Rightarrow> None) }"

definition handleRequest ::
  "write_env \<Rightarrow> (u64 \<Rightarrow> Status) \<Rightarrow> nat \<Rightarrow> bytes \<Rightarrow> bytes \<Rightarrow> WriteBatch \<Rightarrow> ForegroundBuilder \<Rightarrow> TitanDB
     \<Rightarrow> (Status \<times> WriteBatch \<times> ForegroundBuilder \<times> TitanDB) option" where
  "handleRequest env open_building b key val wb fb db =
     (if key = [] then do { (fb, db) \<leftarrow> flush_request env b fb db; Some (OK, wb, fb, db) }
      else write_request env open_building b key val wb fb db)"

section \<open>The calls\<close>

text \<open>With no builder at all the queue does not exist.\<close>

definition ForegroundBuilder_Add ::
  "write_env \<Rightarrow> (u64 \<Rightarrow> Status) \<Rightarrow> (bytes \<Rightarrow> u64) \<Rightarrow> bytes \<Rightarrow> bytes \<Rightarrow> WriteBatch \<Rightarrow> ForegroundBuilder \<Rightarrow> TitanDB
     \<Rightarrow> (Status \<times> WriteBatch \<times> ForegroundBuilder \<times> TitanDB) option" where
  "ForegroundBuilder_Add env open_building hash key val wb fb db =
     (let sz = word_of_nat (length val); opts = fb_cf_options fb
      in if sz < min_blob_size opts \<or> level_merge opts \<and> sz < mid_blob_size opts then Some (InvalidArgument, wb, fb, db)
         else
           let b = (if fb_num_builders fb > 1 then unat (hash key) mod fb_num_builders fb else 0)
           in if b \<ge> fb_num_builders fb then None else handleRequest env open_building b key val wb fb db)"

fun flush_all :: "write_env \<Rightarrow> nat list \<Rightarrow> ForegroundBuilder \<Rightarrow> TitanDB \<Rightarrow> (ForegroundBuilder \<times> TitanDB) option" where
  "flush_all env [] fb db = Some (fb, db)"
| "flush_all env (b # bs) fb db = do { (fb, db) \<leftarrow> flush_request env b fb db; flush_all env bs fb db }"

definition ForegroundBuilder_Flush :: "write_env \<Rightarrow> ForegroundBuilder \<Rightarrow> TitanDB \<Rightarrow> (ForegroundBuilder \<times> TitanDB) option" where
  "ForegroundBuilder_Flush env fb db = flush_all env [0..<fb_num_builders fb] fb db"

text \<open>
  The builders of the column families are created when the database is opened; looking up one that
  is not there makes one without queues, with default options. \<^verbatim>\<open>Put\<close> continues here after the wait
  for space.
\<close>

definition empty_builder :: "ColumnFamilyOptions \<Rightarrow> ForegroundBuilder" where
  "empty_builder cfo =
     \<lparr>fb_num_builders = 0, fb_cf_id = 0, fb_cf_options = default_TitanCFOptions cfo, fb_handle = [], fb_builder = [], fb_finished_files = []\<rparr>"

definition open_builders :: "TitanDBOptions \<Rightarrow> (u32 \<times> TitanCFOptions) list \<Rightarrow> (u32 \<times> ForegroundBuilder) list" where
  "open_builders db_opts cfs =
     (if sep_before_flush db_opts
      then foldl (\<lambda>bs (cf, opts). alter cf ForegroundBuilder_Init (emplace cf (new_ForegroundBuilder cf db_opts opts) bs)) [] cfs
      else [])"

definition Put ::
  "write_env \<Rightarrow> (u64 \<Rightarrow> Status) \<Rightarrow> (bytes \<Rightarrow> u64) \<Rightarrow> 'l lsm_ops \<Rightarrow> TitanDBOptions \<Rightarrow> ColumnFamilyOptions \<Rightarrow> u32 \<Rightarrow> bytes \<Rightarrow> bytes
     \<Rightarrow> (u32 \<times> ForegroundBuilder) list \<Rightarrow> 'l \<Rightarrow> TitanDB \<Rightarrow> (Status \<times> (u32 \<times> ForegroundBuilder) list \<times> 'l \<times> TitanDB) option" where
  "Put env open_building hash ops db_opts cfo cf key val builders lsm db =
     (if has_bg_error db then Some (bg_error db, builders, lsm, db)
      else if sep_before_flush db_opts then
        (let builders = emplace cf (empty_builder cfo) builders
         in do { (s, wb, fb, db) \<leftarrow> ForegroundBuilder_Add env open_building hash key val [] (the (map_of builders cf)) db;
                 let builders = AList.update cf fb builders;
                 let (s, lsm) = (if ok s then lsm_Write ops wb lsm else lsm_Put ops cf key val lsm);
                 Some (s, builders, lsm, db) })
      else let (s, lsm) = lsm_Put ops cf key val lsm in Some (s, builders, lsm, db))"

fun flush_builders ::
  "write_env \<Rightarrow> (u32 \<times> ForegroundBuilder) list \<Rightarrow> TitanDB \<Rightarrow> ((u32 \<times> ForegroundBuilder) list \<times> TitanDB) option" where
  "flush_builders env [] db = Some ([], db)"
| "flush_builders env ((cf, fb) # bs) db =
     do { (fb, db) \<leftarrow> ForegroundBuilder_Flush env fb db;
          (bs, db) \<leftarrow> flush_builders env bs db;
          Some ((cf, fb) # bs, db) }"

definition OnMemTableSealed ::
  "write_env \<Rightarrow> TitanDBOptions \<Rightarrow> (u32 \<times> ForegroundBuilder) list \<Rightarrow> TitanDB \<Rightarrow> ((u32 \<times> ForegroundBuilder) list \<times> TitanDB) option" where
  "OnMemTableSealed env db_opts builders db =
     (if sep_before_flush db_opts then flush_builders env builders db else Some (builders, db))"

end
