(* ===== verification/Foreground_Reads.thy ===== *)
theory Foreground_Reads
  imports Foreground_Builder Value_Separation
begin

text \<open>
  What a value that is separated before the memtable can be read from: the blob file that its
  foreground builder is still writing.
\<close>

section \<open>The builders of a family\<close>

definition slot_ok :: "ForegroundBuilder \<Rightarrow> BlobStorage \<Rightarrow> nat \<Rightarrow> bool" where
  "slot_ok fb st b \<longleftrightarrow>
     (case (fb_builder fb ! b, fb_handle fb ! b) of
        (None, None) \<Rightarrow> True
      | (Some bl, Some h) \<Rightarrow> bb_status bl = OK \<and> hd_number h \<in> set (building_files st) \<and> FindFile st (hd_number h) = None
      | _ \<Rightarrow> False)"

text \<open>Every builder works on a file that readers know as being built.\<close>

definition fb_ok :: "ForegroundBuilder \<Rightarrow> BlobStorage \<Rightarrow> bool" where
  "fb_ok fb st \<longleftrightarrow>
     length (fb_handle fb) = fb_num_builders fb \<and> length (fb_builder fb) = fb_num_builders fb \<and>
     length (fb_finished_files fb) = fb_num_builders fb \<and> (\<forall>b < fb_num_builders fb. slot_ok fb st b)"

text \<open>What has been written to a file, open or finished.\<close>

definition fb_content :: "ForegroundBuilder \<Rightarrow> u64 \<Rightarrow> bytes \<Rightarrow> bool" where
  "fb_content fb n c \<longleftrightarrow>
     (\<exists>b < fb_num_builders fb.
        (\<exists>h bl. fb_handle fb ! b = Some h \<and> fb_builder fb ! b = Some bl \<and> hd_number h = n \<and> c = bb_file bl) \<or>
        (\<exists>f h. (f, h) \<in> set (fb_finished_files fb ! b) \<and> hd_number h = n \<and> c = hd_file h))"

lemma fb_ok_slot:
  assumes "fb_ok fb st" "b < fb_num_builders fb"
  shows "length (fb_handle fb) = fb_num_builders fb" "length (fb_builder fb) = fb_num_builders fb"
    "length (fb_finished_files fb) = fb_num_builders fb" "slot_ok fb st b"
  using assms by (auto simp: fb_ok_def)

lemma slot_ok_cases:
  assumes "slot_ok fb st b"
  obtains "fb_builder fb ! b = None" "fb_handle fb ! b = None"
  | bl h where "fb_builder fb ! b = Some bl" "fb_handle fb ! b = Some h" "bb_status bl = OK" "hd_number h \<in> set (building_files st)"
      "FindFile st (hd_number h) = None"
  using assms by (auto simp: slot_ok_def split: option.splits)

lemma slot_ok_mono:
  "slot_ok fb st b \<Longrightarrow> set (building_files st) \<subseteq> set (building_files st') \<Longrightarrow> files st' = files st \<Longrightarrow> slot_ok fb st' b"
  by (auto simp: slot_ok_def FindFile_def split: option.splits)

lemma ensure_builder_spec:
  assumes fb: "fb_ok fb st" "b < fb_num_builders fb" and st: "the_storage (fb_cf_id fb) db = Some st"
    and io: "\<forall>n. open_building n = OK" "\<forall>d. fst (we_append env d) = OK"
    and fresh: "FindFile st (next_file_number (blob_file_set db)) = None"
    and e: "ensure_builder env open_building b fb db = Some (OK, fb', db')"
  shows "\<exists>st' bl h. fb_ok fb' st' \<and> the_storage (fb_cf_id fb) db' = Some st' \<and> fb_cf_id fb' = fb_cf_id fb \<and> fb_num_builders fb' = fb_num_builders fb \<and>
    fb_cf_options fb' = fb_cf_options fb \<and> db_options st' = db_options st \<and> fb_builder fb' ! b = Some bl \<and> fb_handle fb' ! b = Some h \<and> bb_status bl = OK"
proof -
  note len = fb_ok_slot [OF fb]
  show ?thesis
  proof (cases rule: slot_ok_cases [OF len(4)])
    case (2 bl h)
    then have "fb' = fb" "db' = db" using e by (auto simp: ensure_builder_def)
    then show ?thesis using 2 fb st by blast
  next
    case 1
    obtain h db1 where n: "NewFile (we_io env) db = (Inr h, db1)"
      using e 1 by (auto simp: ensure_builder_def NewFile_def Let_def split: if_splits prod.splits sum.splits)
    have h: "hd_number h = next_file_number (blob_file_set db)" using n by (auto simp: NewFile_def NewFileNumber_def Let_def split: if_splits)
    let ?st = "st\<lparr>building_files := List.insert (hd_number h) (building_files st)\<rparr>"
    let ?bl = "new_BlobFileBuilder (we_append env) (fb_cf_options fb)"
    have fb': "fb' = fb\<lparr>fb_handle := (fb_handle fb)[b := Some h], fb_builder := (fb_builder fb)[b := Some ?bl]\<rparr>"
      and db': "db' = put_storage (fb_cf_id fb) ?st db1"
      using e 1 n st the_storage_NewFile [OF n] io(1) by (auto simp: ensure_builder_def AddBuildingFile_def split: if_splits)
    have ok: "bb_status ?bl = OK" using io(2) by (simp add: new_BlobFileBuilder_def Let_def split_beta)
    have "slot_ok fb' ?st b'" if b': "b' < fb_num_builders fb" for b'
    proof (cases "b' = b")
      case True
      then show ?thesis using len fb(2) ok fresh h by (simp add: fb' slot_ok_def FindFile_def)
    next
      case False
      have "slot_ok fb ?st b'" by (rule slot_ok_mono [OF fb_ok_slot(4) [OF fb(1) b']]) auto
      then show ?thesis using False by (simp add: fb' slot_ok_def)
    qed
    then have "fb_ok fb' ?st" using len by (simp add: fb_ok_def fb')
    then show ?thesis using ok len fb(2) by (auto simp: fb' db')
  qed
qed

lemma FinishBlob_spec:
  assumes fb: "fb_ok fb st" "b < fb_num_builders fb" and ap: "append_ok (we_append env)"
    and slot: "fb_builder fb ! b = Some bl" "fb_handle fb ! b = Some h" and f: "FinishBlob env b fb = Some fb'"
  shows "fb_ok fb' st \<and> fb_cf_id fb' = fb_cf_id fb \<and> (\<exists>c. fb_content fb' (hd_number h) (bb_file bl @ c))"
proof -
  note len = fb_ok_slot [OF fb]
  obtain bl' where 1: "BlobFileBuilder_Finish (env_crc (we_read env)) (we_append env) (we_flush env) bl = (OK, bl')"
    using f slot by (auto simp: FinishBlob_def ok_def split: prod.splits if_splits)
  obtain m where fb': "fb' = fb\<lparr>fb_finished_files := (fb_finished_files fb)[b := fb_finished_files fb ! b @ [(m, h\<lparr>hd_file := bb_file bl'\<rparr>)]],
      fb_builder := (fb_builder fb)[b := None], fb_handle := (fb_handle fb)[b := None]\<rparr>"
    using f slot 1 by (auto simp: FinishBlob_def Let_def)
  have "slot_ok fb' st b'" if "b' < fb_num_builders fb" for b'
    using fb_ok_slot(4) [OF fb(1) that] len fb(2) that by (cases "b' = b") (simp_all add: fb' slot_ok_def)
  then have "fb_ok fb' st" using len by (simp add: fb_ok_def fb')
  moreover have "fb_content fb' (hd_number h) (bb_file bl')"
    unfolding fb_content_def using fb(2) len by (intro exI [of _ b]) (simp add: fb', force)
  ultimately show ?thesis using BlobFileBuilder_Finish_ok(2) [OF ap 1] by (auto simp: fb')
qed
section \<open>A request\<close>

lemma write_request_spec:
  assumes fb: "fb_ok fb st" "b < fb_num_builders fb" and st: "the_storage (fb_cf_id fb) db = Some st"
    and io: "\<forall>n. open_building n = OK" "\<forall>d. fst (we_append env d) = OK" "append_ok (we_append env)"
    and fresh: "FindFile st (next_file_number (blob_file_set db)) = None"
    and w: "write_request env open_building b key val wb fb db = Some (OK, wb', fb', db')"
  shows "\<exists>st' pre e post n. fb_ok fb' st' \<and> the_storage (fb_cf_id fb) db' = Some st' \<and> db_options st' = db_options st \<and>
    n \<in> set (building_files st') \<and> FindFile st' n = None \<and>
    fb_content fb' n (pre @ framed (env_libs (we_read env)) (env_crc (we_read env)) e \<lparr>rec_key = key, rec_value = val, only_value = False\<rparr> @ post) \<and>
    wb' = wb @ [(fb_cf_id fb, key, BlobIndex_EncodeTo \<lparr>bi_file_number = n, blob_handle = \<lparr>bh_offset = word_of_nat (length pre),
      bh_size = word_of_nat (length (framed (env_libs (we_read env)) (env_crc (we_read env)) e \<lparr>rec_key = key, rec_value = val, only_value = False\<rparr>))\<rparr>\<rparr> [])]"
proof -
  let ?L = "env_libs (we_read env)" and ?X = "env_crc (we_read env)" and ?r = "\<lparr>rec_key = key, rec_value = val, only_value = False\<rparr>"
  obtain s1 fb1 db1 where e: "ensure_builder env open_building b fb db = Some (s1, fb1, db1)" "s1 = OK"
    using w by (auto simp: write_request_def ok_def split: bind_splits if_splits)
  from ensure_builder_spec [OF fb st io(1,2) fresh e(1) [unfolded e(2)]] obtain st1 bl h where
    1: "fb_ok fb1 st1" "the_storage (fb_cf_id fb) db1 = Some st1" "fb_cf_id fb1 = fb_cf_id fb" "fb_num_builders fb1 = fb_num_builders fb"
      "fb_cf_options fb1 = fb_cf_options fb" "db_options st1 = db_options st" "fb_builder fb1 ! b = Some bl" "fb_handle fb1 ! b = Some h" "bb_status bl = OK"
    by blast
  have b: "b < fb_num_builders fb1" using fb(2) 1(4) by simp
  note len = fb_ok_slot [OF 1(1) b]
  obtain bh bl2 where a: "BlobFileBuilder_Add ?L ?X (we_append env) ?r \<lparr>bh_offset = 0, bh_size = 0\<rparr> bl = (bh, bl2)" by fastforce
  have s2: "bb_status bl2 = OK" using a 1(9) io(2) by (auto simp: BlobFileBuilder_Add_def Let_def split_beta)
  note A = BlobFileBuilder_Add_ok [OF io(3) a s2]
  let ?fb = "fb1\<lparr>fb_builder := (fb_builder fb1)[b := Some bl2]\<rparr>" and ?db = "count_live (fb_cf_id fb) val db1"
  obtain st2 where st2: "st2 = st1\<lparr>stats := AddStats LIVE_BLOB_SIZE (word_of_nat (length val)) (stats st1)\<rparr>" "the_storage (fb_cf_id fb) ?db = Some st2"
    using 1(2) by (simp add: count_live_def)
  have known: "hd_number h \<in> set (building_files st2)" "FindFile st2 (hd_number h) = None"
    using len(4) 1(7,8) by (simp_all add: slot_ok_def st2(1) FindFile_def)
  have "slot_ok ?fb st2 b'" if b': "b' < fb_num_builders fb1" for b'
  proof (cases "b' = b")
    case False
    have "slot_ok fb1 st2 b'" by (rule slot_ok_mono [OF fb_ok_slot(4) [OF 1(1) b']]) (simp_all add: st2(1))
    then show ?thesis using False by (simp add: slot_ok_def)
  qed (use len b 1(8) s2 known in \<open>simp add: slot_ok_def\<close>)
  then have ok: "fb_ok ?fb st2" using len by (simp add: fb_ok_def)
  have slot: "fb_builder ?fb ! b = Some bl2" "fb_handle ?fb ! b = Some h" using len b 1(8) by simp_all
  have out: "(if word_of_nat (length (bb_file bl2)) \<ge> blob_file_target_size (fb_cf_options fb) then FinishBlob env b ?fb else Some ?fb) = Some fb'"
    "db' = ?db" "wb' = wb @ [(fb_cf_id fb', key, BlobIndex_EncodeTo \<lparr>bi_file_number = hd_number h, blob_handle = bh\<rparr> [])]"
    using w e 1 a by (auto simp: write_request_def PutBlobIndex_def Let_def split: bind_splits if_splits)
  have "fb_ok fb' st2 \<and> fb_cf_id fb' = fb_cf_id fb \<and> (\<exists>c. fb_content fb' (hd_number h) (bb_file bl2 @ c))"
  proof (cases "blob_file_target_size (fb_cf_options fb) \<le> word_of_nat (length (bb_file bl2))")
    case True
    then show ?thesis using FinishBlob_spec [OF ok _ io(3) slot, of fb'] b out(1) 1(3) by simp
  next
    case False
    then have "fb' = ?fb" using out(1) by simp
    moreover have "fb_content ?fb (hd_number h) (bb_file bl2)" unfolding fb_content_def using b slot by (intro exI [of _ b]) auto
    ultimately show ?thesis using ok 1(3) by (metis append_Nil2 ForegroundBuilder.select_convs(2) ForegroundBuilder.surjective ForegroundBuilder.update_convs(5))
  qed
  then obtain c where c: "fb_ok fb' st2" "fb_cf_id fb' = fb_cf_id fb" "fb_content fb' (hd_number h) (bb_file bl2 @ c)" by blast
  show ?thesis
    using c known st2 out(2,3) 1(6) A(2,3)
    by (intro exI [of _ st2] exI [of _ "bb_file bl"] exI [of _ "bb_encoder bl"] exI [of _ c] exI [of _ "hd_number h"]) simp
qed

lemma ReadRecord_short:
  assumes "length c < unat (bh_offset h) + unat (bh_size h)" "0 < unat (bh_size h)"
  shows "ReadRecord L Extend (pread c) h r0 = Inl Corruption"
proof -
  let ?n = "length (take (unat (bh_size h)) (drop (unat (bh_offset h)) c))"
  have n: "?n < unat (bh_size h)" using assms by auto
  also have "unat (bh_size h) < 2 ^ 64" using unsigned_less [of "bh_size h"] by simp
  finally have "unat (word_of_nat ?n :: u64) = ?n" by (rule unat_word_of_length64)
  then have "bh_size h \<noteq> word_of_nat ?n" using n by (metis less_irrefl)
  then show ?thesis by (simp add: ReadRecord_def pread_def)
qed

text \<open>A record that has reached the file as far as its end is read, one that has not is taken for damaged.\<close>

lemma ReadRecord_visible:
  assumes "libs_ok L" "record_ok r" "only_value r0 = only_value r" "\<not> only_value r" "length (pre @ framed L Extend e r @ post) < 2 ^ 64"
  defines "h \<equiv> \<lparr>bh_offset = word_of_nat (length pre), bh_size = word_of_nat (length (framed L Extend e r))\<rparr>"
  shows "ReadRecord L Extend (pread (take k (pre @ framed L Extend e r @ post))) h r0
    = (if length pre + length (framed L Extend e r) \<le> k then Inr (r, BlobRecord_EncodeTo r []) else Inl Corruption)"
proof (cases "length pre + length (framed L Extend e r) \<le> k")
  case True
  then have "take k (pre @ framed L Extend e r @ post) = pre @ framed L Extend e r @ take (k - length pre - length (framed L Extend e r)) post" by simp
  then show ?thesis
    using True ReadRecord_framed [OF assms(1-3), of pre Extend e "take (k - length pre - length (framed L Extend e r)) post" Extend] assms(4,5)
    by (simp add: h_def)
next
  case False
  have "unat (bh_offset h) = length pre" "unat (bh_size h) = length (framed L Extend e r)"
    using assms(5) by (simp_all add: h_def unat_word_of_length64)
  then show ?thesis using False length_framed_pos [of L Extend e r] by (subst ReadRecord_short) auto
qed
section \<open>Properties\<close>

definition w_fb_options :: TitanDBOptions where
  "w_fb_options = default_TitanDBOptions\<lparr>sep_before_flush := True\<rparr>"

definition w_fb :: ForegroundBuilder where
  "w_fb = ForegroundBuilder_Init (new_ForegroundBuilder 0 w_fb_options w_sep_opts)"

definition w_fb_db :: TitanDB where
  "w_fb_db = put_storage 0 (w_storage0\<lparr>db_options := w_fb_options\<rparr>) w_sep_db"

lemma w_fb_run:
  "case ForegroundBuilder_Add w_sep_env (\<lambda>_. OK) (\<lambda>_. 0) [7] [1, 2, 3] [] w_fb w_fb_db of
     None \<Rightarrow> False
   | Some (s, wb, fb, db) \<Rightarrow> s = OK \<and> fb_finished_files fb = [[]] \<and> fb_num_builders fb = 1 \<and> map_option (length \<circ> bb_file) (fb_builder fb ! 0) = Some 23"
  by code_simp


text \<open>
  C36. A \<^verbatim>\<open>Put\<close> of a large value under the empty key, with separation before the memtable, is taken for a request to flush:
  it succeeds, but nothing is written.
\<close>

theorem put_empty_key_lost:
  assumes "\<not> has_bg_error db" "sep_before_flush db_opts" "map_of builders cf = Some fb"
    and "min_blob_size (fb_cf_options fb) \<le> word_of_nat (length val)"
      "level_merge (fb_cf_options fb) \<longrightarrow> mid_blob_size (fb_cf_options fb) \<le> word_of_nat (length val)"
    and "lsm_Write ops [] lsm = (OK, lsm)"
    and "Put env open_building hash ops db_opts cfo cf [] val builders lsm db = Some (s, builders', lsm', db')"
  shows "s = OK \<and> lsm' = lsm"
proof -
  have b: "map_of (emplace cf (empty_builder cfo) builders) cf = Some fb" using assms(3) by (simp add: emplace_def)
  have small: "\<not> (word_of_nat (length val) < min_blob_size (fb_cf_options fb) \<or>
      level_merge (fb_cf_options fb) \<and> word_of_nat (length val) < mid_blob_size (fb_cf_options fb))"
    using assms(4,5) by (auto simp: not_less)
  let ?b = "if 1 < fb_num_builders fb then unat (hash []) mod fb_num_builders fb else 0"
  have "ForegroundBuilder_Add env open_building hash [] val [] fb db =
      (if fb_num_builders fb \<le> ?b then None else Option.bind (flush_request env ?b fb db) (\<lambda>(fb, db). Some (OK, [], fb, db)))"
    unfolding ForegroundBuilder_Add_def Let_def if_not_P [OF small] by (simp add: handleRequest_def)
  then show ?thesis
    using assms(1,2,6,7) b by (auto simp: Put_def Let_def split: bind_splits if_splits)
qed

definition unit_ops :: "unit lsm_ops" where
  "unit_ops = \<lparr>lsm_Get = (\<lambda>_ _ _. Inl NotFound), lsm_Write = (\<lambda>_ l. (OK, l)), lsm_Put = (\<lambda>_ _ _ l. (OK, l)), lsm_sequence = (\<lambda>_. 0)\<rparr>"

theorem put_empty_key_lost_witness:
  "map_option fst (Put w_sep_env (\<lambda>_. OK) (\<lambda>_. 0) unit_ops w_fb_options \<lparr>num_levels = 7, comparator = bytewise\<rparr> 0 [] [1, 2, 3] [(0, w_fb)] () w_fb_db) = Some OK"
proof -
  let ?p = "Put w_sep_env (\<lambda>_. OK) (\<lambda>_. 0) unit_ops w_fb_options \<lparr>num_levels = 7, comparator = bytewise\<rparr> 0 [] [1, 2, 3] [(0, w_fb)] () w_fb_db"
  have "?p \<noteq> None" by code_simp
  then obtain s bs l db where p: "?p = Some (s, bs, l, db)" by (metis option.exhaust prod_cases4)
  have "s = OK \<and> l = ()"
    by (rule put_empty_key_lost [OF _ _ _ _ _ _ p, of w_fb])
      (simp_all add: w_fb_db_def put_storage_def w_sep_db_def new_TitanDB_def w_fb_options_def w_fb_def ForegroundBuilder_Init_def new_ForegroundBuilder_def
        w_sep_opts_def w_cf_def unit_ops_def default_TitanCFOptions_def TitanCFOptions.defs ColumnFamilyOptions.defs Let_def)
  then show ?thesis using p by simp
qed

end
