(* ===== verification/Blob_Iterator.thy ===== *)
theory Blob_Iterator
  imports Blob_File
begin

text \<open>
  \<^verbatim>\<open>BlobFileIterator\<close> and \<^verbatim>\<open>BlobFileMergeIterator\<close> (\<^verbatim>\<open>blob_file_iterator.h/.cc\<close>): the records of one
  blob file in file order, and of several files merged by key.

  A loop that need not end is a partial function into \<open>option\<close>, where \<open>None\<close> is a run that does
  not return. The members \<^verbatim>\<open>decoder_\<close>, \<^verbatim>\<open>buffer_\<close> and \<^verbatim>\<open>uncompressed_\<close> hold no state between calls. A
  failed decoding leaves the current record as it was; nothing reads it until the next success.
  \<open>it_prefetched\<close> lists the ranges handed to \<^verbatim>\<open>Prefetch\<close>.
\<close>

section \<open>The iterator of a file\<close>

record BlobFileIterator =
  it_file :: random_file
  it_file_number :: u64
  it_file_size :: u64
  it_cf_options :: TitanCFOptions
  it_init :: bool
  it_end_of_blob_record :: u64
  it_status :: Status
  it_valid :: bool
  it_iterate_offset :: u64
  it_cur_record :: BlobRecord
  it_cur_offset :: u64
  it_cur_size :: u64
  it_readahead_begin :: u64
  it_readahead_end :: u64
  it_readahead_size :: u64
  it_prefetched :: "(u64 \<times> u64) list"

abbreviation (input) kMinIterReadahead :: u64 where "kMinIterReadahead \<equiv> 4096"
abbreviation (input) kMaxIterReadahead :: u64 where "kMaxIterReadahead \<equiv> 262144"
abbreviation (input) kDefaultPageSize :: u64 where "kDefaultPageSize \<equiv> 4096"

definition new_BlobFileIterator :: "random_file \<Rightarrow> u64 \<Rightarrow> u64 \<Rightarrow> TitanCFOptions \<Rightarrow> BlobFileIterator" where
  "new_BlobFileIterator file n sz cf =
     \<lparr>it_file = file, it_file_number = n, it_file_size = sz, it_cf_options = cf, it_init = False,
      it_end_of_blob_record = 0, it_status = OK, it_valid = False, it_iterate_offset = 0,
      it_cur_record = \<lparr>rec_key = [], rec_value = [], only_value = False\<rparr>, it_cur_offset = 0, it_cur_size = 0,
      it_readahead_begin = 0, it_readahead_end = 0, it_readahead_size = kMinIterReadahead, it_prefetched = []\<rparr>"

text \<open>
  The handle that decoding a footer leaves behind, whatever the outcome: \<^verbatim>\<open>BlockHandle::DecodeFrom\<close>
  resets it when it fails itself, and a later failure keeps it.
\<close>

definition footer_handle_size :: "bytes \<Rightarrow> u64" where
  "footer_handle_size src = (case BlockHandle_DecodeFrom src of Inl _ \<Rightarrow> 0 | Inr (h, _) \<Rightarrow> blk_size h)"

definition BlobFileIterator_Init :: "checksum \<Rightarrow> BlobFileIterator \<Rightarrow> bool \<times> BlobFileIterator" where
  "BlobFileIterator_Init Extend it =
     (case it_file it 0 (of_nat kBlobHeaderSize) of
        Inl s \<Rightarrow> (False, it\<lparr>it_status := s\<rparr>)
      | Inr buf \<Rightarrow>
          (case BlobFileHeader_DecodeFrom buf of
             Inl s \<Rightarrow> (False, it\<lparr>it_status := s\<rparr>)
           | Inr _ \<Rightarrow>
               (case it_file it (it_file_size it - of_nat kBlobFooterSize) (of_nat kBlobFooterSize) of
                  Inl s \<Rightarrow> (False, it\<lparr>it_status := s\<rparr>)
                | Inr buf \<Rightarrow>
                    (True, it\<lparr>it_status := (case BlobFileFooter_DecodeFrom Extend buf of Inl s \<Rightarrow> s | Inr _ \<Rightarrow> OK),
                              it_end_of_blob_record := it_file_size it - of_nat kBlobFooterSize - footer_handle_size buf,
                              it_init := True\<rparr>))))"

definition GetBlobRecord :: "compression_libs \<Rightarrow> checksum \<Rightarrow> BlobFileIterator \<Rightarrow> BlobFileIterator" where
  "GetBlobRecord L Extend it =
     (case it_file it (it_iterate_offset it) (of_nat kRecordHeaderSize) of
        Inl s \<Rightarrow> it\<lparr>it_status := s\<rparr>
      | Inr header \<Rightarrow>
          (case DecodeHeader Extend header of
             Inl s \<Rightarrow> it\<lparr>it_status := s\<rparr>
           | Inr (d, _) \<Rightarrow>
               (let record_size = ucast (dec_record_size d) in
                case it_file it (it_iterate_offset it + of_nat kRecordHeaderSize) record_size of
                  Inl s \<Rightarrow> it\<lparr>it_status := s\<rparr>
                | Inr buf \<Rightarrow>
                    (case DecodeRecord L d (it_cur_record it) buf of
                       Inl s \<Rightarrow> it\<lparr>it_status := s\<rparr>
                     | Inr (r, _) \<Rightarrow>
                         it\<lparr>it_status := OK, it_cur_record := r, it_cur_offset := it_iterate_offset it,
                            it_cur_size := of_nat kRecordHeaderSize + record_size,
                            it_iterate_offset := it_iterate_offset it + (of_nat kRecordHeaderSize + record_size),
                            it_valid := True\<rparr>))))"

text \<open>The loop that doubles the readahead size.\<close>

partial_function (option) grow_readahead :: "u64 \<Rightarrow> u64 \<Rightarrow> u64 \<Rightarrow> u64 option" where
  "grow_readahead e min_blob sz =
     (if e + sz \<le> min_blob \<and> sz < kMaxIterReadahead then grow_readahead e min_blob (push_bit 1 sz)
      else Some sz)"

definition iterator_readahead :: "BlobFileIterator \<Rightarrow> BlobFileIterator option" where
  "iterator_readahead it =
     (let off = it_iterate_offset it;
          it = (if it_readahead_begin it > off \<or> it_readahead_end it < off
                then let b = off - (off AND (kDefaultPageSize - 1))
                     in it\<lparr>it_readahead_begin := b, it_readahead_end := b, it_readahead_size := kMinIterReadahead\<rparr>
                else it);
          min_blob = off + of_nat kRecordHeaderSize + min_blob_size (it_cf_options it)
      in if it_readahead_end it \<le> min_blob then
           do { sz \<leftarrow> grow_readahead (it_readahead_end it) min_blob (it_readahead_size it);
                Some (it\<lparr>it_prefetched := it_prefetched it @ [(it_readahead_end it, sz)],
                         it_readahead_end := it_readahead_end it + sz,
                         it_readahead_size := min kMaxIterReadahead (push_bit 1 sz)\<rparr>) }
         else Some it)"

definition PrefetchAndGet :: "compression_libs \<Rightarrow> checksum \<Rightarrow> BlobFileIterator \<Rightarrow> BlobFileIterator option" where
  "PrefetchAndGet L Extend it =
     (if it_iterate_offset it \<ge> it_end_of_blob_record it then Some (it\<lparr>it_valid := False\<rparr>)
      else do { it \<leftarrow> iterator_readahead it;
                let it = GetBlobRecord L Extend it;
                Some (if it_readahead_end it < it_iterate_offset it
                      then it\<lparr>it_readahead_end := it_iterate_offset it\<rparr> else it) })"

definition BlobFileIterator_SeekToFirst ::
  "compression_libs \<Rightarrow> checksum \<Rightarrow> BlobFileIterator \<Rightarrow> BlobFileIterator option" where
  "BlobFileIterator_SeekToFirst L Extend it =
     (let (b, it) = (if it_init it then (True, it) else BlobFileIterator_Init Extend it)
      in if \<not> b then Some it
         else PrefetchAndGet L Extend (it\<lparr>it_status := OK, it_iterate_offset := of_nat kBlobHeaderSize\<rparr>))"

definition BlobFileIterator_Valid :: "BlobFileIterator \<Rightarrow> bool" where
  "BlobFileIterator_Valid it \<longleftrightarrow> it_valid it \<and> ok (it_status it)"

definition BlobFileIterator_Next :: "compression_libs \<Rightarrow> checksum \<Rightarrow> BlobFileIterator \<Rightarrow> BlobFileIterator option" where
  "BlobFileIterator_Next L Extend it = PrefetchAndGet L Extend it"

definition BlobFileIterator_key :: "BlobFileIterator \<Rightarrow> bytes" where
  "BlobFileIterator_key it = rec_key (it_cur_record it)"

definition BlobFileIterator_value :: "BlobFileIterator \<Rightarrow> bytes" where
  "BlobFileIterator_value it = rec_value (it_cur_record it)"

definition BlobFileIterator_GetBlobIndex :: "BlobFileIterator \<Rightarrow> BlobIndex" where
  "BlobFileIterator_GetBlobIndex it =
     \<lparr>bi_file_number = it_file_number it, blob_handle = \<lparr>bh_offset = it_cur_offset it, bh_size = it_cur_size it\<rparr>\<rparr>"

text \<open>The loop of \<^verbatim>\<open>IterateForPrev\<close>; \<open>len\<close> is the length of the last record passed.\<close>

partial_function (option) prev_loop ::
  "checksum \<Rightarrow> u64 \<Rightarrow> u64 \<Rightarrow> BlobFileIterator \<Rightarrow> BlobFileIterator option" where
  "prev_loop Extend offset len it =
     (if it_iterate_offset it < offset then
        (case it_file it (it_iterate_offset it) (of_nat kRecordHeaderSize) of
           Inl s \<Rightarrow> Some (it\<lparr>it_status := s\<rparr>)
         | Inr header \<Rightarrow>
             (case DecodeHeader Extend header of
                Inl s \<Rightarrow> Some (it\<lparr>it_status := s\<rparr>)
              | Inr (d, _) \<Rightarrow>
                  (let len = of_nat kRecordHeaderSize + ucast (dec_record_size d)
                   in prev_loop Extend offset len
                        (it\<lparr>it_status := OK, it_iterate_offset := it_iterate_offset it + len\<rparr>))))
      else Some (it\<lparr>it_iterate_offset := (if it_iterate_offset it > offset then it_iterate_offset it - len
                                         else it_iterate_offset it),
                    it_valid := False\<rparr>))"

definition IterateForPrev :: "checksum \<Rightarrow> u64 \<Rightarrow> BlobFileIterator \<Rightarrow> BlobFileIterator option" where
  "IterateForPrev Extend offset it =
     (let (b, it) = (if it_init it then (True, it) else BlobFileIterator_Init Extend it)
      in if \<not> b then Some it
         else if offset \<ge> it_end_of_blob_record it
         then Some (it\<lparr>it_iterate_offset := offset, it_status := InvalidArgument\<rparr>)
         else prev_loop Extend offset 0 (it\<lparr>it_status := OK, it_iterate_offset := of_nat kBlobHeaderSize\<rparr>))"

section \<open>The merge of several files\<close>

text \<open>
  The queue holds positions of iterators. \<^verbatim>\<open>std::priority_queue\<close> is a list kept sorted by the key
  of the iterators, which do not move while they are queued; the order of equal keys is not
  specified by the language, and no theorem depends on it.
\<close>

record BlobFileMergeIterator =
  mi_status :: Status
  mi_iterators :: "BlobFileIterator list"
  mi_min_heap :: "nat list"
  mi_comparator :: "bytes \<Rightarrow> bytes \<Rightarrow> int"
  mi_current :: "nat option"

definition new_BlobFileMergeIterator :: "BlobFileIterator list \<Rightarrow> (bytes \<Rightarrow> bytes \<Rightarrow> int) \<Rightarrow> BlobFileMergeIterator" where
  "new_BlobFileMergeIterator its cmp =
     \<lparr>mi_status = OK, mi_iterators = its, mi_min_heap = [], mi_comparator = cmp, mi_current = None\<rparr>"

definition heap_push :: "nat \<Rightarrow> BlobFileMergeIterator \<Rightarrow> BlobFileMergeIterator" where
  "heap_push i m =
     m\<lparr>mi_min_heap := insort_by (\<lambda>a b. mi_comparator m (BlobFileIterator_key (mi_iterators m ! b))
                                       (BlobFileIterator_key (mi_iterators m ! a)) > 0) i (mi_min_heap m)\<rparr>"

definition merge_status :: "BlobFileMergeIterator \<Rightarrow> Status" where
  "merge_status m =
     (case mi_current m of
        Some i \<Rightarrow> (if \<not> ok (it_status (mi_iterators m ! i)) then it_status (mi_iterators m ! i) else mi_status m)
      | None \<Rightarrow> mi_status m)"

definition merge_Valid :: "BlobFileMergeIterator \<Rightarrow> bool" where
  "merge_Valid m =
     (case mi_current m of
        None \<Rightarrow> False
      | Some i \<Rightarrow> ok (merge_status m) \<and> BlobFileIterator_Valid (mi_iterators m ! i) \<and> ok (it_status (mi_iterators m ! i)))"

text \<open>Store an iterator that has moved and queue it unless it is exhausted or failed.\<close>

definition push_moved :: "nat \<Rightarrow> BlobFileIterator \<Rightarrow> BlobFileMergeIterator \<Rightarrow> BlobFileMergeIterator" where
  "push_moved i it m =
     (let m = m\<lparr>mi_iterators := (mi_iterators m)[i := it]\<rparr>
      in if ok (it_status it) \<and> BlobFileIterator_Valid it then heap_push i m else m)"

fun seek_all ::
  "compression_libs \<Rightarrow> checksum \<Rightarrow> nat list \<Rightarrow> BlobFileMergeIterator \<Rightarrow> BlobFileMergeIterator option" where
  "seek_all L Extend [] m = Some m"
| "seek_all L Extend (i # is) m =
     do { it \<leftarrow> BlobFileIterator_SeekToFirst L Extend (mi_iterators m ! i);
          seek_all L Extend is (push_moved i it m) }"

definition merge_SeekToFirst ::
  "compression_libs \<Rightarrow> checksum \<Rightarrow> BlobFileMergeIterator \<Rightarrow> BlobFileMergeIterator option" where
  "merge_SeekToFirst L Extend m =
     do { m \<leftarrow> seek_all L Extend [0..<length (mi_iterators m)] m;
          Some (case mi_min_heap m of
                  i # h \<Rightarrow> m\<lparr>mi_current := Some i, mi_min_heap := h\<rparr>
                | [] \<Rightarrow> m\<lparr>mi_status := Aborted\<rparr>) }"

text \<open>Without a current iterator \<^verbatim>\<open>Next\<close> follows a null pointer.\<close>

definition merge_Next ::
  "compression_libs \<Rightarrow> checksum \<Rightarrow> BlobFileMergeIterator \<Rightarrow> BlobFileMergeIterator option" where
  "merge_Next L Extend m =
     (case mi_current m of
        None \<Rightarrow> Some (m\<lparr>mi_status := Undefined\<rparr>)
      | Some i \<Rightarrow>
          do { it \<leftarrow> BlobFileIterator_Next L Extend (mi_iterators m ! i);
               let m = push_moved i it m;
               Some (case mi_min_heap m of
                       i # h \<Rightarrow> m\<lparr>mi_current := Some i, mi_min_heap := h\<rparr>
                     | [] \<Rightarrow> m\<lparr>mi_current := None\<rparr>) })"

definition merge_key :: "BlobFileMergeIterator \<Rightarrow> bytes" where
  "merge_key m = BlobFileIterator_key (mi_iterators m ! the (mi_current m))"

definition merge_value :: "BlobFileMergeIterator \<Rightarrow> bytes" where
  "merge_value m = BlobFileIterator_value (mi_iterators m ! the (mi_current m))"

definition merge_GetBlobIndex :: "BlobFileMergeIterator \<Rightarrow> BlobIndex" where
  "merge_GetBlobIndex m = BlobFileIterator_GetBlobIndex (mi_iterators m ! the (mi_current m))"
section \<open>Loops over an iterator\<close>

text \<open>The client's loop: visit every record until the iterator is not valid any more.\<close>

partial_function (option) scan ::
  "compression_libs \<Rightarrow> checksum \<Rightarrow> BlobFileIterator \<Rightarrow> (BlobRecord \<times> BlobIndex) list option" where
  "scan L Extend it =
     (if BlobFileIterator_Valid it then
        do { it' \<leftarrow> BlobFileIterator_Next L Extend it;
             xs \<leftarrow> scan L Extend it';
             Some ((it_cur_record it, BlobFileIterator_GetBlobIndex it) # xs) }
      else Some [])"

partial_function (option) merge_scan ::
  "compression_libs \<Rightarrow> checksum \<Rightarrow> BlobFileMergeIterator \<Rightarrow> (BlobRecord \<times> BlobIndex) list option" where
  "merge_scan L Extend m =
     (if merge_Valid m then
        do { m' \<leftarrow> merge_Next L Extend m;
             xs \<leftarrow> merge_scan L Extend m';
             Some ((it_cur_record (mi_iterators m ! the (mi_current m)), merge_GetBlobIndex m) # xs) }
      else Some [])"

section \<open>Readahead\<close>

definition readahead_ok :: "BlobFileIterator \<Rightarrow> bool" where
  "readahead_ok it \<longleftrightarrow> 0 < it_readahead_size it \<and> it_readahead_size it \<le> kMaxIterReadahead"

lemma unat_push_bit1: "unat s < 2 ^ 19 \<Longrightarrow> unat (push_bit 1 s :: u64) = 2 * unat s"
  by (simp add: push_bit_eq_mult unat_mult_lem [THEN iffD1] unat_word_ariths)

lemma grow_readahead_returns:
  assumes "0 < s" "unat s < 2 ^ 19"
  shows "\<exists>s'. grow_readahead e m s = Some s' \<and> 0 < s' \<and> unat s' < 2 ^ 19"
  using assms
proof (induction "2 ^ 19 - unat s" arbitrary: s rule: less_induct)
  case less
  show ?case
  proof (cases "e + s \<le> m \<and> s < kMaxIterReadahead")
    case True
    have u: "unat (push_bit 1 s) = 2 * unat s" using less.prems(2) by (rule unat_push_bit1)
    have "unat s < 2 ^ 18" using True by (simp add: word_less_nat_alt)
    moreover have "0 < unat s" using less.prems(1) by (simp add: word_less_nat_alt)
    ultimately have "\<exists>s'. grow_readahead e m (push_bit 1 s) = Some s' \<and> 0 < s' \<and> unat s' < 2 ^ 19"
      using u by (intro less.hyps) (simp_all add: word_less_nat_alt)
    then show ?thesis using True by (subst grow_readahead.simps) simp
  next
    case False
    then have "grow_readahead e m s = Some s" by (subst grow_readahead.simps) (rule if_not_P)
    then show ?thesis using less.prems by blast
  qed
qed

lemma iterator_readahead_returns:
  assumes "readahead_ok it"
  shows "\<exists>b e s p. iterator_readahead it = Some (it\<lparr>it_readahead_begin := b, it_readahead_end := e,
      it_readahead_size := s, it_prefetched := p\<rparr>) \<and> 0 < s \<and> s \<le> kMaxIterReadahead"
proof -
  have grow: "\<exists>s'. grow_readahead e m s = Some s' \<and> 0 < min kMaxIterReadahead (push_bit 1 s') \<and>
      min kMaxIterReadahead (push_bit 1 s') \<le> kMaxIterReadahead" if s: "0 < s" "s \<le> kMaxIterReadahead" for e m s
  proof -
    have "unat s < 2 ^ 19" using s(2) by (simp add: word_le_nat_alt)
    then obtain s' where s': "grow_readahead e m s = Some s'" "0 < s'" "unat s' < 2 ^ 19"
      using grow_readahead_returns [OF s(1)] by blast
    have "0 < push_bit 1 s'" using unat_push_bit1 [OF s'(3)] s'(2) by (simp add: word_less_nat_alt)
    then show ?thesis using s'(1) by (auto simp: min_def)
  qed
  let ?off = "it_iterate_offset it" and ?m = "it_iterate_offset it + of_nat kRecordHeaderSize + min_blob_size (it_cf_options it)"
  obtain b e s where 1: "(if it_readahead_begin it > ?off \<or> it_readahead_end it < ?off
       then let b = ?off - (?off AND (kDefaultPageSize - 1))
            in it\<lparr>it_readahead_begin := b, it_readahead_end := b, it_readahead_size := kMinIterReadahead\<rparr>
       else it) = it\<lparr>it_readahead_begin := b, it_readahead_end := e, it_readahead_size := s\<rparr>"
    "0 < s" "s \<le> kMaxIterReadahead"
  proof (cases "it_readahead_begin it > ?off \<or> it_readahead_end it < ?off")
    case True
    let ?b = "?off - (?off AND (kDefaultPageSize - 1))"
    show ?thesis
      using True by (intro that [where b = ?b and e = ?b and s = kMinIterReadahead]) (simp_all add: Let_def)
  next
    case False
    then show ?thesis
      using assms by (intro that [where b = "it_readahead_begin it" and e = "it_readahead_end it" and s = "it_readahead_size it"]) (simp_all add: readahead_ok_def)
  qed
  obtain s' where s': "grow_readahead e ?m s = Some s'" "0 < min kMaxIterReadahead (push_bit 1 s')"
      "min kMaxIterReadahead (push_bit 1 s') \<le> kMaxIterReadahead"
    using grow [OF 1(2,3)] by blast
  show ?thesis
  proof (cases "e \<le> ?m")
    case True
    then have "iterator_readahead it = Some (it\<lparr>it_readahead_begin := b, it_readahead_end := e + s',
        it_readahead_size := min kMaxIterReadahead (push_bit 1 s'), it_prefetched := it_prefetched it @ [(e, s')]\<rparr>)"
      unfolding iterator_readahead_def Let_def [of "it_iterate_offset it"] 1(1) using s'(1) by (simp add: Let_def)
    then show ?thesis using s'(2,3) by blast
  next
    case False
    then have "iterator_readahead it = Some (it\<lparr>it_readahead_begin := b, it_readahead_end := e,
        it_readahead_size := s, it_prefetched := it_prefetched it\<rparr>)"
      unfolding iterator_readahead_def Let_def [of "it_iterate_offset it"] 1(1) by (simp add: Let_def)
    then show ?thesis using 1(2,3) by blast
  qed
qed

lemma readahead_irrelevant:
  "GetBlobRecord L Extend (it\<lparr>it_readahead_begin := b, it_readahead_end := e, it_readahead_size := s, it_prefetched := p\<rparr>)
     = (GetBlobRecord L Extend it)\<lparr>it_readahead_begin := b, it_readahead_end := e, it_readahead_size := s, it_prefetched := p\<rparr>"
  by (simp add: GetBlobRecord_def Let_def split: sum.split prod.split)

text \<open>What a step of the iterator does, apart from the readahead.\<close>

lemma PrefetchAndGet_eq:
  assumes "readahead_ok it" "it_iterate_offset it < it_end_of_blob_record it"
  shows "\<exists>b e s p. PrefetchAndGet L Extend it = Some ((GetBlobRecord L Extend it)\<lparr>it_readahead_begin := b, it_readahead_end := e,
      it_readahead_size := s, it_prefetched := p\<rparr>) \<and> 0 < s \<and> s \<le> kMaxIterReadahead"
proof -
  obtain b e s p where r: "iterator_readahead it = Some (it\<lparr>it_readahead_begin := b, it_readahead_end := e,
      it_readahead_size := s, it_prefetched := p\<rparr>)" "0 < s" "s \<le> kMaxIterReadahead"
    using iterator_readahead_returns [OF assms(1)] by blast
  show ?thesis
  proof (cases "e < it_iterate_offset (GetBlobRecord L Extend it)")
    case True
    then show ?thesis
      using assms(2) r(2,3) unfolding PrefetchAndGet_def r(1)
      by (intro exI [of _ b] exI [of _ "it_iterate_offset (GetBlobRecord L Extend it)"] exI [of _ s] exI [of _ p])
        (simp add: readahead_irrelevant)
  next
    case False
    then show ?thesis
      using assms(2) r(2,3) unfolding PrefetchAndGet_def r(1)
      by (intro exI [of _ b] exI [of _ e] exI [of _ s] exI [of _ p]) (simp add: readahead_irrelevant)
  qed
qed
section \<open>Iterating over the records of a built file\<close>

lemma GetBlobRecord_framed:
  assumes "libs_ok L" "record_ok r" "\<not> only_value r" "\<not> only_value (it_cur_record it)"
    and cont: "it_file it = pread (pre @ framed L Extend' e r @ post)" "length (pre @ framed L Extend' e r @ post) < 2 ^ 64"
    and off: "it_iterate_offset it = word_of_nat (length pre)"
  shows "GetBlobRecord L Extend it = it\<lparr>it_status := OK, it_cur_record := r, it_cur_offset := word_of_nat (length pre),
     it_cur_size := word_of_nat (length (framed L Extend' e r)),
     it_iterate_offset := word_of_nat (length pre + length (framed L Extend' e r)), it_valid := True\<rparr>"
proof -
  obtain y c where c: "Compress L (enc_compression e) (BlobRecord_EncodeTo r []) = (y, c)" by fastforce
  obtain crc where f: "framed L Extend' e r = EncodeFixed32 crc @ EncodeFixed32 (word_of_nat (length y)) @ c # y"
    using framed_header_record [OF c] by blast
  let ?h = "EncodeFixed32 crc @ EncodeFixed32 (word_of_nat (length y)) @ [c]"
  let ?d = "\<lparr>dec_crc = crc, dec_header_crc = Extend 0 (EncodeFixed32 (word_of_nat (length y)) @ [c]),
      dec_record_size = word_of_nat (length y), dec_compression = c\<rparr>"
  have lh: "length ?h = 9" by simp
  have "length y < 2 ^ 32" using Compress_length [OF c] assms(2) by (simp add: record_ok_def)
  then have n: "ucast (word_of_nat (length y) :: u32) = (word_of_nat (length y) :: u64)"
    by (metis unat_word_of_length of_nat_unat)
  have l1: "length (pre @ ?h @ (y @ post)) < 2 ^ 64" and l2: "length ((pre @ ?h) @ y @ post) < 2 ^ 64"
    using cont(2) by (simp_all add: f)
  have r1: "it_file it (word_of_nat (length pre)) 9 = Inr ?h"
    using pread_slice [OF l1] by (simp add: cont(1) f)
  have r2: "it_file it (word_of_nat (length pre) + 9) (word_of_nat (length y)) = Inr y"
    using pread_slice [OF l2] by (simp add: cont(1) f)
  have H: "DecodeHeader Extend ?h = Inr (?d, [])"
    using DecodeHeader_encoded [of Extend crc "word_of_nat (length y)" c "[]"] .
  have R: "DecodeRecord L ?d (it_cur_record it) y = Inr (r, [])"
    using DecodeRecord_compressed [OF assms(1,2) _ _ c, of "it_cur_record it" _ _ "[]"] assms(3,4) by simp
  show ?thesis
    unfolding GetBlobRecord_def off using r1 r2 H R by (simp add: n Let_def f algebra_simps)
qed

text \<open>The iterator stands before the frames of \<open>rs\<close>, the rest of the records of its file.\<close>

definition iter_at ::
  "compression_libs \<Rightarrow> checksum \<Rightarrow> BlobEncoder \<Rightarrow> bytes \<Rightarrow> BlobRecord list \<Rightarrow> bytes \<Rightarrow> BlobFileIterator \<Rightarrow> bool" where
  "iter_at L Extend e pre rs post it \<longleftrightarrow>
     (let fs = concat (map (framed L Extend e) rs) in
      it_file it = pread (pre @ fs @ post) \<and> length (pre @ fs @ post) < 2 ^ 64 \<and>
      it_iterate_offset it = word_of_nat (length pre) \<and> it_end_of_blob_record it = word_of_nat (length (pre @ fs)) \<and>
      readahead_ok it \<and> \<not> only_value (it_cur_record it) \<and> it_status it = OK \<and>
      (\<forall>r \<in> set rs. record_ok r \<and> \<not> only_value r))"

lemma word_of_nat_less64: "a < b \<Longrightarrow> b < 2 ^ 64 \<Longrightarrow> (word_of_nat a :: u64) < word_of_nat b"
  by (simp add: word_less_nat_alt unat_word_of_length64)

lemma PrefetchAndGet_at:
  assumes "libs_ok L" and at: "iter_at L Extend' e pre (r # rs) post it"
  shows "\<exists>it'. PrefetchAndGet L Extend it = Some it' \<and> iter_at L Extend' e (pre @ framed L Extend' e r) rs post it' \<and>
    BlobFileIterator_Valid it' \<and> it_cur_record it' = r \<and> it_file_number it' = it_file_number it \<and>
    BlobFileIterator_GetBlobIndex it' = \<lparr>bi_file_number = it_file_number it, blob_handle =
      \<lparr>bh_offset = word_of_nat (length pre), bh_size = word_of_nat (length (framed L Extend' e r))\<rparr>\<rparr>"
proof -
  let ?f = "framed L Extend' e r" and ?g = "concat (map (framed L Extend' e) rs)"
  note A = at [unfolded iter_at_def Let_def, simplified]
  have lt: "it_iterate_offset it < it_end_of_blob_record it"
    using A word_of_nat_less64 [of "length pre" "length (pre @ ?f @ ?g)"] length_framed_pos [of L Extend' e r] by simp
  have g: "GetBlobRecord L Extend it = it\<lparr>it_status := OK, it_cur_record := r, it_cur_offset := word_of_nat (length pre),
     it_cur_size := word_of_nat (length ?f), it_iterate_offset := word_of_nat (length pre + length ?f), it_valid := True\<rparr>"
    by (rule GetBlobRecord_framed [where post = "?g @ post"]) (use A assms(1) in simp_all)
  obtain b x s p where "PrefetchAndGet L Extend it = Some ((GetBlobRecord L Extend it)\<lparr>it_readahead_begin := b,
      it_readahead_end := x, it_readahead_size := s, it_prefetched := p\<rparr>)" "0 < s" "s \<le> kMaxIterReadahead"
    using PrefetchAndGet_eq [OF _ lt] A by blast
  then show ?thesis
    using A unfolding g by (simp add: iter_at_def readahead_ok_def BlobFileIterator_Valid_def BlobFileIterator_GetBlobIndex_def)
qed

lemma PrefetchAndGet_end:
  "iter_at L Extend' e pre [] post it \<Longrightarrow> PrefetchAndGet L Extend it = Some (it\<lparr>it_valid := False\<rparr>)"
  by (simp add: iter_at_def PrefetchAndGet_def Let_def)

text \<open>The records that an iterator still has to offer, the current one first.\<close>

inductive yields :: "compression_libs \<Rightarrow> checksum \<Rightarrow> BlobFileIterator \<Rightarrow> (BlobRecord \<times> BlobIndex) list \<Rightarrow> bool"
  for L Extend where
  yields_Nil: "\<not> BlobFileIterator_Valid it \<Longrightarrow> it_status it = OK \<Longrightarrow> yields L Extend it []"
| yields_Cons: "BlobFileIterator_Valid it \<Longrightarrow> BlobFileIterator_Next L Extend it = Some it' \<Longrightarrow> yields L Extend it' xs \<Longrightarrow>
    yields L Extend it ((it_cur_record it, BlobFileIterator_GetBlobIndex it) # xs)"

inductive_simps yields_Nil_iff: "yields L Extend it []"
inductive_simps yields_Cons_iff: "yields L Extend it (x # xs)"

lemma yields_scan: "yields L Extend it xs \<Longrightarrow> scan L Extend it = Some xs"
  by (induction rule: yields.induct) (subst scan.simps; simp)+

text \<open>The records of a file with their indexes.\<close>

definition indexed :: "u64 \<Rightarrow> BlobHandle list \<Rightarrow> BlobRecord list \<Rightarrow> (BlobRecord \<times> BlobIndex) list" where
  "indexed n hs rs = zip rs (map (\<lambda>h. \<lparr>bi_file_number = n, blob_handle = h\<rparr>) hs)"

lemma PrefetchAndGet_yields:
  assumes "libs_ok L" "iter_at L Extend' e pre rs post it"
  shows "\<exists>it'. PrefetchAndGet L Extend it = Some it' \<and>
    yields L Extend it' (indexed (it_file_number it) (handles_from (length pre) (map (framed L Extend' e) rs)) rs)"
  using assms(2)
proof (induction rs arbitrary: pre it)
  case Nil
  then show ?case
    using PrefetchAndGet_end [OF Nil] by (auto simp: indexed_def iter_at_def yields_Nil_iff BlobFileIterator_Valid_def)
next
  case (Cons r rs)
  obtain it' where 1: "PrefetchAndGet L Extend it = Some it'" "iter_at L Extend' e (pre @ framed L Extend' e r) rs post it'"
    "BlobFileIterator_Valid it'" "it_cur_record it' = r" "it_file_number it' = it_file_number it"
    "BlobFileIterator_GetBlobIndex it' = \<lparr>bi_file_number = it_file_number it, blob_handle =
      \<lparr>bh_offset = word_of_nat (length pre), bh_size = word_of_nat (length (framed L Extend' e r))\<rparr>\<rparr>"
    using PrefetchAndGet_at [OF assms(1) Cons.prems, of Extend] by blast
  obtain it'' where 2: "PrefetchAndGet L Extend it' = Some it''" "yields L Extend it''
     (indexed (it_file_number it') (handles_from (length (pre @ framed L Extend' e r)) (map (framed L Extend' e) rs)) rs)"
    using Cons.IH [OF 1(2)] by blast
  have "yields L Extend it' ((it_cur_record it', BlobFileIterator_GetBlobIndex it') # indexed (it_file_number it')
     (handles_from (length (pre @ framed L Extend' e r)) (map (framed L Extend' e) rs)) rs)"
    using 1(3) 2 by (intro yields_Cons) (simp_all add: BlobFileIterator_Next_def)
  then show ?case using 1 by (intro exI [of _ it']) (simp add: indexed_def)
qed
lemma footer_handle_size_decoded:
  "BlobFileFooter_DecodeFrom Extend src = Inr (f, rest) \<Longrightarrow> footer_handle_size src = blk_size (meta_index_handle f)"
  by (auto simp: BlobFileFooter_DecodeFrom_def footer_handle_size_def Let_def bind_eq_Some_conv split: sum.splits if_splits)

lemma Init_built:
  assumes c: "c = file_header @ cs @ BlobFileFooter_EncodeTo Extend null_footer []" "length c < 2 ^ 64"
    and it: "it_file it = pread c" "it_file_size it = word_of_nat (length c)"
  shows "BlobFileIterator_Init Extend it =
    (True, it\<lparr>it_status := OK, it_end_of_blob_record := word_of_nat (length (file_header @ cs)), it_init := True\<rparr>)"
proof -
  let ?F = "BlobFileFooter_EncodeTo Extend null_footer []"
  have l: "length ?F = 32" by (simp add: length_BlobFileFooter)
  have n: "word_of_nat (length c) = (word_of_nat (length (file_header @ cs)) + 32 :: u64)" by (simp add: c(1) l)
  have r1: "pread c 0 8 = Inr file_header"
    using pread_slice [of "[]" file_header "cs @ ?F"] c by simp
  have r2: "pread c (word_of_nat (length (file_header @ cs))) 32 = Inr ?F"
    using pread_slice [of "file_header @ cs" ?F "[]"] c by (simp add: l)
  have h: "BlobFileHeader_DecodeFrom file_header = Inr (\<lparr>header_version = kVersion1\<rparr>, [])"
    using BlobFileHeader_Decode_Encode [of "\<lparr>header_version = kVersion1\<rparr>" "[]"] by (simp add: file_header_def)
  have f: "BlobFileFooter_DecodeFrom Extend ?F = Inr (null_footer, [])"
    using BlobFileFooter_Decode_Encode [of Extend null_footer "[]"] by simp
  show ?thesis
    unfolding BlobFileIterator_Init_def it n
    using r1 r2 h f footer_handle_size_decoded [OF f] by (simp add: null_footer_def)
qed

lemma SeekToFirst_built:
  assumes "libs_ok L" "\<forall>r \<in> set rs. record_ok r \<and> \<not> only_value r"
    and c: "c = file_header @ concat (map (framed L Extend e) rs) @ BlobFileFooter_EncodeTo Extend null_footer []" "length c < 2 ^ 64"
  shows "\<exists>it. BlobFileIterator_SeekToFirst L Extend (new_BlobFileIterator (pread c) n (word_of_nat (length c)) cf) = Some it \<and>
    yields L Extend it (indexed n (handles_from 8 (map (framed L Extend e) rs)) rs)"
proof -
  let ?cs = "concat (map (framed L Extend e) rs)" and ?F = "BlobFileFooter_EncodeTo Extend null_footer []"
  let ?fresh = "new_BlobFileIterator (pread c) n (word_of_nat (length c)) cf"
  let ?it = "?fresh\<lparr>it_status := OK, it_end_of_blob_record := word_of_nat (length (file_header @ ?cs)), it_init := True,
      it_iterate_offset := 8\<rparr>"
  have 1: "BlobFileIterator_SeekToFirst L Extend ?fresh = PrefetchAndGet L Extend ?it"
    unfolding BlobFileIterator_SeekToFirst_def using Init_built [OF c, of ?fresh]
    by (simp add: new_BlobFileIterator_def)
  have "iter_at L Extend e file_header rs ?F ?it"
    using c assms(2) by (simp add: iter_at_def new_BlobFileIterator_def readahead_ok_def)
  then have "\<exists>it'. PrefetchAndGet L Extend ?it = Some it' \<and>
      yields L Extend it' (indexed (it_file_number ?it) (handles_from (length file_header) (map (framed L Extend e) rs)) rs)"
    by (rule PrefetchAndGet_yields [OF assms(1)])
  moreover have "it_file_number ?it = n" by (simp add: new_BlobFileIterator_def)
  ultimately show ?thesis using 1 by (simp only: length_file_header)
qed

section \<open>Merging\<close>

abbreviation (input) entry_le :: "(bytes \<Rightarrow> bytes \<Rightarrow> int) \<Rightarrow> BlobRecord \<times> BlobIndex \<Rightarrow> BlobRecord \<times> BlobIndex \<Rightarrow> bool" where
  "entry_le cmp x y \<equiv> cmp (rec_key (fst x)) (rec_key (fst y)) \<le> 0"

text \<open>
  The iterators of the positions in \<open>I\<close> have \<open>xss\<close> left, and the positions in \<open>q\<close> are those of the
  ones that are not exhausted, ordered by their current keys.
\<close>

abbreviation (input) position_le :: "BlobFileMergeIterator \<Rightarrow> nat \<Rightarrow> nat \<Rightarrow> bool" where
  "position_le m a b \<equiv> mi_comparator m (BlobFileIterator_key (mi_iterators m ! a)) (BlobFileIterator_key (mi_iterators m ! b)) \<le> 0"

definition queue_ok ::
  "compression_libs \<Rightarrow> checksum \<Rightarrow> nat set \<Rightarrow> BlobFileMergeIterator \<Rightarrow> (BlobRecord \<times> BlobIndex) list list \<Rightarrow> nat list \<Rightarrow> bool" where
  "queue_ok L Extend I m xss q \<longleftrightarrow>
     length xss = length (mi_iterators m) \<and> (\<forall>i \<in> I. i < length xss \<and> yields L Extend (mi_iterators m ! i) (xss ! i)) \<and>
     distinct q \<and> set q = {i \<in> I. xss ! i \<noteq> []} \<and> sorted_wrt (position_le m) q"

lemma yields_valid: "yields L Extend it xs \<Longrightarrow> it_status it = OK \<and> (BlobFileIterator_Valid it \<longleftrightarrow> xs \<noteq> [])"
  by (induction rule: yields.induct) (simp_all add: BlobFileIterator_Valid_def ok_def)

lemma queue_okD: "queue_ok L Extend I m xss q \<Longrightarrow> i \<in> I \<Longrightarrow> yields L Extend (mi_iterators m ! i) (xss ! i)"
  by (simp add: queue_ok_def)

lemma push_moved_fields [simp]:
  "mi_iterators (push_moved i it m) = (mi_iterators m)[i := it]" "mi_comparator (push_moved i it m) = mi_comparator m"
  "mi_status (push_moved i it m) = mi_status m" "mi_current (push_moved i it m) = mi_current m"
  by (simp_all add: push_moved_def heap_push_def Let_def)

text \<open>Moving the iterator of a position that is not queued and queueing it again keeps the queue in order.\<close>

lemma push_moved_queue_ok:
  assumes q: "queue_ok L Extend I m xss (mi_min_heap m)" "i < length xss" "i \<notin> I"
    and c: "comparator_ok (mi_comparator m)" and y: "yields L Extend it (xss ! i)"
  shows "queue_ok L Extend (insert i I) (push_moved i it m) xss (mi_min_heap (push_moved i it m))"
proof -
  let ?m = "m\<lparr>mi_iterators := (mi_iterators m)[i := it]\<rparr>" and ?h = "mi_min_heap m"
  have I: "(mi_iterators m)[i := it] ! j = mi_iterators m ! j" if "j \<in> I" for j
    using that q(3) by (metis nth_list_update_neq)
  have "sorted_wrt (position_le m) ?h" using q(1) by (simp add: queue_ok_def)
  then have s: "sorted_wrt (position_le ?m) ?h"
    by (rule sorted_wrt_mono_rel [rotated]) (use q I in \<open>auto simp: queue_ok_def\<close>)
  show ?thesis
  proof (cases "xss ! i = []")
    case True
    then have "mi_min_heap (push_moved i it m) = ?h" using yields_valid [OF y] by (simp add: push_moved_def)
    then show ?thesis using q y s I True by (auto simp: queue_ok_def)
  next
    case False
    then have h: "mi_min_heap (push_moved i it m) = insort_by (\<lambda>a b. mi_comparator ?m (BlobFileIterator_key (mi_iterators ?m ! b))
        (BlobFileIterator_key (mi_iterators ?m ! a)) > 0) i ?h"
      using yields_valid [OF y] by (simp add: push_moved_def heap_push_def)
    have "sorted_wrt (position_le ?m) (mi_min_heap (push_moved i it m))"
      unfolding h
    proof (rule sorted_insort_by [OF _ _ _ s])
      fix a b d assume "position_le ?m a b" "position_le ?m b d"
      then show "position_le ?m a d" using c by (auto intro: comparator_le_trans)
    next
      fix a b assume "mi_comparator ?m (BlobFileIterator_key (mi_iterators ?m ! b)) (BlobFileIterator_key (mi_iterators ?m ! a)) > 0"
      then show "position_le ?m a b" using c unfolding comparator_ok_def by (simp add: less_imp_le)
    qed simp
    moreover have "mset (mi_min_heap (push_moved i it m)) = add_mset i (mset ?h)" unfolding h by simp
    then have "distinct (mi_min_heap (push_moved i it m)) \<and> set (mi_min_heap (push_moved i it m)) = insert i (set ?h)"
      using q unfolding queue_ok_def
      by (metis (no_types, lifting) distinct.simps(2) list.simps(15) mem_Collect_eq mset.simps(2) mset_eq_imp_distinct_iff mset_eq_setD)
    ultimately show ?thesis using q y I False by (auto simp: queue_ok_def)
  qed
qed
text \<open>The merge iterator is positioned: the current iterator is the first of the queue.\<close>

definition queue_of :: "BlobFileMergeIterator \<Rightarrow> nat list" where
  "queue_of m = (case mi_current m of None \<Rightarrow> [] | Some c \<Rightarrow> c # mi_min_heap m)"

definition merge_at ::
  "compression_libs \<Rightarrow> checksum \<Rightarrow> BlobFileMergeIterator \<Rightarrow> (BlobRecord \<times> BlobIndex) list list \<Rightarrow> bool" where
  "merge_at L Extend m xss \<longleftrightarrow>
     mi_status m = OK \<and> comparator_ok (mi_comparator m) \<and> queue_ok L Extend {..<length xss} m xss (queue_of m)"

text \<open>Taking the first of the queue as the current iterator.\<close>

lemma merge_at_pop:
  assumes "queue_ok L Extend {..<length xss} m xss (mi_min_heap m)" "mi_status m = OK" "comparator_ok (mi_comparator m)"
  shows "merge_at L Extend (case mi_min_heap m of i # h \<Rightarrow> m\<lparr>mi_current := Some i, mi_min_heap := h\<rparr>
     | [] \<Rightarrow> m\<lparr>mi_current := None\<rparr>) xss"
  using assms by (cases "mi_min_heap m") (auto simp: merge_at_def queue_ok_def queue_of_def)

lemma merge_Next_at:
  assumes at: "merge_at L Extend m xss" and cur: "mi_current m = Some c"
  obtains x xs m' where "c < length xss" "xss ! c = x # xs" "merge_Valid m" "merge_Next L Extend m = Some m'"
    "merge_at L Extend m' (xss[c := xs])" "mi_comparator m' = mi_comparator m"
    "x = (it_cur_record (mi_iterators m ! c), merge_GetBlobIndex m)"
    "\<forall>i y ys. i < length xss \<longrightarrow> xss ! i = y # ys \<longrightarrow> entry_le (mi_comparator m) x y"
proof -
  let ?it = "mi_iterators m ! c" and ?h = "mi_min_heap m"
  have q: "queue_ok L Extend {..<length xss} m xss (c # ?h)" and st: "mi_status m = OK" and cmp: "comparator_ok (mi_comparator m)"
    using at cur by (simp_all add: merge_at_def queue_of_def)
  have "c \<in> {i \<in> {..<length xss}. xss ! i \<noteq> []}" using q unfolding queue_ok_def by (metis list.set_intros(1))
  then obtain x xs where x: "c < length xss" "xss ! c = x # xs" by (auto simp: neq_Nil_conv)
  have "yields L Extend ?it (x # xs)" using queue_okD [OF q, of c] x by simp
  then obtain it' where it': "BlobFileIterator_Valid ?it" "BlobFileIterator_Next L Extend ?it = Some it'" "yields L Extend it' xs"
    "x = (it_cur_record ?it, BlobFileIterator_GetBlobIndex ?it)"
    unfolding yields_Cons_iff by blast
  let ?m = "push_moved c it' m" and ?xss = "xss[c := xs]"
  have "c \<notin> set ?h" "insert c (set ?h) = {i \<in> {..<length xss}. xss ! i \<noteq> []}" using q by (simp_all add: queue_ok_def)
  then have "set ?h = {i \<in> {..<length xss}. xss ! i \<noteq> []} - {c}" by (metis Diff_insert_absorb)
  also have "\<dots> = {i \<in> {..<length xss} - {c}. ?xss ! i \<noteq> []}" by auto
  finally have "set ?h = {i \<in> {..<length xss} - {c}. ?xss ! i \<noteq> []}" .
  then have "queue_ok L Extend ({..<length xss} - {c}) m ?xss ?h"
    using q x by (simp add: queue_ok_def)
  then have "queue_ok L Extend (insert c ({..<length xss} - {c})) ?m ?xss (mi_min_heap ?m)"
    using x it' cmp by (intro push_moved_queue_ok) simp_all
  moreover have "insert c ({..<length xss} - {c}) = {..<length ?xss}" using x by auto
  ultimately have "queue_ok L Extend {..<length ?xss} ?m ?xss (mi_min_heap ?m)" by simp
  note at' = merge_at_pop [OF this, simplified push_moved_fields, OF st cmp]
  let ?m' = "case mi_min_heap ?m of i # h \<Rightarrow> ?m\<lparr>mi_current := Some i, mi_min_heap := h\<rparr> | [] \<Rightarrow> ?m\<lparr>mi_current := None\<rparr>"
  have head: "entry_le (mi_comparator m) x y" if y: "i < length xss" "xss ! i = y # ys" for i y ys
  proof -
    have "i \<in> set (c # ?h)" using q y unfolding queue_ok_def by simp
    moreover have "\<forall>i \<in> set ?h. position_le m c i" using q by (simp add: queue_ok_def)
    ultimately have "position_le m c i" using comparator_refl [OF cmp] by auto
    moreover have "yields L Extend (mi_iterators m ! i) (y # ys)" using queue_okD [OF q, of i] y by simp
    ultimately show ?thesis using it'(4) by (simp add: yields_Cons_iff BlobFileIterator_key_def)
  qed
  have valid: "merge_Valid m"
    using cur it'(1) st by (simp add: merge_Valid_def merge_status_def BlobFileIterator_Valid_def)
  have step: "merge_Next L Extend m = Some ?m'"
    using cur it'(2) by (simp add: merge_Next_def Let_def)
  have same: "mi_comparator ?m' = mi_comparator m" by (simp split: list.split)
  have entry: "x = (it_cur_record (mi_iterators m ! c), merge_GetBlobIndex m)"
    using it'(4) cur by (simp add: merge_GetBlobIndex_def)
  show ?thesis
    by (rule that [OF x valid step at' same entry]) (use head in blast)
qed

lemma mset_concat_update:
  "i < length xss \<Longrightarrow> xss ! i = x # xs \<Longrightarrow> mset (concat xss) = add_mset x (mset (concat (xss[i := xs])))"
  by (induction xss arbitrary: i) (auto simp: nth_Cons less_Suc_eq_0_disj split: nat.splits)

lemma merge_scan_at:
  assumes "merge_at L Extend m xss"
  shows "\<exists>out. merge_scan L Extend m = Some out \<and> mset out = mset (concat xss) \<and>
    ((\<forall>xs \<in> set xss. sorted_wrt (entry_le (mi_comparator m)) xs) \<longrightarrow> sorted_wrt (entry_le (mi_comparator m)) out)"
  using assms
proof (induction "length (concat xss)" arbitrary: m xss rule: less_induct)
  case less
  show ?case
  proof (cases "mi_current m")
    case None
    then have "\<forall>i < length xss. xss ! i = []" using less.prems by (auto simp: merge_at_def queue_ok_def queue_of_def)
    then have "concat xss = []" by (auto simp: in_set_conv_nth)
    moreover have "merge_scan L Extend m = Some []" using None by (subst merge_scan.simps) (simp add: merge_Valid_def)
    ultimately show ?thesis by simp
  next
    case (Some c)
    obtain x xs m' where 1: "c < length xss" "xss ! c = x # xs" "merge_Valid m" "merge_Next L Extend m = Some m'"
      "merge_at L Extend m' (xss[c := xs])" "mi_comparator m' = mi_comparator m"
      "x = (it_cur_record (mi_iterators m ! c), merge_GetBlobIndex m)"
      "\<forall>i y ys. i < length xss \<longrightarrow> xss ! i = y # ys \<longrightarrow> entry_le (mi_comparator m) x y"
      by (rule merge_Next_at [OF less.prems Some])
    let ?xss = "xss[c := xs]"
    have ms: "mset (concat xss) = add_mset x (mset (concat ?xss))" by (rule mset_concat_update [OF 1(1,2)])
    then have "length (concat ?xss) < length (concat xss)" by (metis lessI size_add_mset size_mset)
    from less.hyps [OF this 1(5)] obtain out where out: "merge_scan L Extend m' = Some out" "mset out = mset (concat ?xss)"
      "(\<forall>xs \<in> set ?xss. sorted_wrt (entry_le (mi_comparator m)) xs) \<longrightarrow> sorted_wrt (entry_le (mi_comparator m)) out"
      unfolding 1(6) by blast
    have scan: "merge_scan L Extend m = Some (x # out)"
      using 1(3,4,7) out(1) Some by (subst merge_scan.simps) simp
    have "sorted_wrt (entry_le (mi_comparator m)) (x # out)" if s: "\<forall>xs \<in> set xss. sorted_wrt (entry_le (mi_comparator m)) xs"
    proof -
      have cmp: "comparator_ok (mi_comparator m)" using less.prems by (simp add: merge_at_def)
      have "sorted_wrt (entry_le (mi_comparator m)) (x # xs)" using s 1(1,2) by (metis nth_mem)
      then have "\<forall>xs \<in> set ?xss. sorted_wrt (entry_le (mi_comparator m)) xs"
        using s set_update_subset_insert [of xss c xs] by auto
      moreover have "entry_le (mi_comparator m) x z" if z: "z \<in> set out" for z
      proof -
        have "z \<in> set (concat xss)" using z ms out(2) by (metis mset_eq_setD set_mset_add_mset_insert set_mset_mset insertI2)
        then obtain i where i: "i < length xss" "z \<in> set (xss ! i)" by (auto simp: in_set_conv_nth) (metis in_set_conv_nth)
        then obtain y ys where y: "xss ! i = y # ys" by (cases "xss ! i") auto
        have "sorted_wrt (entry_le (mi_comparator m)) (y # ys)" using s i(1) y by (metis nth_mem)
        then have "entry_le (mi_comparator m) y z" using i(2) y comparator_refl [OF cmp] by auto
        moreover have "entry_le (mi_comparator m) x y" using 1(8) i(1) y by blast
        ultimately show ?thesis by (rule comparator_le_trans [OF cmp, rotated])
      qed
      ultimately show ?thesis using out(3) by simp
    qed
    then show ?thesis using scan ms out(2) by simp
  qed
qed
lemma seek_all_queue_ok:
  assumes "queue_ok L Extend I m xss (mi_min_heap m)" "comparator_ok (mi_comparator m)" "distinct is" "set is \<inter> I = {}"
    and "\<forall>i \<in> set is. i < length xss \<and> (\<exists>it. BlobFileIterator_SeekToFirst L Extend (mi_iterators m ! i) = Some it \<and> yields L Extend it (xss ! i))"
  shows "\<exists>m'. seek_all L Extend is m = Some m' \<and> queue_ok L Extend (set is \<union> I) m' xss (mi_min_heap m') \<and>
    mi_comparator m' = mi_comparator m \<and> mi_status m' = mi_status m \<and> mi_current m' = mi_current m"
  using assms
proof (induction "is" arbitrary: m I)
  case (Cons i "is")
  obtain it where it: "BlobFileIterator_SeekToFirst L Extend (mi_iterators m ! i) = Some it" "yields L Extend it (xss ! i)" "i < length xss"
    using Cons.prems(5) by auto
  let ?m = "push_moved i it m"
  have "queue_ok L Extend (insert i I) ?m xss (mi_min_heap ?m)"
    using Cons.prems it by (intro push_moved_queue_ok) simp_all
  moreover have "\<forall>j \<in> set is. j < length xss \<and> (\<exists>it. BlobFileIterator_SeekToFirst L Extend (mi_iterators ?m ! j) = Some it \<and> yields L Extend it (xss ! j))"
  proof
    fix j assume j: "j \<in> set is"
    then have "i \<noteq> j" using Cons.prems(3) by auto
    then show "j < length xss \<and> (\<exists>it. BlobFileIterator_SeekToFirst L Extend (mi_iterators ?m ! j) = Some it \<and> yields L Extend it (xss ! j))"
      using Cons.prems(5) j by simp
  qed
  moreover have "set is \<inter> insert i I = {}" using Cons.prems(3,4) by auto
  ultimately have "\<exists>m'. seek_all L Extend is ?m = Some m' \<and> queue_ok L Extend (set is \<union> insert i I) m' xss (mi_min_heap m') \<and>
      mi_comparator m' = mi_comparator ?m \<and> mi_status m' = mi_status ?m \<and> mi_current m' = mi_current ?m"
    using Cons.prems(2,3) by (intro Cons.IH) simp_all
  then show ?case using it(1) by simp
qed simp

text \<open>Seeking and then visiting everything, when each file iterator offers its own entries.\<close>

lemma merge_all:
  assumes cmp: "comparator_ok cmp" and len: "length xss = length its"
    and seek: "\<forall>i < length its. \<exists>it. BlobFileIterator_SeekToFirst L Extend (its ! i) = Some it \<and> yields L Extend it (xss ! i)"
  shows "\<exists>m out. merge_SeekToFirst L Extend (new_BlobFileMergeIterator its cmp) = Some m \<and> merge_scan L Extend m = Some out \<and>
    mset out = mset (concat xss) \<and> (merge_status m = (if concat xss = [] then Aborted else OK)) \<and>
    ((\<forall>xs \<in> set xss. sorted_wrt (entry_le cmp) xs) \<longrightarrow> sorted_wrt (entry_le cmp) out)"
proof -
  let ?fresh = "new_BlobFileMergeIterator its cmp"
  have "\<exists>m. seek_all L Extend [0..<length its] ?fresh = Some m \<and> queue_ok L Extend (set [0..<length its] \<union> {}) m xss (mi_min_heap m) \<and>
      mi_comparator m = mi_comparator ?fresh \<and> mi_status m = mi_status ?fresh \<and> mi_current m = mi_current ?fresh"
    by (rule seek_all_queue_ok) (use assms in \<open>simp_all add: new_BlobFileMergeIterator_def queue_ok_def\<close>)
  then obtain m where m: "seek_all L Extend [0..<length its] ?fresh = Some m"
    "queue_ok L Extend {..<length xss} m xss (mi_min_heap m)" "mi_comparator m = cmp" "mi_status m = OK" "mi_current m = None"
    by (auto simp: new_BlobFileMergeIterator_def len atLeast0LessThan)
  show ?thesis
  proof (cases "mi_min_heap m")
    case Nil
    then have "\<forall>i < length xss. xss ! i = []" using m(2) by (auto simp: queue_ok_def)
    then have e: "concat xss = []" by (simp add: in_set_conv_nth) (metis in_set_conv_nth)
    have "merge_SeekToFirst L Extend ?fresh = Some (m\<lparr>mi_status := Aborted\<rparr>)"
      using m(1) Nil by (simp add: merge_SeekToFirst_def new_BlobFileMergeIterator_def)
    moreover have "merge_scan L Extend (m\<lparr>mi_status := Aborted\<rparr>) = Some []"
      using m(5) by (subst merge_scan.simps) (simp add: merge_Valid_def)
    ultimately show ?thesis using e m(5) by (simp add: merge_status_def)
  next
    case (Cons c h)
    let ?m = "m\<lparr>mi_current := Some c, mi_min_heap := h\<rparr>"
    have at: "merge_at L Extend ?m xss" using merge_at_pop [OF m(2,4)] m(3) cmp Cons by simp
    obtain x xs where x: "c < length xss" "xss ! c = x # xs" "merge_Valid ?m"
      by (rule merge_Next_at [OF at]) simp_all
    have ne: "concat xss \<noteq> []" using x by (simp add: in_set_conv_nth) (metis in_set_conv_nth list.distinct(1))
    have "merge_SeekToFirst L Extend ?fresh = Some ?m"
      using m(1) Cons by (simp add: merge_SeekToFirst_def new_BlobFileMergeIterator_def)
    moreover have "merge_status ?m = OK" using x(3) by (simp add: merge_Valid_def ok_def)
    ultimately show ?thesis using merge_scan_at [OF at] ne m(3) by (simp only: if_False) auto
  qed
qed
section \<open>Every loop ends\<close>

lemma DecodeHeader_length: "DecodeHeader Extend src = Inr (d, rest) \<Longrightarrow> 9 \<le> length src"
proof -
  assume "DecodeHeader Extend src = Inr (d, rest)"
  then obtain x where "drop 8 src = x # rest"
    by (auto simp: DecodeHeader_def bind_eq_Some_conv Let_def GetFixed32_def GetChar_def split: if_splits list.splits)
  then have "length (drop 8 src) = Suc (length rest)" by simp
  then show ?thesis by simp
qed

lemma DecodeRecord_length: "DecodeRecord L d r0 src = Inr x \<Longrightarrow> unat (dec_record_size d) \<le> length src"
  by (auto simp: DecodeRecord_def Let_def split: if_splits)

lemma map_sum_Inl: "map_sum id g x = Inl e \<longleftrightarrow> x = Inl e"
  by (cases x) simp_all

lemma failed_decode: "DecodeHeader Extend src \<noteq> Inl OK" "DecodeRecord L d r0 src \<noteq> Inl OK"
proof -
  show "DecodeHeader Extend src \<noteq> Inl OK" by (simp add: DecodeHeader_def or_status_eq_Inl)
  have "DecodeInto (BlobRecord_DecodeFrom r0) b \<noteq> Inl OK" for b
    by (auto simp: DecodeInto_def BlobRecord_DecodeFrom_def or_status_eq_Inl split: sum.splits if_splits)
  moreover have "Uncompress L t b \<noteq> Inl OK" for t b
    by (simp add: Uncompress_def or_status_eq_Inl)
  ultimately show "DecodeRecord L d r0 src \<noteq> Inl OK"
    by (auto simp: DecodeRecord_def Let_def map_sum_Inl split: sum.splits)
qed

lemma unat_add64: "unat a + unat b < 2 ^ 64 \<Longrightarrow> unat (a + b :: u64) = unat a + unat b"
  by (simp add: unat_word_ariths)

lemma unat_ucast_32_64: "unat (ucast (w :: u32) :: u64) = unat w" "unat (w :: u32) < 2 ^ 32"
proof -
  have "unat w < 2 ^ LENGTH(32)" by (rule unsigned_less)
  then show "unat w < 2 ^ 32" by simp
  then show "unat (ucast w :: u64) = unat w" by (simp add: unsigned_ucast_eq take_bit_nat_eq_self)
qed

text \<open>A record that decodes lies within the file.\<close>

lemma GetBlobRecord_decoded:
  assumes "it_file it = pread c" "it_status (GetBlobRecord L Extend it) = OK"
  obtains d rest x where "DecodeHeader Extend (take 9 (drop (unat (it_iterate_offset it)) c)) = Inr (d, rest)"
    "DecodeRecord L d (it_cur_record it)
       (take (unat (ucast (dec_record_size d) :: u64)) (drop (unat (it_iterate_offset it + 9)) c)) = Inr x"
    "it_iterate_offset (GetBlobRecord L Extend it) = it_iterate_offset it + (9 + ucast (dec_record_size d))"
proof (cases "DecodeHeader Extend (take 9 (drop (unat (it_iterate_offset it)) c))")
  case (Inl s)
  then have "s = OK" using assms by (simp add: GetBlobRecord_def pread_def)
  then show ?thesis using Inl failed_decode(1) by blast
next
  case (Inr y)
  obtain d rest where y: "y = (d, rest)" by (cases y)
  let ?R = "DecodeRecord L d (it_cur_record it)
       (take (unat (ucast (dec_record_size d) :: u64)) (drop (unat (it_iterate_offset it + 9)) c))"
  show ?thesis
  proof (cases ?R)
    case (Inl s)
    then have "s = OK" using assms Inr y by (simp add: GetBlobRecord_def pread_def Let_def)
    then show ?thesis using Inl failed_decode(2) by blast
  next
    case (Inr z)
    then have "it_iterate_offset (GetBlobRecord L Extend it) = it_iterate_offset it + (9 + ucast (dec_record_size d))"
      using assms(1) \<open>_ = Inr y\<close> y by (cases z) (simp add: GetBlobRecord_def pread_def Let_def)
    then show ?thesis using that \<open>_ = Inr y\<close> y Inr by blast
  qed
qed

lemma GetBlobRecord_progress:
  assumes "it_file it = pread c" "length c < 2 ^ 63" "it_status (GetBlobRecord L Extend it) = OK"
  shows "unat (it_iterate_offset it) + 9 \<le> unat (it_iterate_offset (GetBlobRecord L Extend it))"
    "unat (it_iterate_offset (GetBlobRecord L Extend it)) \<le> length c"
proof -
  let ?o = "it_iterate_offset it"
  obtain d rest x where
    d: "DecodeHeader Extend (take 9 (drop (unat ?o) c)) = Inr (d, rest)"
    "DecodeRecord L d (it_cur_record it) (take (unat (ucast (dec_record_size d) :: u64)) (drop (unat (?o + 9)) c)) = Inr x"
    "it_iterate_offset (GetBlobRecord L Extend it) = ?o + (9 + ucast (dec_record_size d))"
    using GetBlobRecord_decoded [OF assms(1,3)] by blast
  have "unat ?o + 9 \<le> length c" using DecodeHeader_length [OF d(1)] by simp
  moreover from this have n: "unat (?o + 9) = unat ?o + 9" using assms(2) unat_add64 [of ?o 9] by simp
  ultimately have le: "unat ?o + 9 + unat (dec_record_size d) \<le> length c"
    using DecodeRecord_length [OF d(2)] by (simp add: unat_ucast_32_64(1))
  then have "unat ((?o + 9) + ucast (dec_record_size d)) = unat ?o + 9 + unat (dec_record_size d)"
    using unat_add64 [of "?o + 9" "ucast (dec_record_size d)"] assms(2) n by (simp add: unat_ucast_32_64(1))
  then have "unat (it_iterate_offset (GetBlobRecord L Extend it)) = unat ?o + 9 + unat (dec_record_size d)"
    unfolding d(3) by (simp add: add.assoc)
  then show "unat ?o + 9 \<le> unat (it_iterate_offset (GetBlobRecord L Extend it))"
    "unat (it_iterate_offset (GetBlobRecord L Extend it)) \<le> length c"
    using le by simp_all
qed
text \<open>A step on any content returns, and either ends the iteration or moves on within the file.\<close>

lemma GetBlobRecord_keeps [simp]:
  "it_file (GetBlobRecord L Extend it) = it_file it" "it_file_number (GetBlobRecord L Extend it) = it_file_number it"
  "it_end_of_blob_record (GetBlobRecord L Extend it) = it_end_of_blob_record it"
  "readahead_ok (GetBlobRecord L Extend it) = readahead_ok it"
  by (simp_all add: GetBlobRecord_def readahead_ok_def Let_def split: sum.split prod.split)

lemma PrefetchAndGet_progress:
  assumes "it_file it = pread c" "length c < 2 ^ 63" "readahead_ok it"
  obtains it' where "PrefetchAndGet L Extend it = Some it'" "it_file it' = pread c" "readahead_ok it'"
    "BlobFileIterator_Valid it' \<Longrightarrow> unat (it_iterate_offset it) + 9 \<le> unat (it_iterate_offset it') \<and> unat (it_iterate_offset it') \<le> length c"
proof (cases "it_iterate_offset it < it_end_of_blob_record it")
  case True
  obtain b e s p where 1: "PrefetchAndGet L Extend it = Some ((GetBlobRecord L Extend it)\<lparr>it_readahead_begin := b, it_readahead_end := e,
      it_readahead_size := s, it_prefetched := p\<rparr>)" "0 < s" "s \<le> kMaxIterReadahead"
    using PrefetchAndGet_eq [OF assms(3) True, of L Extend] by blast
  show ?thesis
    using GetBlobRecord_progress [OF assms(1,2), of L Extend] 1(2,3) assms(1)
    by (intro that [OF 1(1)]) (simp_all add: readahead_ok_def BlobFileIterator_Valid_def ok_def)
next
  case False
  then have "PrefetchAndGet L Extend it = Some (it\<lparr>it_valid := False\<rparr>)" by (simp add: PrefetchAndGet_def not_less)
  then show ?thesis
    using assms by (intro that [of "it\<lparr>it_valid := False\<rparr>"]) (simp_all add: readahead_ok_def BlobFileIterator_Valid_def)
qed

lemma scan_returns:
  assumes "it_file it = pread c" "length c < 2 ^ 63" "readahead_ok it"
    and "BlobFileIterator_Valid it \<Longrightarrow> unat (it_iterate_offset it) \<le> length c"
  shows "\<exists>xs. scan L Extend it = Some xs \<and> (xs \<noteq> [] \<longrightarrow> 9 * length xs + unat (it_iterate_offset it) \<le> length c + 9)"
  using assms
proof (induction "length c - unat (it_iterate_offset it)" arbitrary: it rule: less_induct)
  case less
  show ?case
  proof (cases "BlobFileIterator_Valid it")
    case True
    obtain it' where 1: "PrefetchAndGet L Extend it = Some it'" "it_file it' = pread c" "readahead_ok it'"
      "BlobFileIterator_Valid it' \<Longrightarrow> unat (it_iterate_offset it) + 9 \<le> unat (it_iterate_offset it') \<and> unat (it_iterate_offset it') \<le> length c"
      using PrefetchAndGet_progress [OF less.prems(1-3)] by blast
    have "\<exists>xs. scan L Extend it' = Some xs \<and> (xs \<noteq> [] \<longrightarrow> 9 * length xs + unat (it_iterate_offset it) \<le> length c)"
    proof (cases "BlobFileIterator_Valid it'")
      case v: True
      then have "length c - unat (it_iterate_offset it') < length c - unat (it_iterate_offset it)" using 1(4) by linarith
      from less.hyps [OF this 1(2) less.prems(2) 1(3)] show ?thesis using 1(4) [OF v] by fastforce
    next
      case False
      then show ?thesis by (subst scan.simps) simp
    qed
    then obtain xs where xs: "scan L Extend it' = Some xs" "xs \<noteq> [] \<longrightarrow> 9 * length xs + unat (it_iterate_offset it) \<le> length c" by blast
    have "scan L Extend it = Some ((it_cur_record it, BlobFileIterator_GetBlobIndex it) # xs)"
      using True 1(1) xs(1) by (subst scan.simps) (simp add: BlobFileIterator_Next_def)
    then show ?thesis using xs(2) less.prems(4) [OF True] by (cases xs) auto
  next
    case False
    then show ?thesis by (subst scan.simps) simp
  qed
qed

lemma Init_keeps:
  "it_file (snd (BlobFileIterator_Init Extend it)) = it_file it" "readahead_ok (snd (BlobFileIterator_Init Extend it)) = readahead_ok it"
  "it_valid (snd (BlobFileIterator_Init Extend it)) = it_valid it" "it_file_number (snd (BlobFileIterator_Init Extend it)) = it_file_number it"
  by (simp_all add: BlobFileIterator_Init_def readahead_ok_def split: sum.split)

lemma prev_loop_returns:
  assumes "it_file it = pread c" "length c < 2 ^ 63"
  shows "\<exists>it'. prev_loop Extend offset len it = Some it'"
  using assms(1)
proof (induction "2 ^ 64 - unat (it_iterate_offset it)" arbitrary: it len rule: less_induct)
  case less
  let ?o = "it_iterate_offset it" and ?H = "DecodeHeader Extend (take 9 (drop (unat (it_iterate_offset it)) c))"
  show ?case
  proof (cases "?o < offset \<and> (\<exists>d rest. ?H = Inr (d, rest))")
    case True
    then obtain d rest where d: "?H = Inr (d, rest)" by blast
    let ?len = "9 + ucast (dec_record_size d) :: u64"
    let ?it = "it\<lparr>it_status := OK, it_iterate_offset := ?o + ?len\<rparr>"
    have "unat ?len = 9 + unat (dec_record_size d)"
      using unat_ucast_32_64 [of "dec_record_size d"] unat_add64 [of 9 "ucast (dec_record_size d)"] by simp
    moreover have "unat ?o + 9 \<le> length c" using DecodeHeader_length [OF d] by simp
    ultimately have "unat (?o + ?len) = unat ?o + (9 + unat (dec_record_size d))"
      using assms(2) unat_ucast_32_64(2) [of "dec_record_size d"] unat_add64 [of ?o ?len] by simp
    moreover have "unat ?o < 2 ^ LENGTH(64)" by (rule unsigned_less)
    ultimately have "2 ^ 64 - unat (it_iterate_offset ?it) < 2 ^ 64 - unat ?o" by simp
    then have "\<exists>it'. prev_loop Extend offset ?len ?it = Some it'"
      by (rule less.hyps) (simp add: less.prems)
    then show ?thesis using True d less.prems by (subst prev_loop.simps) (simp add: pread_def Let_def)
  next
    case False
    then show ?thesis using less.prems by (subst prev_loop.simps) (auto simp: pread_def split: sum.split)
  qed
qed
section \<open>Positioning at an offset\<close>

lemma framed_header_read:
  assumes "record_ok r" "length (pre @ framed L Extend' e r @ post) < 2 ^ 64"
  obtains h d where "pread (pre @ framed L Extend' e r @ post) (word_of_nat (length pre)) 9 = Inr h"
    "DecodeHeader Extend h = Inr (d, [])" "9 + ucast (dec_record_size d) = (word_of_nat (length (framed L Extend' e r)) :: u64)"
proof -
  obtain y c where c: "Compress L (enc_compression e) (BlobRecord_EncodeTo r []) = (y, c)" by fastforce
  obtain crc where f: "framed L Extend' e r = EncodeFixed32 crc @ EncodeFixed32 (word_of_nat (length y)) @ c # y"
    using framed_header_record [OF c] by blast
  let ?h = "EncodeFixed32 crc @ EncodeFixed32 (word_of_nat (length y)) @ [c]"
  have "length y < 2 ^ 32" using Compress_length [OF c] assms(1) by (simp add: record_ok_def)
  then have n: "ucast (word_of_nat (length y) :: u32) = (word_of_nat (length y) :: u64)"
    by (metis unat_word_of_length of_nat_unat)
  have "length (pre @ ?h @ (y @ post)) < 2 ^ 64" using assms(2) by (simp add: f)
  from pread_slice [OF this] have "pread (pre @ framed L Extend' e r @ post) (word_of_nat (length pre)) 9 = Inr ?h"
    by (simp add: f)
  then show ?thesis
    using that DecodeHeader_encoded [of Extend crc "word_of_nat (length y)" c "[]"] n by (simp add: f)
qed

lemma prev_loop_header:
  assumes at: "iter_at L Extend' e pre (r # rs) post it" and lt: "length pre < unat offset"
  shows "prev_loop Extend offset len it = prev_loop Extend offset (word_of_nat (length (framed L Extend' e r)))
    (it\<lparr>it_status := OK, it_iterate_offset := word_of_nat (length pre + length (framed L Extend' e r))\<rparr>)"
proof -
  note A = at [unfolded iter_at_def Let_def, simplified]
  let ?f = "framed L Extend' e r" and ?rest = "concat (map (framed L Extend' e) rs) @ post"
  obtain h d where h: "pread (pre @ ?f @ ?rest) (word_of_nat (length pre)) 9 = Inr h"
    "DecodeHeader Extend h = Inr (d, [])" "9 + ucast (dec_record_size d) = (word_of_nat (length ?f) :: u64)"
    by (rule framed_header_read [of r pre L Extend' e ?rest Extend]) (use A in simp_all)
  have "it_iterate_offset it < offset"
    using A lt by (simp add: word_less_nat_alt unat_word_of_length64)
  then show ?thesis
    using A h by (subst prev_loop.simps) (simp add: Let_def)
qed

text \<open>An offset within the first record ends the loop in front of it, a later one passes it.\<close>

lemma prev_loop_inside:
  assumes at: "iter_at L Extend' e pre (r # rs) post it" and off: "length pre \<le> unat offset"
    "unat offset < length pre + length (framed L Extend' e r)"
  shows "\<exists>it'. prev_loop Extend offset len it = Some it' \<and> iter_at L Extend' e pre (r # rs) post it' \<and>
    \<not> it_valid it' \<and> it_file_number it' = it_file_number it"
proof -
  note A = at [unfolded iter_at_def Let_def, simplified]
  let ?n = "length pre + length (framed L Extend' e r)"
  have n: "unat (word_of_nat ?n :: u64) = ?n" "unat (word_of_nat (length pre) :: u64) = length pre"
    by (rule unat_word_of_length64; use A in simp)+
  show ?thesis
  proof (cases "length pre = unat offset")
    case True
    then have "it_iterate_offset it = offset" using A n by (simp add: word_unat_eq_iff)
    then have "prev_loop Extend offset len it = Some (it\<lparr>it_valid := False\<rparr>)"
      by (subst prev_loop.simps) simp
    then show ?thesis using at by (simp add: iter_at_def readahead_ok_def)
  next
    case False
    then have "\<not> word_of_nat ?n < offset" "word_of_nat ?n > offset" using off n by (simp_all add: word_less_nat_alt)
    then have "prev_loop Extend offset len it =
       Some (it\<lparr>it_status := OK, it_iterate_offset := word_of_nat (length pre), it_valid := False\<rparr>)"
      using False off(1) by (subst prev_loop_header [OF at]) (simp, subst prev_loop.simps, simp)
    then show ?thesis using at by (simp add: iter_at_def readahead_ok_def)
  qed
qed

lemma prev_loop_at:
  assumes "iter_at L Extend' e pre rs post it" "length pre \<le> unat offset"
    "unat offset < length (pre @ concat (map (framed L Extend' e) rs))"
  shows "\<exists>us v vs it'. rs = us @ v # vs \<and> prev_loop Extend offset len it = Some it' \<and>
    iter_at L Extend' e (pre @ concat (map (framed L Extend' e) us)) (v # vs) post it' \<and>
    \<not> it_valid it' \<and> it_file_number it' = it_file_number it \<and>
    length (pre @ concat (map (framed L Extend' e) us)) \<le> unat offset \<and>
    unat offset < length (pre @ concat (map (framed L Extend' e) us)) + length (framed L Extend' e v)"
  using assms
proof (induction rs arbitrary: pre it len)
  case (Cons r rs)
  let ?f = "framed L Extend' e r"
  show ?case
  proof (cases "unat offset < length pre + length ?f")
    case True
    from prev_loop_inside [OF Cons.prems(1,2) True, of Extend len] show ?thesis
      using True Cons.prems(2) by (intro exI [of _ "[]"] exI [of _ r] exI [of _ rs]) simp
  next
    case False
    let ?it = "it\<lparr>it_status := OK, it_iterate_offset := word_of_nat (length pre + length ?f)\<rparr>"
    have lt: "length pre < unat offset" using False length_framed_pos [of L Extend' e r] by linarith
    have "iter_at L Extend' e (pre @ ?f) rs post ?it"
      using Cons.prems(1) by (simp add: iter_at_def readahead_ok_def)
    from Cons.IH [OF this] obtain us v vs it' where
      "rs = us @ v # vs" "prev_loop Extend offset (word_of_nat (length ?f)) ?it = Some it'"
      "iter_at L Extend' e ((pre @ ?f) @ concat (map (framed L Extend' e) us)) (v # vs) post it'"
      "\<not> it_valid it'" "it_file_number it' = it_file_number ?it"
      "length ((pre @ ?f) @ concat (map (framed L Extend' e) us)) \<le> unat offset"
      "unat offset < length ((pre @ ?f) @ concat (map (framed L Extend' e) us)) + length (framed L Extend' e v)"
      using False Cons.prems(3) by fastforce
    then show ?thesis
      unfolding prev_loop_header [OF Cons.prems(1) lt]
      by (intro exI [of _ "r # us"] exI [of _ v] exI [of _ vs] exI [of _ it']) simp
  qed
qed simp
section \<open>Properties\<close>

definition open_iterator :: "u64 \<Rightarrow> TitanCFOptions \<Rightarrow> bytes \<Rightarrow> BlobFileIterator" where
  "open_iterator n cf c = new_BlobFileIterator (pread c) n (word_of_nat (length c)) cf"

lemma SeekToFirst_open:
  assumes "libs_ok L" "built_from L Extend rs hs c" "\<forall>r \<in> set rs. \<not> only_value r"
  shows "\<exists>it. BlobFileIterator_SeekToFirst L Extend (open_iterator n cf c) = Some it \<and> yields L Extend it (indexed n hs rs)"
proof -
  obtain e where "c = file_header @ concat (map (framed L Extend e) rs) @ BlobFileFooter_EncodeTo Extend null_footer []"
    "hs = handles_from 8 (map (framed L Extend e) rs)"
    by (rule built_from_content [OF assms(2)])
  note c = this
  have "\<forall>r \<in> set rs. record_ok r \<and> \<not> only_value r" "length c < 2 ^ 64" using assms(2,3) by (simp_all add: built_from_def)
  from SeekToFirst_built [OF assms(1) this(1) c(1) this(2)] show ?thesis
    unfolding open_iterator_def c(2) .
qed

lemma indexed_drop: "drop i (indexed n hs rs) = indexed n (drop i hs) (drop i rs)"
  by (simp add: indexed_def drop_zip drop_map)

lemma handles_from_append: "handles_from off (fs @ gs) = handles_from off fs @ handles_from (off + length (concat fs)) gs"
  by (induction fs arbitrary: off) (simp_all add: add.assoc)

lemma IterateForPrev_built:
  assumes "libs_ok L" "\<forall>r \<in> set rs. record_ok r \<and> \<not> only_value r" and off: "8 \<le> unat offset" "unat offset + 32 < length c"
    and c: "c = file_header @ concat (map (framed L Extend e) rs) @ BlobFileFooter_EncodeTo Extend null_footer []" "length c < 2 ^ 64"
  shows "\<exists>us v vs it it'. rs = us @ v # vs \<and> IterateForPrev Extend offset (open_iterator n cf c) = Some it \<and> \<not> it_valid it \<and>
    8 + length (concat (map (framed L Extend e) us)) \<le> unat offset \<and>
    unat offset < 8 + length (concat (map (framed L Extend e) us)) + length (framed L Extend e v) \<and>
    PrefetchAndGet L Extend it = Some it' \<and> yields L Extend it' (indexed n
      (handles_from (8 + length (concat (map (framed L Extend e) us))) (map (framed L Extend e) (v # vs))) (v # vs))"
proof -
  let ?n = "length (file_header @ concat (map (framed L Extend e) rs))" and ?F = "BlobFileFooter_EncodeTo Extend null_footer []"
  have n: "length c = ?n + 32" by (simp add: c(1) length_BlobFileFooter)
  let ?it = "(open_iterator n cf c)\<lparr>it_status := OK, it_end_of_blob_record := word_of_nat ?n, it_init := True, it_iterate_offset := 8\<rparr>"
  have num: "it_file_number ?it = n" by (simp add: open_iterator_def new_BlobFileIterator_def)
  have at: "iter_at L Extend e file_header rs ?F ?it"
    using c assms(2) by (simp add: iter_at_def open_iterator_def new_BlobFileIterator_def readahead_ok_def)
  have "unat (word_of_nat ?n :: u64) = ?n" using c(2) n by (intro unat_word_of_length64) linarith
  then have "\<not> word_of_nat ?n \<le> offset" using off n unfolding word_le_nat_alt by linarith
  then have 1: "IterateForPrev Extend offset (open_iterator n cf c) = prev_loop Extend offset 0 ?it"
    using Init_built [OF c, of "open_iterator n cf c"]
    by (simp add: IterateForPrev_def open_iterator_def new_BlobFileIterator_def)
  have "length file_header \<le> unat offset" "unat offset < ?n" using off n by (simp_all only: length_file_header)
  from prev_loop_at [OF at this, of Extend 0] obtain us v vs it where
    p: "rs = us @ v # vs" "prev_loop Extend offset 0 ?it = Some it"
    "iter_at L Extend e (file_header @ concat (map (framed L Extend e) us)) (v # vs) ?F it"
    "\<not> it_valid it" "it_file_number it = it_file_number ?it"
    "length (file_header @ concat (map (framed L Extend e) us)) \<le> unat offset"
    "unat offset < length (file_header @ concat (map (framed L Extend e) us)) + length (framed L Extend e v)"
    by (elim exE conjE)
  have l: "length (file_header @ concat (map (framed L Extend e) us)) = 8 + length (concat (map (framed L Extend e) us))" by simp
  obtain it' where it': "PrefetchAndGet L Extend it = Some it'" "yields L Extend it' (indexed n
      (handles_from (8 + length (concat (map (framed L Extend e) us))) (map (framed L Extend e) (v # vs))) (v # vs))"
    using PrefetchAndGet_yields [OF assms(1) p(3), of Extend] unfolding p(5) num l by (elim exE conjE)
  show ?thesis
    by (rule exI [of _ us], rule exI [of _ v], rule exI [of _ vs], rule exI [of _ it], rule exI [of _ it'])
      (intro conjI p(1,4) it' p(6,7) [unfolded l] trans [OF 1 p(2)])
qed

text \<open>
  C19. Iterating over a blob file that was built without an error visits every record in file
  order with its blob index and then ends with success. \<^verbatim>\<open>IterateForPrev\<close> for an offset among the
  records positions the iterator in front of the record that contains the offset, so that the
  following steps visit that record and all later ones.
\<close>

theorem iterator_visits_file:
  assumes "libs_ok L" "built_from L Extend rs hs c" "\<forall>r \<in> set rs. \<not> only_value r"
  shows "(\<exists>it. BlobFileIterator_SeekToFirst L Extend (open_iterator n cf c) = Some it \<and>
      scan L Extend it = Some (indexed n hs rs)) \<and>
    (8 \<le> unat offset \<and> unat offset + 32 < length c \<longrightarrow>
     (\<exists>i < length rs. unat (bh_offset (hs ! i)) \<le> unat offset \<and> unat offset < unat (bh_offset (hs ! i)) + unat (bh_size (hs ! i)) \<and>
       (\<exists>it it'. IterateForPrev Extend offset (open_iterator n cf c) = Some it \<and> \<not> BlobFileIterator_Valid it \<and>
          BlobFileIterator_Next L Extend it = Some it' \<and> scan L Extend it' = Some (drop i (indexed n hs rs)))))"
proof (intro conjI impI)
  show "\<exists>it. BlobFileIterator_SeekToFirst L Extend (open_iterator n cf c) = Some it \<and> scan L Extend it = Some (indexed n hs rs)"
    using SeekToFirst_open [OF assms] yields_scan by blast
next
  assume off: "8 \<le> unat offset \<and> unat offset + 32 < length c"
  obtain e where c: "c = file_header @ concat (map (framed L Extend e) rs) @ BlobFileFooter_EncodeTo Extend null_footer []"
    and hs: "hs = handles_from 8 (map (framed L Extend e) rs)"
    by (rule built_from_content [OF assms(2)])
  have lc: "length c < 2 ^ 64" and ok: "\<forall>r \<in> set rs. record_ok r \<and> \<not> only_value r" using assms(2,3) by (simp_all add: built_from_def)
  let ?pos = "\<lambda>us. 8 + length (concat (map (framed L Extend e) us))"
  obtain us v vs it it' where p: "rs = us @ v # vs" "IterateForPrev Extend offset (open_iterator n cf c) = Some it" "\<not> it_valid it"
    "?pos us \<le> unat offset" "unat offset < ?pos us + length (framed L Extend e v)" "PrefetchAndGet L Extend it = Some it'"
    "yields L Extend it' (indexed n (handles_from (?pos us) (map (framed L Extend e) (v # vs))) (v # vs))"
    using IterateForPrev_built [OF assms(1) ok conjunct1 [OF off] conjunct2 [OF off] c lc, of n cf] by blast
  let ?i = "length us"
  have h: "hs ! ?i = \<lparr>bh_offset = word_of_nat (?pos us), bh_size = word_of_nat (length (framed L Extend e v))\<rparr>"
    using handles_from_nth [of ?i "map (framed L Extend e) rs" 8] by (simp add: hs p(1) nth_append)
  have "?pos us + length (framed L Extend e v) < 2 ^ 64" using lc c p(1) by simp
  then have "unat (bh_offset (hs ! ?i)) = ?pos us" "unat (bh_size (hs ! ?i)) = length (framed L Extend e v)"
    unfolding h BlobHandle.simps by (intro unat_word_of_length64; linarith)+
  moreover have "drop ?i (indexed n hs rs) = indexed n (handles_from (?pos us) (map (framed L Extend e) (v # vs))) (v # vs)"
    by (simp add: indexed_drop hs p(1) handles_from_append)
  then have "scan L Extend it' = Some (drop ?i (indexed n hs rs))" using yields_scan [OF p(7)] by simp
  ultimately show "\<exists>i < length rs. unat (bh_offset (hs ! i)) \<le> unat offset \<and> unat offset < unat (bh_offset (hs ! i)) + unat (bh_size (hs ! i)) \<and>
       (\<exists>it it'. IterateForPrev Extend offset (open_iterator n cf c) = Some it \<and> \<not> BlobFileIterator_Valid it \<and>
          BlobFileIterator_Next L Extend it = Some it' \<and> scan L Extend it' = Some (drop i (indexed n hs rs)))"
    using p(1-6) by (intro exI [of _ ?i]) (simp add: BlobFileIterator_Valid_def BlobFileIterator_Next_def)
qed
lemma w_records_keyed: "\<forall>r \<in> set w_records. \<not> only_value r"
  by (simp add: w_records_def)

theorem iterator_visits_file_witness:
  "\<exists>i < 2. unat (bh_offset (fst w_built ! i)) \<le> 24 \<and>
     (\<exists>it it'. IterateForPrev (\<lambda>a _. a) 24 (open_iterator 5 w_blob_cf (bb_file w_finished)) = Some it \<and>
        BlobFileIterator_Next zero_libs (\<lambda>a _. a) it = Some it' \<and>
        scan zero_libs (\<lambda>a _. a) it' = Some (drop i (indexed 5 (fst w_built) w_records)))"
proof -
  have "length w_records = 2" by (simp add: w_records_def)
  then show ?thesis
    using iterator_visits_file [OF zero_libs_ok w_built_from w_records_keyed, of 5 w_blob_cf 24] w_finished_length by auto
qed

lemma merge_scan_files:
  fixes fs :: "(u64 \<times> BlobRecord list \<times> BlobHandle list \<times> bytes) list"
  defines "entries \<equiv> map (\<lambda>(n, rs, hs, c). indexed n hs rs) fs"
  assumes "libs_ok L" "comparator_ok cmp" "\<forall>(n, rs, hs, c) \<in> set fs. built_from L Extend rs hs c \<and> (\<forall>r \<in> set rs. \<not> only_value r)"
  shows "\<exists>m out. merge_SeekToFirst L Extend (new_BlobFileMergeIterator (map (\<lambda>(n, rs, hs, c). open_iterator n cf c) fs) cmp) = Some m \<and>
    merge_scan L Extend m = Some out \<and> mset out = mset (concat entries) \<and>
    merge_status m = (if concat entries = [] then Aborted else OK) \<and>
    ((\<forall>xs \<in> set entries. sorted_wrt (entry_le cmp) xs) \<longrightarrow> sorted_wrt (entry_le cmp) out)"
proof (rule merge_all [OF assms(3)])
  let ?its = "map (\<lambda>(n, rs, hs, c). open_iterator n cf c) fs"
  show "length entries = length ?its" by (simp add: entries_def)
  show "\<forall>i < length ?its. \<exists>it. BlobFileIterator_SeekToFirst L Extend (?its ! i) = Some it \<and> yields L Extend it (entries ! i)"
  proof (intro allI impI)
    fix i assume i: "i < length ?its"
    obtain n rs hs c where f: "fs ! i = (n, rs, hs, c)" by (cases "fs ! i")
    have "fs ! i \<in> set fs" using i by simp
    then have "built_from L Extend rs hs c" "\<forall>r \<in> set rs. \<not> only_value r" using bspec [OF assms(4)] f by fastforce+
    from SeekToFirst_open [OF assms(2) this, of n cf] show
      "\<exists>it. BlobFileIterator_SeekToFirst L Extend (?its ! i) = Some it \<and> yields L Extend it (entries ! i)"
      using i f by (simp add: entries_def)
  qed
qed

text \<open>
  C12. Merging iterators over blob files that were built without an error visits every record
  of every file exactly once, with its blob index, and returns; if the records of each file are
  in key order, the merged sequence is in key order. The merge reports \<open>Aborted\<close> after seeking
  exactly when there is no record at all.
\<close>

theorem merge_visits_all:
  fixes fs :: "(u64 \<times> BlobRecord list \<times> BlobHandle list \<times> bytes) list"
  defines "entries \<equiv> map (\<lambda>(n, rs, hs, c). indexed n hs rs) fs"
  assumes "libs_ok L" "comparator_ok cmp" "\<forall>(n, rs, hs, c) \<in> set fs. built_from L Extend rs hs c \<and> (\<forall>r \<in> set rs. \<not> only_value r)"
  shows "\<exists>m out. merge_SeekToFirst L Extend (new_BlobFileMergeIterator (map (\<lambda>(n, rs, hs, c). open_iterator n cf c) fs) cmp) = Some m \<and>
    merge_scan L Extend m = Some out \<and> mset out = mset (concat entries) \<and>
    merge_status m = (if concat entries = [] then Aborted else OK) \<and>
    ((\<forall>xs \<in> set entries. sorted_wrt (entry_le cmp) xs) \<longrightarrow> sorted_wrt (entry_le cmp) out)"
  unfolding entries_def by (rule merge_scan_files [OF assms(2-4)])

theorem merge_visits_all_witness:
  "\<exists>m out. merge_SeekToFirst zero_libs (\<lambda>a _. a) (new_BlobFileMergeIterator
       [open_iterator 5 w_blob_cf (bb_file w_finished), open_iterator 6 w_blob_cf (bb_file w_finished)] bytewise) = Some m \<and>
     merge_scan zero_libs (\<lambda>a _. a) m = Some out \<and>
     mset out = mset (indexed 5 (fst w_built) w_records) + mset (indexed 6 (fst w_built) w_records)"
  using merge_visits_all [OF zero_libs_ok bytewise_ok, of
      "[(5, w_records, fst w_built, bb_file w_finished), (6, w_records, fst w_built, bb_file w_finished)]" "\<lambda>a _. a" w_blob_cf]
    w_built_from w_records_keyed by auto

text \<open>
  C21. The loops of the iterator end on every file content, also a damaged one: seeking and
  visiting returns after at most one record for nine bytes, and \<^verbatim>\<open>IterateForPrev\<close> returns for
  every offset.
\<close>

theorem iterator_loops_end:
  assumes "length c < 2 ^ 63"
  shows "(\<exists>it xs. BlobFileIterator_SeekToFirst L Extend (new_BlobFileIterator (pread c) n sz cf) = Some it \<and>
      scan L Extend it = Some xs \<and> 9 * length xs \<le> length c - 8) \<and>
    (\<exists>it. IterateForPrev Extend offset (new_BlobFileIterator (pread c) n sz cf) = Some it)"
proof
  let ?new = "new_BlobFileIterator (pread c) n sz cf"
  obtain b i1 where i1: "BlobFileIterator_Init Extend ?new = (b, i1)" by fastforce
  have k: "it_file i1 = pread c" "readahead_ok i1" "\<not> it_valid i1"
    using Init_keeps [of Extend ?new] i1 by (simp_all add: new_BlobFileIterator_def readahead_ok_def)
  have init: "\<not> it_init ?new" by (simp add: new_BlobFileIterator_def)
  let ?it = "i1\<lparr>it_status := OK, it_iterate_offset := 8\<rparr>"
  obtain it where it: "PrefetchAndGet L Extend ?it = Some it" "it_file it = pread c" "readahead_ok it"
    "BlobFileIterator_Valid it \<Longrightarrow> unat (it_iterate_offset ?it) + 9 \<le> unat (it_iterate_offset it) \<and> unat (it_iterate_offset it) \<le> length c"
    by (rule PrefetchAndGet_progress [of ?it c L Extend]) (use k assms in \<open>simp_all add: readahead_ok_def\<close>)
  obtain xs where xs: "scan L Extend it = Some xs" "xs \<noteq> [] \<longrightarrow> 9 * length xs + unat (it_iterate_offset it) \<le> length c + 9"
    using scan_returns [OF it(2) assms it(3)] it(4) by blast
  have "9 * length xs \<le> length c - 8"
  proof (cases xs)
    case (Cons x ys)
    then have "BlobFileIterator_Valid it" using xs(1) by (subst (asm) scan.simps) (simp split: if_splits)
    then show ?thesis using xs(2) it(4) Cons by simp
  qed simp
  moreover have "scan L Extend i1 = Some []" using k(3) by (subst scan.simps) (simp add: BlobFileIterator_Valid_def)
  ultimately show "\<exists>it xs. BlobFileIterator_SeekToFirst L Extend ?new = Some it \<and> scan L Extend it = Some xs \<and> 9 * length xs \<le> length c - 8"
    using it(1) xs(1) i1 init by (cases b) (simp_all add: BlobFileIterator_SeekToFirst_def)
  have "\<exists>it'. prev_loop Extend offset 0 ?it = Some it'"
    by (rule prev_loop_returns [OF _ assms]) (simp add: k)
  then show "\<exists>it. IterateForPrev Extend offset ?new = Some it"
    using i1 init by (simp add: IterateForPrev_def)
qed

theorem iterator_loops_end_witness:
  "\<exists>it xs. BlobFileIterator_SeekToFirst zero_libs (\<lambda>a _. a) (new_BlobFileIterator (pread [1, 2, 3]) 5 3 w_blob_cf) = Some it \<and>
     scan zero_libs (\<lambda>a _. a) it = Some xs \<and> length xs = 0"
  using iterator_loops_end [of "[1, 2, 3]" zero_libs "\<lambda>a _. a" 5 3 w_blob_cf] by auto

text \<open>
  C38. When the next record of the current file cannot be read, the merge iterator drops that file
  and goes on with the others with status \<open>OK\<close>: the error is lost, and the remaining records of
  the file are skipped silently.
\<close>

theorem merge_drops_error:
  assumes "mi_status m = OK" "mi_current m = Some c" "c < length (mi_iterators m)" "c \<notin> set (mi_min_heap m)"
    and "\<forall>j \<in> set (mi_min_heap m). it_status (mi_iterators m ! j) = OK"
    and "readahead_ok (mi_iterators m ! c)"
    and "it_iterate_offset (mi_iterators m ! c) < it_end_of_blob_record (mi_iterators m ! c)"
    and "it_status (GetBlobRecord L Extend (mi_iterators m ! c)) \<noteq> OK"
  shows "\<exists>m'. merge_Next L Extend m = Some m' \<and> merge_status m' = OK \<and> mi_current m' \<noteq> Some c \<and> c \<notin> set (mi_min_heap m') \<and>
     it_status (mi_iterators m' ! c) = it_status (GetBlobRecord L Extend (mi_iterators m ! c))"
proof -
  obtain b e s p where "BlobFileIterator_Next L Extend (mi_iterators m ! c) = Some ((GetBlobRecord L Extend (mi_iterators m ! c))
      \<lparr>it_readahead_begin := b, it_readahead_end := e, it_readahead_size := s, it_prefetched := p\<rparr>)"
    using PrefetchAndGet_eq [OF assms(6,7), of L Extend] unfolding BlobFileIterator_Next_def by blast
  moreover have "push_moved c it' m = m\<lparr>mi_iterators := (mi_iterators m)[c := it']\<rparr>" if "it_status it' \<noteq> OK" for it'
    using that by (simp add: push_moved_def ok_def)
  ultimately show ?thesis
    using assms by (cases "mi_min_heap m") (auto simp: merge_Next_def merge_status_def Let_def nth_list_update)
qed

definition w_failing :: BlobFileMergeIterator where
  "w_failing = (new_BlobFileMergeIterator [(new_BlobFileIterator (\<lambda>_ _. Inl IOError) 5 100 w_blob_cf)
     \<lparr>it_init := True, it_valid := True, it_end_of_blob_record := 60, it_iterate_offset := 20\<rparr>] bytewise)\<lparr>mi_current := Some 0\<rparr>"

theorem merge_drops_error_witness:
  "\<exists>m. merge_Next zero_libs (\<lambda>a _. a) w_failing = Some m \<and> merge_status m = OK \<and> it_status (mi_iterators m ! 0) = IOError"
  using merge_drops_error [of w_failing 0 zero_libs "\<lambda>a _. a"]
  by (auto simp: w_failing_def new_BlobFileMergeIterator_def new_BlobFileIterator_def readahead_ok_def GetBlobRecord_def)

end
