(* ===== verification/Blob_GC.thy ===== *)
theory Blob_GC
  imports Storage_History
begin

text \<open>
  Garbage collections and their picker: \<^verbatim>\<open>BlobGC\<close> of \<^verbatim>\<open>blob_gc.h/.cc\<close> and \<^verbatim>\<open>BasicBlobGCPicker\<close> of
  \<^verbatim>\<open>blob_gc_picker.h/.cc\<close>. A collection names its files by their numbers; their metas stay in the
  storage. Dereferencing the null result of a lookup is \<^const>\<open>Undefined\<close>.
\<close>

section \<open>Collections\<close>

record BlobGC =
  gc_inputs :: "u64 list"
  gc_sampled_inputs :: "u64 list"
  gc_outputs :: "u64 list"
  gc_cf_options :: TitanCFOptions
  gc_cf_id :: "u32 option"
  gc_trigger_next :: bool

definition on_files :: "u64 list \<Rightarrow> (BlobFileMeta \<Rightarrow> BlobFileMeta) \<Rightarrow> BlobStorage \<Rightarrow> BlobStorage" where
  "on_files ns g s = fold (\<lambda>n. on_file n g) ns s"

definition MarkFilesBeingGC :: "BlobGC \<Rightarrow> BlobStorage \<Rightarrow> BlobStorage" where
  "MarkFilesBeingGC gc s = on_files (gc_inputs gc) (transit kGCBegin) s"

definition new_BlobGC :: "u64 list \<Rightarrow> TitanCFOptions \<Rightarrow> bool \<Rightarrow> BlobStorage \<Rightarrow> BlobGC \<times> BlobStorage" where
  "new_BlobGC blob_files opts need_trigger_next s =
     (let gc = \<lparr>gc_inputs = blob_files, gc_sampled_inputs = [], gc_outputs = [], gc_cf_options = opts,
                gc_cf_id = None, gc_trigger_next = need_trigger_next\<rparr>
      in (gc, MarkFilesBeingGC gc s))"

definition SetColumnFamily :: "u32 \<Rightarrow> BlobGC \<Rightarrow> BlobGC" where
  "SetColumnFamily cf gc = gc\<lparr>gc_cf_id := Some cf\<rparr>"

definition AddOutputFile :: "u64 \<Rightarrow> BlobGC \<Rightarrow> BlobGC" where
  "AddOutputFile n gc = gc\<lparr>gc_outputs := gc_outputs gc @ [n]\<rparr>"

definition ReleaseGcFiles :: "BlobGC \<Rightarrow> BlobStorage \<Rightarrow> BlobStorage" where
  "ReleaseGcFiles gc s =
     on_files (gc_outputs gc) (transit kGCCompleted)
       (on_files (gc_inputs gc) (\<lambda>f. transit kGCCompleted (f\<lparr>gc_mark := False\<rparr>)) s)"

section \<open>The picker\<close>

definition CheckBlobFile :: "BlobFileMeta option \<Rightarrow> bool" where
  "CheckBlobFile f = (case f of None \<Rightarrow> False | Some f \<Rightarrow> file_state f = kNormal)"

text \<open>
  The loop over the scores. \<open>cnt\<close> counts the scores seen, \<open>fs\<close> and \<open>batch_size\<close> are the files
  picked and their total size. The result says in addition whether more remains for a next
  collection. The division is undefined for a zero target size.
\<close>

fun pick_loop ::
  "TitanCFOptions \<Rightarrow> BlobStorage \<Rightarrow> GCScore list \<Rightarrow> nat \<Rightarrow> u64 list \<Rightarrow> u64 \<Rightarrow> bool \<Rightarrow> Status + u64 list \<times> u64 \<times> bool" where
  "pick_loop cf s [] cnt fs batch_size stop_picking = Inr (fs, batch_size, False)"
| "pick_loop cf s (sc # scs) cnt fs batch_size stop_picking =
     (case FindFile s (gcs_file_number sc) of
        None \<Rightarrow> Inl Undefined
      | Some f \<Rightarrow>
          if \<not> CheckBlobFile (Some f) \<or> (level_merge cf \<and> file_type f = kSorted)
          then pick_loop cf s scs (cnt + 1) fs batch_size stop_picking
          else if \<not> stop_picking
          then let batch_size = batch_size + file_size f
               in pick_loop cf s scs (cnt + 1) (fs @ [file_number f]) batch_size (batch_size \<ge> max_gc_batch_size cf)
          else if blob_file_target_size (cf_options s) = 0 then Inl Undefined
          else if word_of_nat (length (gc_score s) - (cnt + 1)) > (2 ^ 30) div blob_file_target_size (cf_options s)
          then Inr (fs, batch_size, True)
          else pick_loop cf s scs (cnt + 1) fs batch_size stop_picking)"

definition PickBlobGC :: "TitanCFOptions \<Rightarrow> BlobStorage \<Rightarrow> Status + BlobGC option \<times> BlobStorage" where
  "PickBlobGC cf s =
     (case pick_loop cf s (gc_score s) 0 [] 0 False of
        Inl e \<Rightarrow> Inl e
      | Inr (fs, batch_size, maybe_continue_next_time) \<Rightarrow>
          Inr (if fs = [] \<or> batch_size < min_gc_batch_size cf then (None, s)
               else if length fs = 1 \<and>
                 (case FindFile s (hd fs) of
                    None \<Rightarrow> False
                  | Some f \<Rightarrow> file_size f \<le> merge_small_file_threshold cf \<and> gc_mark f = False)
               then (None, s)
               else let (gc, s) = new_BlobGC fs cf maybe_continue_next_time s in (Some gc, s)))"

section \<open>Updating several files\<close>

definition benign_at :: "(BlobFileMeta \<Rightarrow> BlobFileMeta) \<Rightarrow> BlobFileMeta \<Rightarrow> bool" where
  "benign_at g f \<longleftrightarrow> file_number (g f) = file_number f \<and> file_size (g f) = file_size f \<and>
     file_type (g f) = file_type f \<and> file_level (g f) = file_level f \<and>
     smallest_key (g f) = smallest_key f \<and> largest_key (g f) = largest_key f \<and>
     is_obsolete (g f) = is_obsolete f"

text \<open>An update that is harmless at the one file it changes keeps the invariant.\<close>

lemma storage_inv_on_file_at:
  assumes inv: "storage_inv s" and g: "\<And>f. FindFile s n = Some f \<Longrightarrow> benign_at g f"
  shows "storage_inv (on_file n g s)"
proof -
  let ?g = "\<lambda>f. if FindFile s n = Some f then g f else f"
  have d: "distinct (keys (files s))" using inv by (simp add: storage_inv_def ids_ok_def)
  have "alter n g (files s) = alter n ?g (files s)"
    using d unfolding alter_def FindFile_def by (intro map_cong refl) (auto simp: map_of_eq_Some_iff)
  then have "on_file n g s = on_file n ?g s" by (simp add: on_file_def)
  moreover have "benign ?g" using g by (simp add: benign_def benign_at_def)
  ultimately show ?thesis using storage_inv_on_file [OF inv] by simp
qed

lemma FindFile_on_files:
  "distinct ns \<Longrightarrow> FindFile (on_files ns g s) m = (if m \<in> set ns then map_option g (FindFile s m) else FindFile s m)"
  unfolding on_files_def by (induction ns arbitrary: s) (auto simp: FindFile_on_file)

lemma on_files_fields [storage_simps, simp]:
  "cf_options (on_files ns g s) = cf_options s" "gc_score (on_files ns g s) = gc_score s"
  "obsolete_files (on_files ns g s) = obsolete_files s"
  unfolding on_files_def by (induction ns arbitrary: s) simp_all

lemma storage_inv_on_files:
  assumes "storage_inv s" "distinct ns" "\<And>n f. n \<in> set ns \<Longrightarrow> FindFile s n = Some f \<Longrightarrow> benign_at g f"
  shows "storage_inv (on_files ns g s)"
  using assms
proof (induction ns arbitrary: s)
  case (Cons n ns)
  have "storage_inv (on_file n g s)" using Cons.prems by (intro storage_inv_on_file_at) auto
  moreover have "FindFile (on_file n g s) m = FindFile s m" if "m \<in> set ns" for m
    using that Cons.prems(2) by (auto simp: FindFile_on_file)
  ultimately have "storage_inv (on_files ns g (on_file n g s))" using Cons.prems by (intro Cons.IH) auto
  then show ?case by (simp add: on_files_def)
qed (simp add: on_files_def)
section \<open>What is picked\<close>

definition total_size :: "BlobStorage \<Rightarrow> u64 list \<Rightarrow> u64" where
  "total_size s ns = sum_list (map (\<lambda>n. case FindFile s n of Some f \<Rightarrow> file_size f | None \<Rightarrow> 0) ns)"

definition eligible :: "TitanCFOptions \<Rightarrow> BlobStorage \<Rightarrow> u64 \<Rightarrow> bool" where
  "eligible cf s n \<longleftrightarrow> (\<exists>f. FindFile s n = Some f \<and> file_state f = kNormal \<and> \<not> (level_merge cf \<and> file_type f = kSorted))"

text \<open>What holds of the files picked so far, when the numbers \<open>ns\<close> are still to be seen.\<close>

definition picked_ok :: "TitanCFOptions \<Rightarrow> BlobStorage \<Rightarrow> u64 list \<Rightarrow> u64 \<Rightarrow> bool" where
  "picked_ok cf s fs b \<longleftrightarrow>
     b = total_size s fs \<and> (\<forall>n \<in> set fs. eligible cf s n) \<and>
     (length fs \<le> 1 \<or> total_size s (butlast fs) < max_gc_batch_size cf)"

lemma total_size_snoc: "FindFile s n = Some f \<Longrightarrow> total_size s (ns @ [n]) = total_size s ns + file_size f"
  by (simp add: total_size_def)

lemma picked_ok_snoc:
  assumes "picked_ok cf s fs b" "FindFile s n = Some f" "eligible cf s n" "fs = [] \<or> b < max_gc_batch_size cf"
  shows "picked_ok cf s (fs @ [n]) (b + file_size f)"
  using assms by (auto simp: picked_ok_def total_size_snoc Suc_le_eq)

text \<open>Once the batch is full, nothing more is picked.\<close>

lemma pick_loop_stopped: "pick_loop cf s scs cnt fs b True = Inr (fs', b', again) \<Longrightarrow> fs' = fs \<and> b' = b"
  by (induction scs arbitrary: cnt) (auto split: option.splits if_splits)

lemma pick_loop_picks:
  assumes "FindFile s (gcs_file_number sc) = Some f"
  shows "pick_loop cf s (sc # scs) cnt fs b False =
    (if eligible cf s (gcs_file_number sc)
     then pick_loop cf s scs (cnt + 1) (fs @ [file_number f]) (b + file_size f) (max_gc_batch_size cf \<le> b + file_size f)
     else pick_loop cf s scs (cnt + 1) fs b False)"
  using assms by (auto simp: eligible_def CheckBlobFile_def Let_def)

lemma pick_loop_spec:
  assumes "pick_loop cf s scs cnt fs b False = Inr (fs', b', again)" "ids_ok s"
    and "picked_ok cf s fs b" "fs = [] \<or> b < max_gc_batch_size cf"
    and "distinct (fs @ map gcs_file_number scs)"
  shows "picked_ok cf s fs' b' \<and> distinct fs' \<and> set fs' \<subseteq> set fs \<union> gcs_file_number ` set scs \<and> set fs \<subseteq> set fs' \<and>
    (max_gc_batch_size cf \<le> b' \<or> (\<forall>sc \<in> set scs. eligible cf s (gcs_file_number sc) \<longrightarrow> gcs_file_number sc \<in> set fs'))"
  using assms
proof (induction scs arbitrary: cnt fs b)
  case (Cons sc scs)
  let ?n = "gcs_file_number sc"
  obtain f where f: "FindFile s ?n = Some f" using Cons.prems(1) by (auto split: option.splits)
  have n: "file_number f = ?n" using FindFile_number [OF Cons.prems(2) f] .
  show ?case
  proof (cases "eligible cf s ?n")
    case False
    then have "pick_loop cf s scs (cnt + 1) fs b False = Inr (fs', b', again)"
      using Cons.prems(1) by (simp add: pick_loop_picks [OF f] del: pick_loop.simps)
    from Cons.IH [OF this Cons.prems(2-4)] Cons.prems(5) False show ?thesis by auto
  next
    case True
    let ?b = "b + file_size f"
    have l: "pick_loop cf s scs (cnt + 1) (fs @ [?n]) ?b (max_gc_batch_size cf \<le> ?b) = Inr (fs', b', again)"
      using Cons.prems(1) True by (simp add: pick_loop_picks [OF f] n del: pick_loop.simps)
    have p: "picked_ok cf s (fs @ [?n]) ?b"
      using Cons.prems(3,4) f True by (intro picked_ok_snoc)
    show ?thesis
    proof (cases "max_gc_batch_size cf \<le> ?b")
      case True
      then show ?thesis using l p Cons.prems(5) by (auto dest: pick_loop_stopped)
    next
      case False
      then have "pick_loop cf s scs (cnt + 1) (fs @ [?n]) ?b False = Inr (fs', b', again)" using l by simp
      from Cons.IH [OF this Cons.prems(2) p] False Cons.prems(5) show ?thesis by (auto simp: not_le)
    qed
  qed
qed simp

text \<open>The picker is defined when the scored files exist and the target size is not zero.\<close>

lemma pick_loop_defined:
  assumes "blob_file_target_size (cf_options s) \<noteq> 0" "\<forall>sc \<in> set scs. FindFile s (gcs_file_number sc) \<noteq> None"
  shows "\<exists>r. pick_loop cf s scs cnt fs b stop = Inr r"
  using assms(2) assms(1) by (induction scs arbitrary: cnt fs b stop) (auto simp: Let_def)

lemma benign_at_begin: "eligible cf s n \<Longrightarrow> FindFile s n = Some f \<Longrightarrow> benign_at (transit kGCBegin) f"
  by (auto simp: eligible_def benign_at_def is_obsolete_def)

lemma PickBlobGC_Some:
  assumes "PickBlobGC cf s = Inr (Some gc, s')"
  obtains b where "pick_loop cf s (gc_score s) 0 [] 0 False = Inr (gc_inputs gc, b, gc_trigger_next gc)"
    "gc_inputs gc \<noteq> []" "min_gc_batch_size cf \<le> b" "s' = on_files (gc_inputs gc) (transit kGCBegin) s"
    "gc_outputs gc = []" "gc_cf_options gc = cf"
    "length (gc_inputs gc) = 1 \<Longrightarrow> (\<forall>f. FindFile s (hd (gc_inputs gc)) = Some f \<longrightarrow>
       merge_small_file_threshold cf < file_size f \<or> gc_mark f)"
  using assms that
  by (fastforce simp: PickBlobGC_def new_BlobGC_def MarkFilesBeingGC_def Let_def not_less not_le
      split: sum.splits if_splits option.splits)
lemma PickBlobGC_picked:
  assumes inv: "storage_inv s" and scores: "distinct (map gcs_file_number (gc_score s))"
    and pick: "PickBlobGC cf s = Inr (Some gc, s')"
  obtains b where "picked_ok cf s (gc_inputs gc) b" "min_gc_batch_size cf \<le> b" "distinct (gc_inputs gc)" "gc_inputs gc \<noteq> []"
    "set (gc_inputs gc) \<subseteq> gcs_file_number ` set (gc_score s)" "s' = on_files (gc_inputs gc) (transit kGCBegin) s"
    "max_gc_batch_size cf \<le> b \<or>
       (\<forall>sc \<in> set (gc_score s). eligible cf s (gcs_file_number sc) \<longrightarrow> gcs_file_number sc \<in> set (gc_inputs gc))"
proof -
  have i: "ids_ok s" using inv by (simp add: storage_inv_def)
  obtain b where b: "pick_loop cf s (gc_score s) 0 [] 0 False = Inr (gc_inputs gc, b, gc_trigger_next gc)"
    "gc_inputs gc \<noteq> []" "min_gc_batch_size cf \<le> b" "s' = on_files (gc_inputs gc) (transit kGCBegin) s"
    by (rule PickBlobGC_Some [OF pick])
  have "picked_ok cf s [] 0" by (simp add: picked_ok_def total_size_def)
  from pick_loop_spec [OF b(1) i this] scores show thesis by (intro that [of b] b) simp_all
qed

lemma picked_storage_inv:
  assumes "picked_ok cf s ns b" "distinct ns" "storage_inv s"
  shows "storage_inv (on_files ns (transit kGCBegin) s)"
proof -
  have "\<forall>n \<in> set ns. eligible cf s n" using assms(1) by (simp add: picked_ok_def)
  then show ?thesis using assms(2,3) by (intro storage_inv_on_files) (blast intro: benign_at_begin)+
qed

lemma PickBlobGC_disjoint:
  assumes inv: "storage_inv s'" and scores: "distinct (map gcs_file_number (gc_score s'))"
    and ns: "distinct ns" "s' = on_files ns (transit kGCBegin) s"
    and pick: "PickBlobGC cf s' = Inr (Some gc, s'')"
  shows "set (gc_inputs gc) \<inter> set ns = {}"
proof -
  obtain b where "picked_ok cf s' (gc_inputs gc) b" by (rule PickBlobGC_picked [OF inv scores pick])
  then have "\<forall>n \<in> set (gc_inputs gc). eligible cf s' n" by (simp add: picked_ok_def)
  moreover have "\<not> eligible cf s' n" if "n \<in> set ns" for n
    using FindFile_on_files [OF ns(1), of _ s n] that ns(2) by (auto simp: eligible_def)
  ultimately show ?thesis by blast
qed

section \<open>Properties\<close>


definition w_pick_cf :: TitanCFOptions where
  "w_pick_cf = w_cf\<lparr>min_gc_batch_size := 500, merge_small_file_threshold := 10\<rparr>"

definition w_gc_storage :: BlobStorage where
  "w_gc_storage = fst (ComputeGCScore (on_file 6 (transit kFlushCompleted) w_storage))"

lemma w_gc_storage_inv: "storage_inv w_gc_storage" "distinct (map gcs_file_number (gc_score w_gc_storage))"
proof -
  have "storage_inv (on_file 6 (transit kFlushCompleted) w_storage)"
    by (rule storage_inv_on_file_at [OF w_storage_inv]) (auto simp: w_find benign_at_def is_obsolete_def w_file_def)
  then show "storage_inv w_gc_storage" "distinct (map gcs_file_number (gc_score w_gc_storage))"
    using gc_score_distinct [of "on_file 6 (transit kFlushCompleted) w_storage"] storage_inv_ComputeGCScore
    by (simp_all add: w_gc_storage_def) (simp add: storage_inv_def)
qed




end
