(* ===== verification/Gc_Job.thy ===== *)
theory Gc_Job
  imports Foreground_Builder Blob_Iterator Blob_GC
begin

text \<open>
  \<^verbatim>\<open>BlobGCJob\<close> (\<^verbatim>\<open>blob_gc_job.h/.cc\<close>): reading the input files of a garbage collection, rewriting the values that
  are still referenced, installing the new files, updating the LSM tree and retiring the inputs;
  and the part of \<^verbatim>\<open>BackgroundGC\<close> (\<^verbatim>\<open>db_impl_gc.cc\<close>) that picks and runs a collection.

  The state of the LSM tree is passed through \<open>lsm_ops\<close>; the job runs without the mutex, so what other
  threads write goes between \<open>Run\<close> and \<open>Finish\<close>. The flags that the code polls are functions of the number
  of polls before. The counters in \<^verbatim>\<open>metrics_\<close> only feed statistics and are left out.
\<close>

record gc_env =
  ge_write :: write_env
  ge_open_building :: "u64 \<Rightarrow> Status"
  ge_hash :: "bytes \<Rightarrow> u64"
  ge_file :: "u64 \<Rightarrow> Status + random_file"
  ge_shutting_down :: "nat \<Rightarrow> bool"
  ge_dropped :: "nat \<Rightarrow> bool"

abbreviation ge_libs :: "gc_env \<Rightarrow> compression_libs" where "ge_libs env \<equiv> env_libs (we_read (ge_write env))"
abbreviation ge_crc :: "gc_env \<Rightarrow> checksum" where "ge_crc env \<equiv> env_crc (we_read (ge_write env))"

text \<open>A batch with the key to check, the index it had and the new entry.\<close>

record GarbageCollectionWriteCallback =
  cb_key :: bytes
  cb_blob_index :: BlobIndex
  cb_value :: bytes

record BlobGCJob =
  gj_blob_gc :: BlobGC
  gj_db_options :: TitanDBOptions
  gj_cf_id :: u32
  gj_blob_file_builders :: "(BlobFileHandle option \<times> BlobFileBuilder option) list"
  gj_rewrite_batches :: "(WriteBatch \<times> GarbageCollectionWriteCallback) list"
  gj_builder :: ForegroundBuilder
  gj_polls :: nat

definition new_BlobGCJob :: "BlobGC \<Rightarrow> TitanDBOptions \<Rightarrow> u32 \<Rightarrow> ForegroundBuilder \<Rightarrow> BlobGCJob" where
  "new_BlobGCJob gc db_opts cf fb =
     \<lparr>gj_blob_gc = gc, gj_db_options = db_opts, gj_cf_id = cf, gj_blob_file_builders = [], gj_rewrite_batches = [], gj_builder = fb, gj_polls = 0\<rparr>"

text \<open>The check that a key still has the index it had; the job does not use it.\<close>

definition Callback :: "'l lsm_ops \<Rightarrow> u32 \<Rightarrow> GarbageCollectionWriteCallback \<Rightarrow> 'l \<Rightarrow> Status" where
  "Callback ops cf cb lsm =
     (case lsm_Get ops cf (cb_key cb) lsm of
        Inl s \<Rightarrow> if s = NotFound then Busy else s
      | Inr (entry, is_blob_index) \<Rightarrow>
          if \<not> is_blob_index then Busy
          else
            (case BlobIndex_DecodeFrom entry of
               Inl s \<Rightarrow> s
             | Inr (other, _) \<Rightarrow> if cb_blob_index cb = other then OK else Busy))"

section \<open>Reading the inputs\<close>

definition SampleCandidateFiles :: "BlobGCJob \<Rightarrow> Status \<times> BlobGCJob" where
  "SampleCandidateFiles job =
     (OK, job\<lparr>gj_blob_gc := (gj_blob_gc job)\<lparr>gc_sampled_inputs := gc_inputs (gj_blob_gc job)\<rparr>\<rparr>)"

fun build_list ::
  "gc_env \<Rightarrow> TitanCFOptions \<Rightarrow> (u64 \<times> u64) list \<Rightarrow> BlobFileIterator list \<Rightarrow> Status + BlobFileIterator list" where
  "build_list env opts [] its = Inr its"
| "build_list env opts ((n, sz) # fs) its =
     (case ge_file env n of
        Inl s \<Rightarrow> Inl s
      | Inr f \<Rightarrow> build_list env opts fs (its @ [new_BlobFileIterator f n sz opts]))"

definition BuildIterator :: "gc_env \<Rightarrow> BlobStorage option \<Rightarrow> BlobGCJob \<Rightarrow> Status + BlobFileMergeIterator" where
  "BuildIterator env storage job =
     (let gc = gj_blob_gc job; opts = gc_cf_options gc;
          fs = map (\<lambda>n. (n, case Option.bind storage (\<lambda>st. FindFile st n) of Some f \<Rightarrow> file_size f | None \<Rightarrow> 0)) (gc_sampled_inputs gc)
      in map_sum id (\<lambda>its. new_BlobFileMergeIterator its (comparator opts)) (build_list env opts fs []))"

definition DiscardEntry :: "'l lsm_ops \<Rightarrow> u32 \<Rightarrow> bytes \<Rightarrow> BlobIndex \<Rightarrow> 'l \<Rightarrow> Status + bool" where
  "DiscardEntry ops cf key blob_index lsm =
     (case lsm_Get ops cf key lsm of
        Inl s \<Rightarrow> if s = NotFound then Inr True else Inl s
      | Inr (entry, is_blob_index) \<Rightarrow>
          if \<not> is_blob_index then Inr True
          else
            (case BlobIndex_DecodeFrom entry of
               Inl s \<Rightarrow> Inl s
             | Inr (other, _) \<Rightarrow> Inr (blob_index \<noteq> other)))"

section \<open>Rewriting the records\<close>

record 'l gc_locals =
  gr_job :: BlobGCJob
  gr_handle :: "BlobFileHandle option"
  gr_builder :: "BlobFileBuilder option"
  gr_file_size :: u64
  gr_lsm :: 'l
  gr_db :: TitanDB

text \<open>Through the foreground builder; a record that it does not take is passed over.\<close>

definition rewrite_foreground :: "gc_env \<Rightarrow> 'l lsm_ops \<Rightarrow> bytes \<Rightarrow> bytes \<Rightarrow> 'l gc_locals \<Rightarrow> (Status \<times> 'l gc_locals) option" where
  "rewrite_foreground env ops key val r =
     do { (add_status, wb, fb, db) \<leftarrow> ForegroundBuilder_Add (ge_write env) (ge_open_building env) (ge_hash env) key val []
                                         (gj_builder (gr_job r)) (gr_db r);
          let r = r\<lparr>gr_job := (gr_job r)\<lparr>gj_builder := fb\<rparr>, gr_db := db\<rparr>;
          Some (if ok add_status then let (s, lsm) = lsm_Write ops wb (gr_lsm r) in (s, r\<lparr>gr_lsm := lsm\<rparr>) else (OK, r)) }"

text \<open>The output file for the next record. A full file is put aside; null pointers are too, with a target size of zero.\<close>

definition next_output :: "gc_env \<Rightarrow> 'l gc_locals \<Rightarrow> Status \<times> 'l gc_locals" where
  "next_output env r =
     (let opts = gc_cf_options (gj_blob_gc (gr_job r)); full = (gr_file_size r \<ge> blob_file_target_size opts)
      in if gr_handle r = None \<and> gr_builder r = None \<or> full then
           let job = gr_job r;
               r = (if full then r\<lparr>gr_job := job\<lparr>gj_blob_file_builders := gj_blob_file_builders job @ [(gr_handle r, gr_builder r)]\<rparr>,
                                   gr_handle := None, gr_builder := None\<rparr> else r)
           in (case NewFile (we_io (ge_write env)) (gr_db r) of
                 (Inl s, db) \<Rightarrow> (s, r\<lparr>gr_db := db\<rparr>)
               | (Inr h, db) \<Rightarrow>
                   (OK, r\<lparr>gr_handle := Some h, gr_builder := Some (new_BlobFileBuilder (we_append (ge_write env)) opts),
                          gr_file_size := 0, gr_db := db\<rparr>))
         else (OK, r))"

definition rewrite_record :: "gc_env \<Rightarrow> BlobIndex \<Rightarrow> bytes \<Rightarrow> bytes \<Rightarrow> 'l gc_locals \<Rightarrow> Status \<times> 'l gc_locals" where
  "rewrite_record env blob_index key val r =
     (let (s, r) = next_output env r
      in if \<not> ok s then (s, r)
         else
           (case (gr_handle r, gr_builder r) of
              (Some h, Some b) \<Rightarrow>
                (let job = gr_job r; rec = \<lparr>rec_key = key, rec_value = val, only_value = False\<rparr>;
                     (bh, b) = BlobFileBuilder_Add (ge_libs env) (ge_crc env) (we_append (ge_write env)) rec
                                 \<lparr>bh_offset = 0, bh_size = 0\<rparr> b;
                     index_entry = BlobIndex_EncodeTo \<lparr>bi_file_number = hd_number h, blob_handle = bh\<rparr> [];
                     cb = \<lparr>cb_key = key, cb_blob_index = blob_index, cb_value = index_entry\<rparr>;
                     (s, wb) = PutBlobIndex (gj_cf_id job) key index_entry []
                 in (s, r\<lparr>gr_builder := Some b, gr_file_size := gr_file_size r + word_of_nat (BlobRecord_size rec),
                          gr_job := job\<lparr>gj_rewrite_batches := gj_rewrite_batches job @ [(wb, cb)]\<rparr>\<rparr>))
            | _ \<Rightarrow> (Undefined, r)))"

text \<open>One record of the inputs; the flag says that the loop is left.\<close>

definition gc_entry ::
  "gc_env \<Rightarrow> 'l lsm_ops \<Rightarrow> BlobIndex \<Rightarrow> bytes \<Rightarrow> bytes \<Rightarrow> 'l gc_locals \<Rightarrow> (bool \<times> Status \<times> 'l gc_locals) option" where
  "gc_entry env ops blob_index key val r =
     (let job = gr_job r in
      case DiscardEntry ops (gj_cf_id job) key blob_index (gr_lsm r) of
        Inl s \<Rightarrow> Some (True, s, r)
      | Inr True \<Rightarrow> Some (False, OK, r)
      | Inr False \<Rightarrow>
          if sep_before_flush (gj_db_options job) \<and> \<not> level_merge (gc_cf_options (gj_blob_gc job))
          then do { (s, r) \<leftarrow> rewrite_foreground env ops key val r; Some (False, s, r) }
          else let (s, r) = rewrite_record env blob_index key val r in Some (\<not> ok s, s, r))"

partial_function (option) gc_loop ::
  "gc_env \<Rightarrow> 'l lsm_ops \<Rightarrow> BlobFileMergeIterator \<Rightarrow> Status \<Rightarrow> 'l gc_locals \<Rightarrow> (Status \<times> BlobFileMergeIterator \<times> 'l gc_locals) option" where
  "gc_loop env ops m s r =
     (if merge_Valid m then
        (let job = gr_job r; stop = ge_shutting_down env (gj_polls job); r = r\<lparr>gr_job := job\<lparr>gj_polls := gj_polls job + 1\<rparr>\<rparr>
         in if stop then Some (ShutdownInProgress, m, r)
            else Option.bind (gc_entry env ops (merge_GetBlobIndex m) (merge_key m) (merge_value m) r)
                   (\<lambda>x. if fst x then Some (fst (snd x), m, snd (snd x))
                        else Option.bind (merge_Next (ge_libs env) (ge_crc env) m) (\<lambda>m. gc_loop env ops m (fst (snd x)) (snd (snd x)))))
      else Some (s, m, r))"

definition DoRunGC :: "gc_env \<Rightarrow> 'l lsm_ops \<Rightarrow> BlobGCJob \<Rightarrow> 'l \<Rightarrow> TitanDB \<Rightarrow> (Status \<times> BlobGCJob \<times> 'l \<times> TitanDB) option" where
  "DoRunGC env ops job lsm db =
     (case BuildIterator env (the_storage (gj_cf_id job) db) job of
        Inl s \<Rightarrow> Some (s, job, lsm, db)
      | Inr m \<Rightarrow>
          do { m \<leftarrow> merge_SeekToFirst (ge_libs env) (ge_crc env) m;
               (s, m, r) \<leftarrow> gc_loop env ops m OK
                 \<lparr>gr_job = job, gr_handle = None, gr_builder = None, gr_file_size = 0, gr_lsm = lsm, gr_db = db\<rparr>;
               let job = gr_job r;
               Some (if ok (merge_status m) \<and> ok s then
                       (s, if gr_builder r \<noteq> None \<and> gr_handle r \<noteq> None
                           then job\<lparr>gj_blob_file_builders := gj_blob_file_builders job @ [(gr_handle r, gr_builder r)]\<rparr> else job,
                        gr_lsm r, gr_db r)
                     else if \<not> ok (merge_status m) then (merge_status m, job, gr_lsm r, gr_db r)
                     else (s, job, gr_lsm r, gr_db r)) })"

definition BlobGCJob_Run :: "gc_env \<Rightarrow> 'l lsm_ops \<Rightarrow> BlobGCJob \<Rightarrow> 'l \<Rightarrow> TitanDB \<Rightarrow> (Status \<times> BlobGCJob \<times> 'l \<times> TitanDB) option" where
  "BlobGCJob_Run env ops job lsm db =
     (let (s, job) = SampleCandidateFiles job
      in if \<not> ok s then Some (s, job, lsm, db)
         else if gc_sampled_inputs (gj_blob_gc job) = [] then Some (OK, job, lsm, db)
         else DoRunGC env ops job lsm db)"

section \<open>Installing the outcome\<close>

fun finish_builders ::
  "write_env \<Rightarrow> (BlobFileHandle option \<times> BlobFileBuilder option) list \<Rightarrow> Status \<times> (BlobFileHandle option \<times> BlobFileBuilder option) list" where
  "finish_builders env [] = (OK, [])"
| "finish_builders env ((h, b) # bs) =
     (case b of
        None \<Rightarrow> (Undefined, (h, b) # bs)
      | Some b \<Rightarrow>
          (let (s, b) = BlobFileBuilder_Finish (env_crc (we_read env)) (we_append env) (we_flush env) b
           in if \<not> ok s then (s, (h, Some b) # bs)
              else let (s, bs) = finish_builders env bs in (s, (h, Some b) # bs)))"

definition output_file :: "BlobGCJob \<Rightarrow> BlobFileHandle \<Rightarrow> BlobFileBuilder \<Rightarrow> BlobFileMeta \<times> BlobFileHandle" where
  "output_file job h b =
     (transit kGCOutput
        (new_BlobFileMeta\<lparr>file_number := hd_number h, file_size := word_of_nat (length (bb_file b)), file_entries := 0, file_level := 0,
           smallest_key := bb_smallest_key b, largest_key := bb_largest_key b,
           file_type := (if sep_before_flush (gj_db_options job) then kUnSorted else kSorted)\<rparr>),
      h\<lparr>hd_file := bb_file b\<rparr>)"

definition InstallOutputBlobFiles :: "gc_env \<Rightarrow> BlobGCJob \<Rightarrow> TitanDB \<Rightarrow> Status \<times> BlobGCJob \<times> TitanDB" where
  "InstallOutputBlobFiles env job db =
     (let (s, bs) = finish_builders (ge_write env) (gj_blob_file_builders job);
          job = job\<lparr>gj_blob_file_builders := bs\<rparr>
      in if s = Undefined \<or> list_ex (\<lambda>hb. fst hb = None) bs then (Undefined, job, db)
         else if ok s then
           let files = map (\<lambda>(h, b). output_file job (the h) (the b)) bs;
               (s, db) = BatchFinishFiles (we_io (ge_write env)) (gj_cf_id job) files db;
               gc = gj_blob_gc job;
               gc = (if ok s then fold (AddOutputFile \<circ> file_number \<circ> fst) files gc else gc)
           in (s, job\<lparr>gj_blob_gc := gc\<rparr>, db)
         else
           let (s, db) = BatchDeleteFiles (we_io (ge_write env)) (map (the \<circ> fst) bs) db in (s, job, db))"

fun rewrite_loop ::
  "gc_env \<Rightarrow> 'l lsm_ops \<Rightarrow> nat \<Rightarrow> Status \<Rightarrow> (WriteBatch \<times> GarbageCollectionWriteCallback) list \<Rightarrow> 'l \<Rightarrow> Status \<times> nat \<times> 'l" where
  "rewrite_loop env ops n s [] lsm = (s, n, lsm)"
| "rewrite_loop env ops n s (b # bs) lsm =
     (if ge_dropped env n then (Aborted, n + 1, lsm)
      else if ge_shutting_down env n then (ShutdownInProgress, n + 1, lsm)
      else
        let (s, lsm) = lsm_Write ops (fst b) lsm
        in if ok s \<or> s = Busy then rewrite_loop env ops (n + 1) s bs lsm else (s, n + 1, lsm))"

definition RewriteValidKeyToLSM :: "gc_env \<Rightarrow> 'l lsm_ops \<Rightarrow> BlobGCJob \<Rightarrow> 'l \<Rightarrow> Status \<times> BlobGCJob \<times> 'l" where
  "RewriteValidKeyToLSM env ops job lsm =
     (let (s, n, lsm) = rewrite_loop env ops (gj_polls job) OK (gj_rewrite_batches job) lsm
      in (if s = Busy then OK else s, job\<lparr>gj_polls := n\<rparr>, lsm))"

definition DeleteInputBlobFiles :: "gc_env \<Rightarrow> 'l lsm_ops \<Rightarrow> BlobGCJob \<Rightarrow> 'l \<Rightarrow> TitanDB \<Rightarrow> Status \<times> TitanDB" where
  "DeleteInputBlobFiles env ops job lsm db =
     (let edit = fold (\<lambda>n. DeleteBlobFile n (lsm_sequence ops lsm)) (gc_sampled_inputs (gj_blob_gc job))
                   (SetColumnFamilyID (gj_cf_id job) new_VersionEdit);
          (s, fs) = LogAndApply (io_log_add (we_io (ge_write env))) (io_log_sync (we_io (ge_write env))) edit (blob_file_set db)
      in (s, db\<lparr>blob_file_set := fs\<rparr>))"

definition BlobGCJob_Finish :: "gc_env \<Rightarrow> 'l lsm_ops \<Rightarrow> BlobGCJob \<Rightarrow> 'l \<Rightarrow> TitanDB \<Rightarrow> Status \<times> BlobGCJob \<times> 'l \<times> TitanDB" where
  "BlobGCJob_Finish env ops job lsm db =
     (let (s, job, lsm, db) =
            (if sep_before_flush (gj_db_options job) \<and> \<not> level_merge (fb_cf_options (gj_builder job)) then (OK, job, lsm, db)
             else
               let (s, job, db) = InstallOutputBlobFiles env job db
               in if ok s then let (s, job, lsm) = RewriteValidKeyToLSM env ops job lsm in (s, job, lsm, db)
                  else (s, job, lsm, db));
          (s, db) = (if ok s \<and> \<not> ge_dropped env (gj_polls job) then DeleteInputBlobFiles env ops job lsm db else (s, db))
      in (s, job, lsm, db))"

section \<open>A collection\<close>

text \<open>
  \<open>others\<close> is what other threads do while the job runs without the mutex. A family that is gone, or a
  collection with nothing to do, changes nothing.
\<close>

definition BackgroundGC ::
  "gc_env \<Rightarrow> 'l lsm_ops \<Rightarrow> ('l \<times> TitanDB \<Rightarrow> 'l \<times> TitanDB) \<Rightarrow> TitanDBOptions \<Rightarrow> ForegroundBuilder \<Rightarrow> u32 \<Rightarrow> 'l \<Rightarrow> TitanDB
     \<Rightarrow> (Status \<times> ForegroundBuilder \<times> 'l \<times> TitanDB) option" where
  "BackgroundGC env ops others db_opts fb cf lsm db =
     (case (if IsColumnFamilyObsolete (blob_file_set db) cf then None else the_storage cf db) of
        None \<Rightarrow> Some (OK, fb, lsm, db)
      | Some storage \<Rightarrow>
          (case PickBlobGC (cf_options storage) storage of
             Inl s \<Rightarrow> None
           | Inr (None, storage) \<Rightarrow> Some (OK, fb, lsm, db)
           | Inr (Some gc, storage) \<Rightarrow>
               do { (s, job, lsm, db) \<leftarrow> BlobGCJob_Run env ops (new_BlobGCJob (SetColumnFamily cf gc) db_opts cf fb) lsm
                                          (put_storage cf storage db);
                    let (lsm, db) = others (lsm, db);
                    let (s, job, lsm, db) = (if ok s then BlobGCJob_Finish env ops job lsm db else (s, job, lsm, db));
                    let db = (case the_storage cf db of
                                None \<Rightarrow> db
                              | Some storage \<Rightarrow> put_storage cf (ReleaseGcFiles (gj_blob_gc job) storage) db);
                    let db = (if ok s then db else snd (SetBGError (we_io (ge_write env)) s db));
                    Some (s, gj_builder job, lsm, db) }))"

end
