(* ===== verification/Gc_Values.thy ===== *)
theory Gc_Values
  imports Gc_Job Value_Separation
begin

text \<open>
  What a garbage collection does to the values: the records that are still referenced move to the
  new files, the LSM tree refers to them there, and nothing refers to the inputs any more.
\<close>

section \<open>The output files\<close>

definition gc_built :: "gc_env \<Rightarrow> TitanCFOptions \<Rightarrow> BlobRecord list \<Rightarrow> BlobHandle list \<Rightarrow> BlobFileBuilder \<Rightarrow> bool" where
  "gc_built env opts rs hs b \<longleftrightarrow>
     add_records (ge_libs env) (ge_crc env) (we_append (ge_write env)) rs (new_BlobFileBuilder (we_append (ge_write env)) opts) = (hs, b) \<and>
     (\<forall>r \<in> set rs. record_ok r \<and> \<not> only_value r)"

definition output_as ::
  "gc_env \<Rightarrow> TitanCFOptions \<Rightarrow> BlobFileHandle option \<times> BlobFileBuilder option \<Rightarrow> u64 \<times> BlobRecord list \<times> BlobHandle list \<Rightarrow> bool" where
  "output_as env opts hb d \<longleftrightarrow>
     (\<exists>h b. hb = (Some h, Some b) \<and> hd_number h = fst d \<and> gc_built env opts (fst (snd d)) (snd (snd d)) b)"

abbreviation job_options :: "'l gc_locals \<Rightarrow> TitanCFOptions" where
  "job_options r \<equiv> gc_cf_options (gj_blob_gc (gr_job r))"

text \<open>The files put aside and the current one.\<close>

definition outputs :: "'l gc_locals \<Rightarrow> (BlobFileHandle option \<times> BlobFileBuilder option) list" where
  "outputs r = gj_blob_file_builders (gr_job r) @ (case gr_handle r of None \<Rightarrow> [] | Some h \<Rightarrow> [(Some h, gr_builder r)])"

definition gc_files :: "gc_env \<Rightarrow> 'l gc_locals \<Rightarrow> written \<Rightarrow> bool" where
  "gc_files env r R \<longleftrightarrow>
     list_all2 (output_as env (job_options r)) (outputs r) R \<and> (gr_handle r = None \<longleftrightarrow> gr_builder r = None) \<and>
     (gr_handle r = None \<longrightarrow> gr_file_size r = 0)"

definition gc_frame :: "'l gc_locals \<Rightarrow> 'l gc_locals \<Rightarrow> bool" where
  "gc_frame r r' \<longleftrightarrow>
     gr_lsm r' = gr_lsm r \<and> (\<forall>k. the_storage k (gr_db r') = the_storage k (gr_db r)) \<and>
     gj_blob_gc (gr_job r') = gj_blob_gc (gr_job r) \<and> gj_db_options (gr_job r') = gj_db_options (gr_job r) \<and>
     gj_cf_id (gr_job r') = gj_cf_id (gr_job r) \<and> gj_builder (gr_job r') = gj_builder (gr_job r)"

lemma gc_frame_refl [simp]: "gc_frame r r"
  by (simp add: gc_frame_def)

lemma gc_frame_trans: "gc_frame a b \<Longrightarrow> gc_frame b c \<Longrightarrow> gc_frame a c"
  by (simp add: gc_frame_def)

definition extends :: "written \<Rightarrow> written \<Rightarrow> bool" where
  "extends R R' \<longleftrightarrow> (\<forall>idx r. points_into R idx r \<longrightarrow> points_into R' idx r)"

lemma extends_refl [simp]: "extends R R"
  by (simp add: extends_def)

lemma extends_trans: "extends A B \<Longrightarrow> extends B C \<Longrightarrow> extends A C"
  by (simp add: extends_def)

lemma next_output_spec:
  assumes "gc_files env r R" "0 < blob_file_target_size (job_options r)" "next_output env r = (OK, r')"
  shows "\<exists>R'. gc_files env r' R' \<and> extends R R' \<and> gc_frame r r' \<and> gr_handle r' \<noteq> None \<and>
    gj_rewrite_batches (gr_job r') = gj_rewrite_batches (gr_job r)"
proof (cases "gr_handle r = None \<and> gr_builder r = None \<or> gr_file_size r \<ge> blob_file_target_size (job_options r)")
  case False
  then show ?thesis using assms by (intro exI [of _ R]) (auto simp: next_output_def gc_files_def)
next
  case True
  let ?full = "gr_file_size r \<ge> blob_file_target_size (job_options r)" and ?job = "gr_job r"
  let ?r = "if ?full then r\<lparr>gr_job := ?job\<lparr>gj_blob_file_builders := gj_blob_file_builders ?job @ [(gr_handle r, gr_builder r)]\<rparr>,
      gr_handle := None, gr_builder := None\<rparr> else r"
  have some: "\<exists>h. gr_handle r = Some h" if ?full using assms(1,2) that by (auto simp: gc_files_def)
  obtain h db where n: "NewFile (we_io (ge_write env)) (gr_db ?r) = (Inr h, db)"
    and r': "r' = ?r\<lparr>gr_handle := Some h, gr_builder := Some (new_BlobFileBuilder (we_append (ge_write env)) (job_options r)), gr_file_size := 0, gr_db := db\<rparr>"
    using True assms(3) by (auto simp: next_output_def NewFile_def Let_def split: prod.splits sum.splits if_splits)
  have old: "gj_blob_file_builders (gr_job ?r) = outputs r"
    using some True assms(1) by (cases ?full) (auto simp: outputs_def gc_files_def)
  let ?new = "(Some h, Some (new_BlobFileBuilder (we_append (ge_write env)) (job_options r)))"
  have "outputs r' = gj_blob_file_builders (gr_job ?r) @ [?new]" by (simp add: r' outputs_def)
  moreover have "output_as env (job_options r) ?new (hd_number h, [], [])" by (simp add: output_as_def gc_built_def)
  ultimately have "gc_files env r' (R @ [(hd_number h, [], [])])"
    using assms(1) unfolding old by (auto simp: gc_files_def r' intro: list_all2_appendI)
  moreover have "extends R (R @ [(hd_number h, [], [])])" by (auto simp: extends_def points_into_def)
  moreover have "gc_frame r r'" using the_storage_NewFile [OF n] by (simp add: gc_frame_def r')
  ultimately show ?thesis by (intro exI [of _ "R @ [(hd_number h, [], [])]"]) (simp add: r')
qed

lemma rewrite_record_spec:
  assumes files: "gc_files env r R" "0 < blob_file_target_size (job_options r)"
    and rec: "record_ok \<lparr>rec_key = key, rec_value = val, only_value = False\<rparr>" and w: "rewrite_record env idx key val r = (OK, r')"
  shows "\<exists>R' idx' q. gc_files env r' R' \<and> extends R R' \<and> gc_frame r r' \<and> points_into R' idx' q \<and> rec_value q = val \<and>
    gj_rewrite_batches (gr_job r') = gj_rewrite_batches (gr_job r) @
      [([(gj_cf_id (gr_job r), key, BlobIndex_EncodeTo idx' [])], \<lparr>cb_key = key, cb_blob_index = idx, cb_value = BlobIndex_EncodeTo idx' []\<rparr>)]"
proof -
  let ?rec = "\<lparr>rec_key = key, rec_value = val, only_value = False\<rparr>"
  obtain r1 where n: "next_output env r = (OK, r1)"
    using w by (cases "next_output env r") (auto simp: rewrite_record_def ok_def split: if_splits)
  obtain R1 where R1: "gc_files env r1 R1" "extends R R1" "gc_frame r r1" "gr_handle r1 \<noteq> None" "gj_rewrite_batches (gr_job r1) = gj_rewrite_batches (gr_job r)"
    using next_output_spec [OF files n] by blast
  then obtain h b where hb: "gr_handle r1 = Some h" "gr_builder r1 = Some b" by (auto simp: gc_files_def)
  obtain R0 rs hs where R0: "R1 = R0 @ [(hd_number h, rs, hs)]" "gc_built env (job_options r1) rs hs b"
    "list_all2 (output_as env (job_options r1)) (gj_blob_file_builders (gr_job r1)) R0"
    using R1(1) hb by (auto simp: gc_files_def outputs_def output_as_def list_all2_append1 list_all2_Cons1)
  obtain bh b' where a: "BlobFileBuilder_Add (ge_libs env) (ge_crc env) (we_append (ge_write env)) ?rec \<lparr>bh_offset = 0, bh_size = 0\<rparr> b = (bh, b')" by fastforce
  let ?idx = "\<lparr>bi_file_number = hd_number h, blob_handle = bh\<rparr>" and ?R = "R0 @ [(hd_number h, rs @ [?rec], hs @ [bh])]"
  have built: "gc_built env (job_options r1) (rs @ [?rec]) (hs @ [bh]) b'"
    using R0(2) rec add_records_snoc [of "ge_libs env" "ge_crc env" "we_append (ge_write env)" rs _ hs b ?rec] a by (auto simp: gc_built_def)
  have len: "length hs = length rs" using R0(2) length_add_records by (auto simp: gc_built_def)
  have r': "r' = r1\<lparr>gr_builder := Some b', gr_file_size := gr_file_size r1 + word_of_nat (BlobRecord_size ?rec),
      gr_job := (gr_job r1)\<lparr>gj_rewrite_batches := gj_rewrite_batches (gr_job r1) @ [([(gj_cf_id (gr_job r1), key, BlobIndex_EncodeTo ?idx [])],
        \<lparr>cb_key = key, cb_blob_index = idx, cb_value = BlobIndex_EncodeTo ?idx []\<rparr>)]\<rparr>\<rparr>"
    using w n hb a by (auto simp: rewrite_record_def PutBlobIndex_def Let_def)
  have "gc_files env r' ?R"
    using R0(3) built hb by (simp add: gc_files_def r' outputs_def output_as_def list_all2_appendI)
  moreover have "extends R1 ?R" unfolding R0(1) extends_def points_into_def using len by (fastforce simp: nth_append)
  then have "extends R ?R" using R1(2) extends_trans by blast
  moreover have "points_into ?R ?idx ?rec" unfolding points_into_def
    by (intro exI [of _ "rs @ [?rec]"] exI [of _ "hs @ [bh]"] exI [of _ "length rs"]) (simp add: nth_append len)
  moreover have "gc_frame r r'" using R1(3) by (simp add: gc_frame_def r')
  ultimately show ?thesis using R1(3,5)
    by (intro exI [of _ ?R] exI [of _ ?idx] exI [of _ ?rec]) (simp add: r' gc_frame_def)
qed
section \<open>The loop over the inputs\<close>

text \<open>What the LSM tree of RocksDB promises: a batch is written or not, and reads see it.\<close>

definition lsm_ok :: "'l lsm_ops \<Rightarrow> bool" where
  "lsm_ok ops \<longleftrightarrow>
     (\<forall>cf k l. lsm_Get ops cf k l \<noteq> Inl OK) \<and> (\<forall>wb l. fst (lsm_Write ops wb l) \<noteq> Busy) \<and>
     (\<forall>cf k e l l'. lsm_Write ops [(cf, k, e)] l = (OK, l') \<longrightarrow>
        (\<forall>cf' k'. lsm_Get ops cf' k' l' = (if cf' = cf \<and> k' = k then Inr (e, True) else lsm_Get ops cf' k' l)))"

text \<open>The records that the tree refers to where they are.\<close>

definition live :: "'l lsm_ops \<Rightarrow> u32 \<Rightarrow> 'l \<Rightarrow> BlobRecord \<times> BlobIndex \<Rightarrow> bool" where
  "live ops cf lsm x \<longleftrightarrow> DiscardEntry ops cf (rec_key (fst x)) (snd x) lsm = Inr False"

definition batch_for :: "written \<Rightarrow> u32 \<Rightarrow> BlobRecord \<times> BlobIndex \<Rightarrow> WriteBatch \<times> GarbageCollectionWriteCallback \<Rightarrow> bool" where
  "batch_for R cf x y \<longleftrightarrow>
     (\<exists>idx q. fst y = [(cf, rec_key (fst x), BlobIndex_EncodeTo idx [])] \<and> points_into R idx q \<and> rec_value q = rec_value (fst x))"

definition rewrite_inv :: "gc_env \<Rightarrow> 'l lsm_ops \<Rightarrow> 'l gc_locals \<Rightarrow> 'l gc_locals \<Rightarrow> written \<Rightarrow> (BlobRecord \<times> BlobIndex) list \<Rightarrow> bool" where
  "rewrite_inv env ops r0 r R visited \<longleftrightarrow>
     gc_files env r R \<and> gc_frame r0 r \<and>
     list_all2 (batch_for R (gj_cf_id (gr_job r0))) (filter (live ops (gj_cf_id (gr_job r0)) (gr_lsm r0)) visited) (gj_rewrite_batches (gr_job r))"

text \<open>Collections that write new files themselves.\<close>

definition own_files :: "'l gc_locals \<Rightarrow> bool" where
  "own_files r \<longleftrightarrow>
     (sep_before_flush (gj_db_options (gr_job r)) \<longrightarrow> level_merge (job_options r)) \<and> 0 < blob_file_target_size (job_options r)"

lemma batch_for_mono: "batch_for R cf x y \<Longrightarrow> extends R R' \<Longrightarrow> batch_for R' cf x y"
  unfolding batch_for_def extends_def by blast

lemma DiscardEntry_error: "lsm_ok ops \<Longrightarrow> DiscardEntry ops cf k idx l \<noteq> Inl OK"
  by (auto simp: DiscardEntry_def lsm_ok_def dest: BlobIndex_DecodeFrom_error split: sum.splits)

lemma gc_entry_spec:
  assumes "lsm_ok ops" "rewrite_inv env ops r0 r R visited" "own_files r0" "record_ok (fst x)" "\<not> only_value (fst x)"
  shows "\<exists>s r'. gc_entry env ops (snd x) (rec_key (fst x)) (rec_value (fst x)) r = Some (\<not> ok s, s, r') \<and>
    (s = OK \<longrightarrow> (\<exists>R'. rewrite_inv env ops r0 r' R' (visited @ [x])))"
proof -
  let ?cf = "gj_cf_id (gr_job r0)" and ?key = "rec_key (fst x)" and ?val = "rec_value (fst x)"
  have inv: "gc_files env r R" "gc_frame r0 r"
    "list_all2 (batch_for R ?cf) (filter (live ops ?cf (gr_lsm r0)) visited) (gj_rewrite_batches (gr_job r))"
    using assms(2) by (simp_all add: rewrite_inv_def)
  have fr: "gj_cf_id (gr_job r) = ?cf" "gr_lsm r = gr_lsm r0" "job_options r = job_options r0" "gj_db_options (gr_job r) = gj_db_options (gr_job r0)"
    using inv(2) by (simp_all add: gc_frame_def)
  consider s where "DiscardEntry ops ?cf ?key (snd x) (gr_lsm r0) = Inl s" | "DiscardEntry ops ?cf ?key (snd x) (gr_lsm r0) = Inr True"
    | "DiscardEntry ops ?cf ?key (snd x) (gr_lsm r0) = Inr False"
    by (metis (full_types) sum.exhaust)
  then show ?thesis
  proof cases
    case 1
    then have "s \<noteq> OK" using DiscardEntry_error [OF assms(1)] by metis
    then show ?thesis using 1 fr by (simp add: gc_entry_def ok_def)
  next
    case 2
    then have "rewrite_inv env ops r0 r R (visited @ [x])" using assms(2) by (simp add: rewrite_inv_def live_def)
    then show ?thesis using 2 fr by (intro exI [of _ OK] exI [of _ r]) (auto simp: gc_entry_def)
  next
    case 3
    obtain s r' where w: "rewrite_record env (snd x) ?key ?val r = (s, r')" by fastforce
    have e: "gc_entry env ops (snd x) ?key ?val r = Some (\<not> ok s, s, r')"
      using 3 fr assms(3) w by (auto simp: gc_entry_def own_files_def)
    have "\<exists>R'. rewrite_inv env ops r0 r' R' (visited @ [x])" if "s = OK"
    proof -
      have ok: "record_ok \<lparr>rec_key = ?key, rec_value = ?val, only_value = False\<rparr>" using assms(4,5) by (cases "fst x") simp
      have t: "0 < blob_file_target_size (job_options r)" using assms(3) fr(3) by (simp add: own_files_def)
      from rewrite_record_spec [OF inv(1) t ok w [unfolded that]] obtain R' idx' q where R': "gc_files env r' R'" "extends R R'" "gc_frame r r'" "points_into R' idx' q" "rec_value q = ?val"
        "gj_rewrite_batches (gr_job r') = gj_rewrite_batches (gr_job r) @
           [([(?cf, ?key, BlobIndex_EncodeTo idx' [])], \<lparr>cb_key = ?key, cb_blob_index = snd x, cb_value = BlobIndex_EncodeTo idx' []\<rparr>)]"
        unfolding fr(1) by blast
      have "list_all2 (batch_for R' ?cf) (filter (live ops ?cf (gr_lsm r0)) visited) (gj_rewrite_batches (gr_job r))"
        using inv(3) by (rule list_all2_mono) (rule batch_for_mono [OF _ R'(2)])
      moreover have "live ops ?cf (gr_lsm r0) x" using 3 by (simp add: live_def)
      moreover have "batch_for R' ?cf x ([(?cf, ?key, BlobIndex_EncodeTo idx' [])], \<lparr>cb_key = ?key, cb_blob_index = snd x, cb_value = BlobIndex_EncodeTo idx' []\<rparr>)"
        using R'(4,5) unfolding batch_for_def by auto
      ultimately have "rewrite_inv env ops r0 r' R' (visited @ [x])"
        using R' gc_frame_trans [OF inv(2)] by (auto simp: rewrite_inv_def intro!: list_all2_appendI)
      then show ?thesis by blast
    qed
    then show ?thesis using e by blast
  qed
qed

lemma rewrite_inv_polls [simp]: "rewrite_inv env ops r0 (r\<lparr>gr_job := (gr_job r)\<lparr>gj_polls := n\<rparr>\<rparr>) R visited = rewrite_inv env ops r0 r R visited"
  by (simp add: rewrite_inv_def gc_files_def gc_frame_def outputs_def cong: option.case_cong)

lemma merge_scan_Cons:
  assumes "merge_scan L Extend m = Some (x # xs)"
  obtains m' where "merge_Valid m" "merge_Next L Extend m = Some m'" "merge_scan L Extend m' = Some xs"
    "merge_key m = rec_key (fst x)" "merge_value m = rec_value (fst x)" "merge_GetBlobIndex m = snd x"
  using assms
  by (subst (asm) merge_scan.simps)
    (auto simp: merge_key_def merge_value_def BlobFileIterator_key_def BlobFileIterator_value_def split: if_splits bind_splits)

lemma merge_scan_Nil: "merge_scan L Extend m = Some [] \<Longrightarrow> \<not> merge_Valid m"
  by (subst (asm) merge_scan.simps) (auto split: if_splits bind_splits)

lemma gc_loop_spec:
  assumes "lsm_ok ops" "own_files r0" "merge_scan (ge_libs env) (ge_crc env) m = Some xs" "rewrite_inv env ops r0 r R visited"
    and "\<forall>x \<in> set xs. record_ok (fst x) \<and> \<not> only_value (fst x)"
  shows "\<exists>s m' r'. gc_loop env ops m OK r = Some (s, m', r') \<and> (s = OK \<longrightarrow> (\<exists>R'. rewrite_inv env ops r0 r' R' (visited @ xs)))"
  using assms(3-5)
proof (induction xs arbitrary: m r R visited)
  case Nil
  then have "gc_loop env ops m OK r = Some (OK, m, r)" by (subst gc_loop.simps) (simp add: merge_scan_Nil)
  then show ?case using Nil.prems(2) by auto
next
  case (Cons x xs)
  obtain m' where m': "merge_Valid m" "merge_Next (ge_libs env) (ge_crc env) m = Some m'" "merge_scan (ge_libs env) (ge_crc env) m' = Some xs"
    "merge_key m = rec_key (fst x)" "merge_value m = rec_value (fst x)" "merge_GetBlobIndex m = snd x"
    by (rule merge_scan_Cons [OF Cons.prems(1)])
  let ?r = "r\<lparr>gr_job := (gr_job r)\<lparr>gj_polls := gj_polls (gr_job r) + 1\<rparr>\<rparr>"
  have inv: "rewrite_inv env ops r0 ?r R visited" using Cons.prems(2) by simp
  obtain s1 r1 where e: "gc_entry env ops (snd x) (rec_key (fst x)) (rec_value (fst x)) ?r = Some (\<not> ok s1, s1, r1)"
    "s1 = OK \<longrightarrow> (\<exists>R'. rewrite_inv env ops r0 r1 R' (visited @ [x]))"
    using gc_entry_spec [OF assms(1) inv assms(2), of x] Cons.prems(3) by auto
  show ?case
  proof (cases "ge_shutting_down env (gj_polls (gr_job r)) \<or> s1 \<noteq> OK")
    case True
    then show ?thesis using e(1) m'(1,4-6) by (subst gc_loop.simps) (auto simp: Let_def ok_def)
  next
    case False
    then obtain R1 where "rewrite_inv env ops r0 r1 R1 (visited @ [x])" using e(2) by blast
    from Cons.IH [OF m'(3) this] Cons.prems(3) obtain s m2 r2 where l: "gc_loop env ops m' OK r1 = Some (s, m2, r2)"
      "s = OK \<longrightarrow> (\<exists>R'. rewrite_inv env ops r0 r2 R' (visited @ x # xs))"
      by auto
    have "gc_loop env ops m OK r = Some (s, m2, r2)"
      using False e(1) m'(1,2,4-6) l(1) by (subst gc_loop.simps) (simp add: Let_def)
    then show ?thesis using l(2) by blast
  qed
qed
section \<open>Running the job\<close>

definition gc_inputs_ok :: "gc_env \<Rightarrow> disk \<Rightarrow> BlobStorage \<Rightarrow> u64 list \<Rightarrow> bool" where
  "gc_inputs_ok env D s ins \<longleftrightarrow>
     (\<forall>n \<in> set ins. \<exists>rs hs c p f. D n = Some (rs, hs, c, p) \<and> FindFile s n = Some f \<and> \<not> keyless s f \<and> ge_file env n = Inr (pread c))"

definition input_file :: "disk \<Rightarrow> u64 \<Rightarrow> u64 \<times> BlobRecord list \<times> BlobHandle list \<times> bytes" where
  "input_file D n = (case the (D n) of (rs, hs, c, p) \<Rightarrow> (n, rs, hs, c))"

lemma input_facts:
  assumes "disk_ok (we_read (ge_write env)) D s cache" "gc_inputs_ok env D s ins" "n \<in> set ins"
  obtains rs hs c p f where "D n = Some (rs, hs, c, p)" "input_file D n = (n, rs, hs, c)" "FindFile s n = Some f" "file_size f = word_of_nat (length c)"
    "ge_file env n = Inr (pread c)" "built_from (ge_libs env) (ge_crc env) rs hs c" "\<forall>r \<in> set rs. \<not> only_value r"
proof -
  obtain rs hs c p f where 1: "D n = Some (rs, hs, c, p)" "FindFile s n = Some f" "\<not> keyless s f" "ge_file env n = Inr (pread c)"
    using assms(2,3) unfolding gc_inputs_ok_def by blast
  have "file_ok (we_read (ge_write env)) s n (rs, hs, c, p)" using assms(1) 1(1) unfolding disk_ok_def by blast
  then show thesis using 1 by (intro that [of rs hs c p f]) (auto simp: file_ok_def input_file_def)
qed

lemma build_list_files:
  assumes "disk_ok (we_read (ge_write env)) D s cache" "gc_inputs_ok env D s ins"
  shows "build_list env opts (map (\<lambda>n. (n, case FindFile s n of Some f \<Rightarrow> file_size f | None \<Rightarrow> 0)) ins) its
    = Inr (its @ map (\<lambda>(n, rs, hs, c). open_iterator n opts c) (map (input_file D) ins))"
  using assms(2)
proof (induction ins arbitrary: its)
  case (Cons n ins)
  obtain rs hs c p f where f: "D n = Some (rs, hs, c, p)" "input_file D n = (n, rs, hs, c)" "FindFile s n = Some f" "file_size f = word_of_nat (length c)"
    "ge_file env n = Inr (pread c)"
    by (rule input_facts [OF assms(1) Cons.prems, of n]) auto
  have "gc_inputs_ok env D s ins" using Cons.prems by (simp add: gc_inputs_ok_def)
  then show ?case using Cons.IH f by (simp add: open_iterator_def)
qed simp

lemma set_indexed:
  assumes "length hs = length rs"
  shows "(r, idx) \<in> set (indexed n hs rs) \<longleftrightarrow> bi_file_number idx = n \<and> (\<exists>i < length rs. hs ! i = blob_handle idx \<and> rs ! i = r)"
  using assms by (cases idx) (fastforce simp: indexed_def set_zip)

lemma length_built_from: "built_from L Extend rs hs c \<Longrightarrow> length hs = length rs"
  by (erule built_from_content) simp

lemma input_entries:
  assumes "disk_ok (we_read (ge_write env)) D s cache" "gc_inputs_ok env D s ins"
  shows "set (concat (map (\<lambda>(n, rs, hs, c). indexed n hs rs) (map (input_file D) ins))) = {(r, idx). bi_file_number idx \<in> set ins \<and> stored D idx r}"
proof -
  have "set ((\<lambda>(n, rs, hs, c). indexed n hs rs) (input_file D n)) = {(r, idx). bi_file_number idx = n \<and> stored D idx r}" if n: "n \<in> set ins" for n
  proof -
    obtain rs hs c p f where f: "D n = Some (rs, hs, c, p)" "input_file D n = (n, rs, hs, c)" "built_from (ge_libs env) (ge_crc env) rs hs c"
      by (rule input_facts [OF assms n])
    then show ?thesis using set_indexed [OF length_built_from [OF f(3)]] by (auto simp: stored_def)
  qed
  then have "(\<Union>n \<in> set ins. set ((\<lambda>(n, rs, hs, c). indexed n hs rs) (input_file D n))) = (\<Union>n \<in> set ins. {(r, idx). bi_file_number idx = n \<and> stored D idx r})"
    by (rule SUP_cong [OF refl])
  then show ?thesis by auto
qed

lemma stored_input_ok:
  assumes "disk_ok (we_read (ge_write env)) D s cache" "gc_inputs_ok env D s ins" "bi_file_number idx \<in> set ins" "stored D idx r"
  shows "record_ok r \<and> \<not> only_value r"
proof -
  obtain rs hs c p f where f: "D (bi_file_number idx) = Some (rs, hs, c, p)" "built_from (ge_libs env) (ge_crc env) rs hs c" "\<forall>r \<in> set rs. \<not> only_value r"
    by (rule input_facts [OF assms(1-3)])
  have "r \<in> set rs" using assms(4) f(1) by (auto simp: stored_def)
  then show ?thesis using f(2,3) by (simp add: built_from_def)
qed

text \<open>What the job has prepared when it has run: \<open>xs\<close> are the records of the inputs.\<close>

definition prepared :: "gc_env \<Rightarrow> 'l lsm_ops \<Rightarrow> TitanCFOptions \<Rightarrow> u32 \<Rightarrow> 'l \<Rightarrow> (BlobRecord \<times> BlobIndex) list \<Rightarrow> BlobGCJob \<Rightarrow> written \<Rightarrow> bool" where
  "prepared env ops opts cf lsm xs job R \<longleftrightarrow>
     list_all2 (output_as env opts) (gj_blob_file_builders job) R \<and>
     list_all2 (batch_for R cf) (filter (live ops cf lsm) xs) (gj_rewrite_batches job)"

lemma Run_spec:
  assumes lsm: "lsm_ok ops" and D: "disk_ok (we_read (ge_write env)) D s cache" "the_storage cf db = Some s"
    and ins: "gc_inputs_ok env D s ins" "ins \<noteq> []" "gc_inputs gc = ins"
    and opts: "comparator_ok (comparator (gc_cf_options gc))" "sep_before_flush db_opts \<longrightarrow> level_merge (gc_cf_options gc)"
      "0 < blob_file_target_size (gc_cf_options gc)"
  shows "\<exists>st job lsm1 db1. BlobGCJob_Run env ops (new_BlobGCJob gc db_opts cf fb) lsm db = Some (st, job, lsm1, db1) \<and>
    (st = OK \<longrightarrow> lsm1 = lsm \<and> (\<forall>k. the_storage k db1 = the_storage k db) \<and> gj_blob_gc job = gc\<lparr>gc_sampled_inputs := ins\<rparr> \<and>
      gj_db_options job = db_opts \<and> gj_cf_id job = cf \<and> gj_builder job = fb \<and>
      (\<exists>xs R. set xs = {(r, idx). bi_file_number idx \<in> set ins \<and> stored D idx r} \<and> prepared env ops (gc_cf_options gc) cf lsm xs job R))"
proof -
  let ?opts = "gc_cf_options gc" and ?L = "ge_libs env" and ?X = "ge_crc env" and ?fs = "map (input_file D) ins"
  let ?job = "(new_BlobGCJob gc db_opts cf fb)\<lparr>gj_blob_gc := gc\<lparr>gc_sampled_inputs := ins\<rparr>\<rparr>"
  let ?m = "new_BlobFileMergeIterator (map (\<lambda>(n, rs, hs, c). open_iterator n ?opts c) ?fs) (comparator ?opts)"
  let ?r0 = "\<lparr>gr_job = ?job, gr_handle = None, gr_builder = None, gr_file_size = 0, gr_lsm = lsm, gr_db = db\<rparr>"
  have "\<forall>(n, rs, hs, c) \<in> set ?fs. built_from ?L ?X rs hs c \<and> (\<forall>r \<in> set rs. \<not> only_value r)"
    by (auto elim!: input_facts [OF D(1) ins(1)])
  moreover have "libs_ok ?L" using D(1) by (simp add: disk_ok_def)
  ultimately obtain m xs where m: "merge_SeekToFirst ?L ?X ?m = Some m" "merge_scan ?L ?X m = Some xs"
    "mset xs = mset (concat (map (\<lambda>(n, rs, hs, c). indexed n hs rs) ?fs))"
    using merge_scan_files [of ?L "comparator ?opts" ?fs ?X ?opts] opts(1) by blast
  have set_xs: "set xs = {(r, idx). bi_file_number idx \<in> set ins \<and> stored D idx r}"
    using input_entries [OF D(1) ins(1)] mset_eq_setD [OF m(3)] by simp
  have inv: "rewrite_inv env ops ?r0 ?r0 [] []" by (simp add: rewrite_inv_def gc_files_def outputs_def new_BlobGCJob_def)
  have own: "own_files ?r0" using opts(2,3) by (simp add: own_files_def new_BlobGCJob_def)
  have recs: "\<forall>x \<in> set xs. record_ok (fst x) \<and> \<not> only_value (fst x)"
    using stored_input_ok [OF D(1) ins(1)] unfolding set_xs by auto
  obtain st m' r where l: "gc_loop env ops m OK ?r0 = Some (st, m', r)" "st = OK \<longrightarrow> (\<exists>R. rewrite_inv env ops ?r0 r R xs)"
    using gc_loop_spec [OF lsm own m(2) inv recs] by auto
  let ?job' = "if gr_builder r \<noteq> None \<and> gr_handle r \<noteq> None
    then (gr_job r)\<lparr>gj_blob_file_builders := gj_blob_file_builders (gr_job r) @ [(gr_handle r, gr_builder r)]\<rparr> else gr_job r"
  have build: "BuildIterator env (the_storage cf db) ?job = Inr ?m"
    using build_list_files [OF D(1) ins(1), of ?opts "[]"] D(2) by (simp add: BuildIterator_def Let_def)
  obtain job' where job': "job' = ?job'" by blast
  have run: "BlobGCJob_Run env ops (new_BlobGCJob gc db_opts cf fb) lsm db =
    Some (if ok (merge_status m') \<and> ok st then (st, job', gr_lsm r, gr_db r)
          else if \<not> ok (merge_status m') then (merge_status m', gr_job r, gr_lsm r, gr_db r) else (st, gr_job r, gr_lsm r, gr_db r))"
    unfolding job' using build m(1) l(1) ins(2,3) by (simp add: BlobGCJob_Run_def SampleCandidateFiles_def DoRunGC_def new_BlobGCJob_def Let_def)
  show ?thesis
  proof (cases "ok (merge_status m') \<and> ok st")
    case True
    then obtain R where R: "rewrite_inv env ops ?r0 r R xs" using l(2) by (auto simp: ok_def)
    then have "gj_blob_file_builders job' = outputs r" "gj_rewrite_batches job' = gj_rewrite_batches (gr_job r)"
      by (auto simp: job' rewrite_inv_def gc_files_def outputs_def)
    then have P: "prepared env ops ?opts cf lsm xs job' R" using R by (auto simp: rewrite_inv_def gc_files_def gc_frame_def prepared_def new_BlobGCJob_def)
    have "gr_lsm r = lsm" "\<forall>k. the_storage k (gr_db r) = the_storage k db" "gj_blob_gc job' = gc\<lparr>gc_sampled_inputs := ins\<rparr>"
      "gj_db_options job' = db_opts" "gj_cf_id job' = cf" "gj_builder job' = fb"
      using R by (auto simp: job' rewrite_inv_def gc_frame_def new_BlobGCJob_def)
    moreover have "BlobGCJob_Run env ops (new_BlobGCJob gc db_opts cf fb) lsm db = Some (st, job', gr_lsm r, gr_db r)"
      using run True by simp
    ultimately show ?thesis using set_xs P by blast
  next
    case False
    then have "\<exists>st'. BlobGCJob_Run env ops (new_BlobGCJob gc db_opts cf fb) lsm db = Some (st', gr_job r, gr_lsm r, gr_db r) \<and> st' \<noteq> OK"
      using run by (auto simp: ok_def)
    then show ?thesis by blast
  qed
qed
section \<open>Installing the outcome\<close>

definition finished_output ::
  "gc_env \<Rightarrow> TitanCFOptions \<Rightarrow> BlobFileHandle option \<times> BlobFileBuilder option \<Rightarrow> u64 \<times> BlobRecord list \<times> BlobHandle list \<Rightarrow> bool" where
  "finished_output env opts hb d \<longleftrightarrow>
     (\<exists>h b b'. hb = (Some h, Some b') \<and> hd_number h = fst d \<and> gc_built env opts (fst (snd d)) (snd (snd d)) b \<and>
        BlobFileBuilder_Finish (ge_crc env) (we_append (ge_write env)) (we_flush (ge_write env)) b = (OK, b'))"

lemma finish_builders_spec:
  "list_all2 (output_as env opts) bs R \<Longrightarrow> finish_builders (ge_write env) bs = (OK, bs') \<Longrightarrow> list_all2 (finished_output env opts) bs' R"
proof (induction bs arbitrary: R bs')
  case (Cons hb bs)
  obtain d R' where R: "R = d # R'" "output_as env opts hb d" "list_all2 (output_as env opts) bs R'"
    using Cons.prems(1) by (auto simp: list_all2_Cons1)
  obtain h b where hb: "hb = (Some h, Some b)" "hd_number h = fst d" "gc_built env opts (fst (snd d)) (snd (snd d)) b"
    using R(2) by (auto simp: output_as_def)
  obtain b' bs1 where f: "BlobFileBuilder_Finish (ge_crc env) (we_append (ge_write env)) (we_flush (ge_write env)) b = (OK, b')"
    "finish_builders (ge_write env) bs = (OK, bs1)" "bs' = (Some h, Some b') # bs1"
    using Cons.prems(2) hb(1) by (auto simp: ok_def split: prod.splits if_splits)
  show ?case using Cons.IH [OF R(3) f(2)] R(1) hb f(1,3) by (auto simp: finished_output_def)
qed simp

lemma output_complete:
  assumes "append_ok (we_append (ge_write env))" "finished_output env opts hb d" "sep_before_flush (gj_db_options job) \<longleftrightarrow> lm"
  shows "complete (we_read (ge_write env)) lm (case hb of (h, b) \<Rightarrow> output_file job (the h) (the b)) d"
proof -
  obtain n rs hs where d: "d = (n, rs, hs)" by (cases d)
  obtain h b b' where h: "hb = (Some h, Some b')" "hd_number h = n" "gc_built env opts rs hs b"
    "BlobFileBuilder_Finish (ge_crc env) (we_append (ge_write env)) (we_flush (ge_write env)) b = (OK, b')"
    using assms(2) by (auto simp: finished_output_def d)
  have "built_from (ge_libs env) (ge_crc env) rs hs (bb_file b')" if "length (bb_file b') < 2 ^ 64"
    using h(3) that by (intro built_fromI [OF assms(1) _ h(4), where cf = opts]) (auto simp: gc_built_def)
  then show ?thesis using assms(3) h(1-3) by (auto simp: d complete_def output_file_def gc_built_def transit_def new_BlobFileMeta_def)
qed

lemma Install_spec:
  assumes R: "list_all2 (output_as env opts) (gj_blob_file_builders job) R" and io: "append_ok (we_append (ge_write env))"
    and lm: "sep_before_flush (gj_db_options job) \<longleftrightarrow> lm" and i: "InstallOutputBlobFiles env job db = (OK, job', db')"
    and undone: "fst (finish_builders (ge_write env) (gj_blob_file_builders job)) = OK"
  shows "\<exists>FH fs'. FH = map (\<lambda>(h, b). output_file job' (the h) (the b)) (gj_blob_file_builders job') \<and> list_all2 (complete (we_read (ge_write env)) lm) FH R \<and>
    LogAndApply (io_log_add (we_io (ge_write env))) (io_log_sync (we_io (ge_write env))) (adds_edit (gj_cf_id job) (map fst FH)) (blob_file_set db) = (OK, fs') \<and>
    blob_file_set db' = fs' \<and> gj_rewrite_batches job' = gj_rewrite_batches job \<and> gj_cf_id job' = gj_cf_id job \<and> gj_builder job' = gj_builder job \<and>
    gj_polls job' = gj_polls job \<and> gc_sampled_inputs (gj_blob_gc job') = gc_sampled_inputs (gj_blob_gc job)"
proof -
  obtain bs where f: "finish_builders (ge_write env) (gj_blob_file_builders job) = (OK, bs)" using undone by (metis prod.collapse)
  note F = finish_builders_spec [OF R f]
  let ?job = "job\<lparr>gj_blob_file_builders := bs\<rparr>" and ?io = "we_io (ge_write env)"
  let ?FH = "map (\<lambda>(h, b). output_file ?job (the h) (the b)) bs"
  have "list_all (\<lambda>hb. fst hb \<noteq> None) bs" using F by (induction rule: list_all2_induct) (auto simp: finished_output_def)
  then have some: "\<not> list_ex (\<lambda>hb. fst hb = None) bs" by (auto simp: list_all_iff list_ex_iff)
  obtain st db1 where b: "BatchFinishFiles ?io (gj_cf_id job) ?FH db = (st, db1)" by fastforce
  have out: "st = OK" "db' = db1" and job': "job' = ?job\<lparr>gj_blob_gc := fold (AddOutputFile \<circ> file_number \<circ> fst) ?FH (gj_blob_gc job)\<rparr>"
    using i f some b by (auto simp: InstallOutputBlobFiles_def Let_def)
  have same: "output_file job' = output_file ?job" by (simp add: job' output_file_def fun_eq_iff)
  have "list_all2 (complete (we_read (ge_write env)) lm) ?FH R"
    unfolding list_all2_map1 using F by (rule list_all2_mono) (rule output_complete [OF io], simp_all add: lm)
  moreover obtain fs' where "LogAndApply (io_log_add ?io) (io_log_sync ?io) (adds_edit (gj_cf_id job) (map fst ?FH)) (blob_file_set db) = (OK, fs')"
    "blob_file_set db1 = fs'"
    using b out(1) by (cases rule: BatchFinishFiles_cases) auto
  moreover have "gc_sampled_inputs (fold (AddOutputFile \<circ> file_number \<circ> fst) xs gc) = gc_sampled_inputs gc" for xs :: "(BlobFileMeta \<times> BlobFileHandle) list" and gc
    by (induction xs arbitrary: gc) (simp_all add: AddOutputFile_def)
  ultimately show ?thesis using out(2) same by (intro exI [of _ ?FH] exI [of _ fs']) (simp add: job')
qed

lemma rewrite_loop_reads:
  assumes "lsm_ok ops" "rewrite_loop env ops n s bs l = (OK, n', l')" "\<forall>b \<in> set bs. \<exists>k e. fst b = [(cf, k, e)]"
  shows "\<forall>cf' k. lsm_Get ops cf' k l' = lsm_Get ops cf' k l \<and> (\<forall>b \<in> set bs. \<forall>e. fst b \<noteq> [(cf', k, e)]) \<or>
    (\<exists>b \<in> set bs. \<exists>e. fst b = [(cf', k, e)] \<and> lsm_Get ops cf' k l' = Inr (e, True))"
  using assms(2,3)
proof (induction bs arbitrary: n s l)
  case (Cons b bs)
  obtain k e where b: "fst b = [(cf, k, e)]" using Cons.prems(2) by auto
  obtain s1 l1 where w: "lsm_Write ops [(cf, k, e)] l = (s1, l1)" by fastforce
  have "fst (lsm_Write ops [(cf, k, e)] l) \<noteq> Busy" using assms(1) unfolding lsm_ok_def by blast
  then have "s1 \<noteq> Busy" using w by simp
  then have s1: "s1 = OK" "rewrite_loop env ops (n + 1) OK bs l1 = (OK, n', l')"
    using Cons.prems(1) b w by (auto simp: ok_def split: if_splits)
  have r: "lsm_Get ops cf' k' l1 = (if cf' = cf \<and> k' = k then Inr (e, True) else lsm_Get ops cf' k' l)" for cf' k'
    using assms(1) w s1(1) by (simp add: lsm_ok_def)
  have IH: "lsm_Get ops cf' k' l' = lsm_Get ops cf' k' l1 \<and> (\<forall>b \<in> set bs. \<forall>e. fst b \<noteq> [(cf', k', e)]) \<or>
      (\<exists>b \<in> set bs. \<exists>e. fst b = [(cf', k', e)] \<and> lsm_Get ops cf' k' l' = Inr (e, True))" for cf' k'
    using Cons.IH [OF s1(2)] Cons.prems(2) by auto
  show ?case
  proof (intro allI)
    fix cf' k'
    show "lsm_Get ops cf' k' l' = lsm_Get ops cf' k' l \<and> (\<forall>b \<in> set (b # bs). \<forall>e. fst b \<noteq> [(cf', k', e)]) \<or>
      (\<exists>b \<in> set (b # bs). \<exists>e. fst b = [(cf', k', e)] \<and> lsm_Get ops cf' k' l' = Inr (e, True))"
      using IH [of cf' k'] r [of cf' k'] b by (auto split: if_splits)
  qed
qed simp
section \<open>Retiring the inputs\<close>

definition numbered :: "BlobStorage \<Rightarrow> bool" where
  "numbered s \<longleftrightarrow> (\<forall>n f. FindFile s n = Some f \<longrightarrow> file_number f = n)"

definition retired :: "u64 list \<Rightarrow> BlobStorage \<Rightarrow> BlobStorage \<Rightarrow> bool" where
  "retired ns s s' \<longleftrightarrow>
     cf_options s' = cf_options s \<and> file_cache s' = file_cache s \<and>
     (\<forall>m. FindFile s' m = (if m \<in> set ns then map_option (transit kDelete) (FindFile s m) else FindFile s m)) \<and>
     (\<forall>m \<in> set ns. FindFile s m \<noteq> None)"

lemma transit_kDelete_twice: "transit kDelete (transit kDelete f) = transit kDelete f"
  by (simp add: transit_def)

lemma mark_deleted_spec:
  assumes "numbered s" "mark_deleted ds [] s = (OK, s')"
  shows "retired (keys ds) s s'"
  using assms
proof (induction ds arbitrary: s)
  case (Cons d ds)
  obtain n q where d: "d = (n, q)" by fastforce
  obtain f where f: "map_of (files s) n = Some f" using Cons.prems(2) by (auto simp: d MarkFileObsolete_def split: option.splits)
  have n: "file_number f = n" using Cons.prems(1) f by (simp add: numbered_def FindFile_def)
  let ?s = "MarkFileObsoleteLocked f q s"
  have md: "mark_deleted ds [] ?s = (OK, s')" using Cons.prems(2) f by (simp add: d MarkFileObsolete_def)
  have ff: "FindFile ?s m = (if m = n then map_option (transit kDelete) (FindFile s m) else FindFile s m)" for m
    by (simp add: MarkFileObsoleteLocked_def FindFile_def map_of_alter n)
  have "numbered ?s" using Cons.prems(1) unfolding numbered_def ff by (auto simp: transit_def)
  then have IH: "retired (keys ds) ?s s'" using Cons.IH md by blast
  have "cf_options ?s = cf_options s" "file_cache ?s = file_cache s" by (simp_all add: MarkFileObsoleteLocked_def)
  moreover have "FindFile s n \<noteq> None" using f by (simp add: FindFile_def)
  ultimately show ?case using IH unfolding retired_def ff d
    by (auto simp: option.map_comp comp_def transit_kDelete_twice split: if_splits)
qed (simp add: retired_def)

lemma deletes_fields:
  "ve_deleted_files (fold (\<lambda>n. DeleteBlobFile n q) ns e) = ve_deleted_files e @ map (\<lambda>n. (n, q)) ns"
  "ve_added_files (fold (\<lambda>n. DeleteBlobFile n q) ns e) = ve_added_files e"
  "ve_updated_discardable_size (fold (\<lambda>n. DeleteBlobFile n q) ns e) = ve_updated_discardable_size e"
  "ve_column_family_id (fold (\<lambda>n. DeleteBlobFile n q) ns e) = ve_column_family_id e"
  by (induction ns arbitrary: e) (simp_all add: DeleteBlobFile_def)

lemma DeleteInput_spec:
  assumes "DeleteInputBlobFiles env ops job lsm db = (OK, db')" "the_storage (gj_cf_id job) db = Some s" "numbered s"
  shows "\<exists>s'. the_storage (gj_cf_id job) db' = Some s' \<and> retired (gc_sampled_inputs (gj_blob_gc job)) s s'"
proof -
  let ?ns = "gc_sampled_inputs (gj_blob_gc job)" and ?cf = "gj_cf_id job" and ?q = "lsm_sequence ops lsm"
  let ?e = "fold (\<lambda>n. DeleteBlobFile n ?q) ?ns (SetColumnFamilyID ?cf new_VersionEdit)"
  have e: "ve_column_family_id ?e = ?cf" "ve_deleted_files ?e = map (\<lambda>n. (n, ?q)) ?ns" "ve_added_files ?e = []" "ve_updated_discardable_size ?e = []"
    by (simp_all add: deletes_fields SetColumnFamilyID_def new_VersionEdit_def)
  obtain fs' where l: "LogAndApply (io_log_add (we_io (ge_write env))) (io_log_sync (we_io (ge_write env))) ?e (blob_file_set db) = (OK, fs')"
    "blob_file_set db' = fs'"
    using assms(1) by (auto simp: DeleteInputBlobFiles_def Let_def split: prod.splits)
  have c: "cfc_added_files (edit_of ?e) = []" "cfc_deleted_files (edit_of ?e) = map (\<lambda>n. (n, ?q)) ?ns" "cfc_updated_discardable_size (edit_of ?e) = []"
    using e by (simp_all add: collect_def number_files_def)
  obtain st s1 where m: "mark_deleted (map (\<lambda>n. (n, ?q)) ?ns) [] s = (st, s1)" by fastforce
  have s: "map_of (column_families (blob_file_set db)) ?cf = Some s" using assms(2) by (simp add: GetBlobStorage_def)
  have A: "CFEditCollector_Apply (edit_of ?e) s = (if ok st then (OK, fst (ComputeGCScore s1)) else (st, s1))"
    unfolding CFEditCollector_Apply_def c by (simp add: m)
  have ok: "fst (CFEditCollector_Apply (edit_of ?e) s) = OK" and fam: "map_of (column_families fs') ?cf = Some (snd (CFEditCollector_Apply (edit_of ?e) s))"
    using LogAndApply_one [OF l(1)] s unfolding e(1) by simp_all
  have st: "st = OK" using ok A by (auto simp: ok_def split: if_splits)
  note M = mark_deleted_spec [OF assms(3) m [unfolded st]]
  have s': "the_storage ?cf db' = Some (fst (ComputeGCScore s1))" using fam A st l(2) by (simp add: GetBlobStorage_def)
  have "keys (map (\<lambda>n. (n, ?q)) ?ns) = ?ns" by (simp add: comp_def)
  then have "retired ?ns s (fst (ComputeGCScore s1))" using M by (simp add: retired_def)
  then show ?thesis using s' by blast
qed
section \<open>The values\<close>

lemma stored_unique:
  assumes "disk_ok env D s cache" "stored D idx r" "stored D idx r'"
  shows "r' = r"
proof -
  obtain rs hs c p i where 1: "D (bi_file_number idx) = Some (rs, hs, c, p)" "i < length rs" "hs ! i = blob_handle idx" "rs ! i = r"
    using assms(2) by (auto simp: stored_def)
  then obtain j where 2: "j < length rs" "hs ! j = blob_handle idx" "rs ! j = r'" using assms(3) by (auto simp: stored_def)
  have "file_ok env s (bi_file_number idx) (rs, hs, c, p)" using assms(1) 1(1) unfolding disk_ok_def by blast
  then have b: "built_from (env_libs env) (env_crc env) rs hs c" by (simp add: file_ok_def)
  obtain e where e: "c = file_header @ concat (map (framed (env_libs env) (env_crc env) e) rs) @ BlobFileFooter_EncodeTo (env_crc env) null_footer []"
    "hs = handles_from 8 (map (framed (env_libs env) (env_crc env) e) rs)"
    by (rule built_from_content [OF b])
  have "length c < 2 ^ 64" using b by (simp add: built_from_def)
  then have "8 + length (concat (map (framed (env_libs env) (env_crc env) e) rs)) < 2 ^ 64" using e(1) by simp
  moreover have "f \<noteq> []" if "f \<in> set (map (framed (env_libs env) (env_crc env) e) rs)" for f
    using that length_framed_pos by (metis (no_types, lifting) image_iff less_irrefl list.size(3) set_map)
  ultimately have "i = j" using 1(2,3) 2(1,2) e(2) by (intro handles_offsets_inj [where fs = "map (framed (env_libs env) (env_crc env) e) rs" and off = 8]) simp_all
  then show ?thesis using 1(4) 2(3) by simp
qed

lemma live_iff:
  "live ops cf lsm x \<longleftrightarrow> (\<exists>v rest. lsm_Get ops cf (rec_key (fst x)) lsm = Inr (v, True) \<and> BlobIndex_DecodeFrom v = Inr (snd x, rest))"
  by (auto simp: live_def DiscardEntry_def split: sum.splits prod.splits if_splits)

text \<open>The tree refers to an input only at records of the key.\<close>

definition refers_ok :: "'l lsm_ops \<Rightarrow> disk \<Rightarrow> u32 \<Rightarrow> u64 list \<Rightarrow> 'l \<Rightarrow> bool" where
  "refers_ok ops D cf ins lsm \<longleftrightarrow>
     (\<forall>k v idx rest. lsm_Get ops cf k lsm = Inr (v, True) \<longrightarrow> BlobIndex_DecodeFrom v = Inr (idx, rest) \<longrightarrow> bi_file_number idx \<in> set ins \<longrightarrow>
        (\<exists>r. stored D idx r \<and> rec_key r = k))"

text \<open>A key keeps its entry, which does not point to an input, or its value has moved.\<close>

definition moved :: "'l lsm_ops \<Rightarrow> disk \<Rightarrow> written \<Rightarrow> u32 \<Rightarrow> 'l \<Rightarrow> 'l \<Rightarrow> bytes \<Rightarrow> bool" where
  "moved ops D R cf lsm lsm' k \<longleftrightarrow>
     (\<exists>v idx rest r idx' q. lsm_Get ops cf k lsm = Inr (v, True) \<and> BlobIndex_DecodeFrom v = Inr (idx, rest) \<and> stored D idx r \<and>
        lsm_Get ops cf k lsm' = Inr (BlobIndex_EncodeTo idx' [], True) \<and> points_into R idx' q \<and> rec_value q = rec_value r)"

lemma list_all2_partner:
  assumes "list_all2 P xs ys"
  shows "x \<in> set xs \<Longrightarrow> \<exists>y \<in> set ys. P x y" "y \<in> set ys \<Longrightarrow> \<exists>x \<in> set xs. P x y"
  using assms by (induction rule: list_all2_induct) auto

lemma rewritten_keys:
  assumes lsm: "lsm_ok ops" "refers_ok ops D cf ins lsm" and xs: "set xs = {(r, idx). bi_file_number idx \<in> set ins \<and> stored D idx r}"
    and bs: "list_all2 (batch_for R cf) (filter (live ops cf lsm) xs) bs" and w: "rewrite_loop env ops n OK bs lsm = (OK, n', lsm')"
  shows "(\<forall>cf' k. cf' \<noteq> cf \<longrightarrow> lsm_Get ops cf' k lsm' = lsm_Get ops cf' k lsm) \<and>
    (\<forall>k. lsm_Get ops cf k lsm' = lsm_Get ops cf k lsm \<and>
      (\<forall>v idx rest. lsm_Get ops cf k lsm = Inr (v, True) \<longrightarrow> BlobIndex_DecodeFrom v = Inr (idx, rest) \<longrightarrow> bi_file_number idx \<notin> set ins) \<or>
      moved ops D R cf lsm lsm' k)"
proof -
  have batch: "\<exists>x \<in> set xs. live ops cf lsm x \<and> batch_for R cf x b" if "b \<in> set bs" for b
    using list_all2_partner(2) [OF bs that] by auto
  have batched: "\<exists>b \<in> set bs. batch_for R cf x b" if "x \<in> set xs" "live ops cf lsm x" for x
    using list_all2_partner(1) [OF bs, of x] that by simp
  have one: "\<forall>b \<in> set bs. \<exists>k e. fst b = [(cf, k, e)]" using batch unfolding batch_for_def by blast
  note reads = rewrite_loop_reads [OF lsm(1) w one]
  have "lsm_Get ops cf' k lsm' = lsm_Get ops cf' k lsm" if "cf' \<noteq> cf" for cf' k
    using reads one that by fastforce
  moreover have "lsm_Get ops cf k lsm' = lsm_Get ops cf k lsm \<and>
      (\<forall>v idx rest. lsm_Get ops cf k lsm = Inr (v, True) \<longrightarrow> BlobIndex_DecodeFrom v = Inr (idx, rest) \<longrightarrow> bi_file_number idx \<notin> set ins) \<or>
      moved ops D R cf lsm lsm' k" for k
  proof (cases "\<exists>b \<in> set bs. \<exists>e. fst b = [(cf, k, e)] \<and> lsm_Get ops cf k lsm' = Inr (e, True)")
    case True
    then obtain b e where b: "b \<in> set bs" "fst b = [(cf, k, e)]" "lsm_Get ops cf k lsm' = Inr (e, True)" by blast
    obtain x where x: "x \<in> set xs" "live ops cf lsm x" "batch_for R cf x b" using batch [OF b(1)] by blast
    obtain idx' q where q: "rec_key (fst x) = k" "e = BlobIndex_EncodeTo idx' []" "points_into R idx' q" "rec_value q = rec_value (fst x)"
      using x(3) b(2) by (auto simp: batch_for_def)
    have "stored D (snd x) (fst x)" using x(1) xs by auto
    then show ?thesis using x(2) q b(3) unfolding live_iff moved_def by blast
  next
    case False
    then have k: "lsm_Get ops cf k lsm' = lsm_Get ops cf k lsm" "\<forall>b \<in> set bs. \<forall>e. fst b \<noteq> [(cf, k, e)]" using reads by blast+
    have "bi_file_number idx \<notin> set ins" if v: "lsm_Get ops cf k lsm = Inr (v, True)" "BlobIndex_DecodeFrom v = Inr (idx, rest)" for v idx rest
    proof
      assume i: "bi_file_number idx \<in> set ins"
      then obtain r where r: "stored D idx r" "rec_key r = k" using lsm(2) v unfolding refers_ok_def by blast
      then have "(r, idx) \<in> set xs" "live ops cf lsm (r, idx)" using xs i v by (auto simp: live_iff)
      then obtain b where "b \<in> set bs" "batch_for R cf (r, idx) b" using batched by blast
      then show False using k(2) r(2) by (auto simp: batch_for_def)
    qed
    then show ?thesis using k(1) by blast
  qed
  ultimately show ?thesis by blast
qed
text \<open>
  The outcome of a collection: the files besides the inputs, old and new, are in \<open>D'\<close>; the family knows them, the inputs are
  obsolete, and every key has the value it had, in \<open>D'\<close>.
\<close>

definition gc_collected ::
  "gc_env \<Rightarrow> 'l lsm_ops \<Rightarrow> disk \<Rightarrow> u32 \<Rightarrow> u64 list \<Rightarrow> 'l \<Rightarrow> 'l \<Rightarrow> TitanDB \<Rightarrow> bool" where
  "gc_collected env ops D cf ins lsm lsm' db' \<longleftrightarrow>
     (\<exists>D' s'. the_storage cf db' = Some s' \<and> D |` (- set ins) \<subseteq>\<^sub>m D' \<and>
        (\<forall>n \<in> set ins. D' n = None \<and> (\<exists>f. FindFile s' n = Some f \<and> is_obsolete f)) \<and>
        (\<forall>cache. caches_ok D' cache \<longrightarrow> disk_ok (we_read (ge_write env)) D' s' cache) \<and>
        (\<forall>k v b w. lsm_Get ops cf k lsm = Inr (v, b) \<longrightarrow> denotes D v b w \<longrightarrow>
           (\<exists>v' b'. lsm_Get ops cf k lsm' = Inr (v', b') \<and> denotes D' v' b' w)) \<and>
        (\<forall>k e. lsm_Get ops cf k lsm = Inl e \<longrightarrow> lsm_Get ops cf k lsm' = Inl e) \<and>
        (\<forall>cf' k. cf' \<noteq> cf \<longrightarrow> lsm_Get ops cf' k lsm' = lsm_Get ops cf' k lsm))"

lemma denotes_restrict:
  assumes "denotes D v b w" "\<And>idx rest. b \<Longrightarrow> BlobIndex_DecodeFrom v = Inr (idx, rest) \<Longrightarrow> bi_file_number idx \<notin> N" "D |` (- N) \<subseteq>\<^sub>m D'"
  shows "denotes D' v b w"
proof (cases b)
  case True
  then obtain idx r where i: "DecodeInto BlobIndex_DecodeFrom v = Inr idx" "stored D idx r" "w = rec_value r" using assms(1) by (auto simp: denotes_def)
  then have n: "bi_file_number idx \<notin> N" using assms(2) [OF True] by (auto simp: DecodeInto_def split: sum.splits if_splits)
  obtain d where d: "D (bi_file_number idx) = Some d" using i(2) by (auto simp: stored_def)
  have "D' (bi_file_number idx) = Some d"
    using assms(3) n d unfolding map_le_def by (metis ComplI domI restrict_in)
  then have "stored D' idx r" using i(2) d by (simp add: stored_def)
  then show ?thesis using i True by (auto simp: denotes_def)
qed (use assms(1) in \<open>simp add: denotes_def\<close>)

lemma retired_disk_ok:
  assumes "disk_ok env D s None" "retired ns s s'" "caches_ok (D |` (- set ns)) cache"
  shows "disk_ok env (D |` (- set ns)) s' cache"
proof -
  have "file_ok env s' n d" if "(D |` (- set ns)) n = Some d" for n d
  proof -
    have n: "n \<notin> set ns" "D n = Some d" using that by (auto simp: restrict_map_def split: if_splits)
    then have "FindFile s' n = FindFile s n" "keyless s' = keyless s" "file_cache s' = file_cache s"
      using assms(2) by (simp_all add: retired_def keyless_def fun_eq_iff)
    moreover have "file_ok env s n d" using assms(1) n(2) unfolding disk_ok_def by blast
    ultimately show ?thesis by (simp add: file_ok_def split: prod.splits cong: option.case_cong)
  qed
  moreover have "prefixes_apart (D |` (- set ns))"
    using assms(1) unfolding disk_ok_def prefixes_apart_def by (auto simp: restrict_map_def split: if_splits)
  ultimately show ?thesis using assms(1,3) unfolding disk_ok_def by blast
qed

lemma collected_values:
  assumes keys: "lsm_Get ops cf k lsm' = lsm_Get ops cf k lsm \<and>
      (\<forall>v idx rest. lsm_Get ops cf k lsm = Inr (v, True) \<longrightarrow> BlobIndex_DecodeFrom v = Inr (idx, rest) \<longrightarrow> bi_file_number idx \<notin> N) \<or>
      moved ops D R cf lsm lsm' k"
    and D: "disk_ok renv D s cache" "D |` (- N) \<subseteq>\<^sub>m D'" and v: "lsm_Get ops cf k lsm = Inr (v, b)" "denotes D v b w"
    and R: "\<And>e w. means Map.empty R e True w \<Longrightarrow> denotes D' e True w"
  shows "\<exists>v' b'. lsm_Get ops cf k lsm' = Inr (v', b') \<and> denotes D' v' b' w"
proof (cases "moved ops D R cf lsm lsm' k")
  case True
  then obtain v1 idx rest r idx' q where m: "lsm_Get ops cf k lsm = Inr (v1, True)" "BlobIndex_DecodeFrom v1 = Inr (idx, rest)" "stored D idx r"
    "lsm_Get ops cf k lsm' = Inr (BlobIndex_EncodeTo idx' [], True)" "points_into R idx' q" "rec_value q = rec_value r"
    unfolding moved_def by blast
  then have "denotes D v True w" "v1 = v" using v by simp_all
  then obtain r' where "stored D idx r'" "w = rec_value r'" using denotes_decodes m(2) by blast
  then have w: "w = rec_value r" using stored_unique [OF D(1) m(3)] by blast
  have "DecodeInto BlobIndex_DecodeFrom (BlobIndex_EncodeTo idx' []) = Inr idx'"
    using BlobIndex_Decode_Encode [of idx' "[]"] by (simp add: DecodeInto_def)
  then have "means Map.empty R (BlobIndex_EncodeTo idx' []) True w" unfolding means_def w using m(5,6) by auto
  then show ?thesis using R m(4) by blast
next
  case False
  then have "denotes D' v b w" using keys v by (intro denotes_restrict [OF v(2) _ D(2)]) auto
  then show ?thesis using keys False v(1) by auto
qed

lemma rewrite_loop_not_busy:
  assumes "lsm_ok ops"
  shows "s \<noteq> Busy \<Longrightarrow> fst (rewrite_loop env ops n s bs l) \<noteq> Busy"
proof (induction bs arbitrary: n s l)
  case (Cons b bs)
  have "fst (lsm_Write ops (fst b) l) \<noteq> Busy" using assms unfolding lsm_ok_def by blast
  then show ?case using Cons.IH by (auto simp: split_beta Let_def)
qed simp

lemma Install_frame:
  assumes "InstallOutputBlobFiles env job db = (st, job', db')"
  shows "gj_rewrite_batches job' = gj_rewrite_batches job \<and> gj_cf_id job' = gj_cf_id job \<and> gj_polls job' = gj_polls job \<and>
    gc_sampled_inputs (gj_blob_gc job') = gc_sampled_inputs (gj_blob_gc job)"
proof -
  have "gc_sampled_inputs (fold (AddOutputFile \<circ> file_number \<circ> fst) xs gc) = gc_sampled_inputs gc" for xs :: "(BlobFileMeta \<times> BlobFileHandle) list" and gc
    by (induction xs arbitrary: gc) (simp_all add: AddOutputFile_def)
  then show ?thesis using assms by (auto simp: InstallOutputBlobFiles_def Let_def split: prod.splits if_splits)
qed

text \<open>The parts of a successful \<^verbatim>\<open>Finish\<close>.\<close>

lemma Finish_parts_OK:
  assumes "lsm_ok ops" "sep_before_flush (gj_db_options job) \<longrightarrow> level_merge (fb_cf_options (gj_builder job))" "\<forall>i. \<not> ge_dropped env i"
    and fin: "BlobGCJob_Finish env ops job lsm db = (OK, job', lsm', db')"
  obtains j1 db1 n where "InstallOutputBlobFiles env job db = (OK, j1, db1)"
    "rewrite_loop env ops (gj_polls job) OK (gj_rewrite_batches job) lsm = (OK, n, lsm')" "job' = j1\<lparr>gj_polls := n\<rparr>"
    "DeleteInputBlobFiles env ops job' lsm' db1 = (OK, db')"
proof -
  have own: "\<not> (sep_before_flush (gj_db_options job) \<and> \<not> level_merge (fb_cf_options (gj_builder job)))" using assms(2) by simp
  obtain s1 j1 db1 where i: "InstallOutputBlobFiles env job db = (s1, j1, db1)" by (metis prod_cases3)
  note fr = Install_frame [OF i]
  obtain st n l2 where w: "rewrite_loop env ops (gj_polls job) OK (gj_rewrite_batches job) lsm = (st, n, l2)" by (metis prod_cases3)
  have busy: "st \<noteq> Busy" using rewrite_loop_not_busy [OF assms(1), of OK env "gj_polls job" "gj_rewrite_batches job" lsm] w by simp
  have F: "BlobGCJob_Finish env ops job lsm db =
      (if \<not> ok s1 then (s1, j1, lsm, db1)
       else if ok st then case DeleteInputBlobFiles env ops (j1\<lparr>gj_polls := n\<rparr>) l2 db1 of (s, d) \<Rightarrow> (s, j1\<lparr>gj_polls := n\<rparr>, l2, d)
       else (st, j1\<lparr>gj_polls := n\<rparr>, l2, db1))"
    unfolding BlobGCJob_Finish_def if_not_P [OF own] i using busy assms(3) by (simp add: RewriteValidKeyToLSM_def fr w)
  have s1: "s1 = OK" using F fin by (auto simp: ok_def split: if_splits)
  have st: "st = OK" using F fin s1 by (auto simp: ok_def split: if_splits)
  obtain s2 d where d: "DeleteInputBlobFiles env ops (j1\<lparr>gj_polls := n\<rparr>) l2 db1 = (s2, d)" by fastforce
  have "s2 = OK" "job' = j1\<lparr>gj_polls := n\<rparr>" "l2 = lsm'" "d = db'" using F fin s1 st d by simp_all
  then show thesis using that i s1 w st d by blast
qed

lemma Finish_collects:
  assumes lsm: "lsm_ok ops" "refers_ok ops D cf ins lsm" and s: "the_storage cf db = Some s" "readers_known s" "disk_ok (we_read (ge_write env)) D s cache"
    and known: "\<And>n. n \<in> set ins \<Longrightarrow> FindFile s n \<noteq> None"
    and job: "gj_cf_id job = cf" "gc_sampled_inputs (gj_blob_gc job) = ins" "sep_before_flush (gj_db_options job) \<longleftrightarrow> level_merge (cf_options s)"
      "level_merge (fb_cf_options (gj_builder job)) \<longleftrightarrow> level_merge (cf_options s)"
    and xs: "set xs = {(r, idx). bi_file_number idx \<in> set ins \<and> stored D idx r}" "prepared env ops opts cf lsm xs job R"
    and io: "append_ok (we_append (ge_write env))" "unique_prefixes (we_read (ge_write env))" "\<forall>i. \<not> ge_dropped env i"
    and built: "fst (finish_builders (ge_write env) (gj_blob_file_builders job)) = OK"
    and fin: "BlobGCJob_Finish env ops job lsm db = (OK, job', lsm', db')"
    and served: "list_all (\<lambda>(h, b). served (we_read (ge_write env)) (output_file job' (the h) (the b))) (gj_blob_file_builders job')"
  shows "gc_collected env ops D cf ins lsm lsm' db'"
proof -
  let ?R = "we_read (ge_write env)" and ?lm = "level_merge (cf_options s)"
  have "sep_before_flush (gj_db_options job) \<longrightarrow> level_merge (fb_cf_options (gj_builder job))" using job(3,4) by simp
  from Finish_parts_OK [OF lsm(1) this io(3) fin] obtain j1 db1 n2 where i: "InstallOutputBlobFiles env job db = (OK, j1, db1)"
    and w: "rewrite_loop env ops (gj_polls job) OK (gj_rewrite_batches job) lsm = (OK, n2, lsm')" and j': "job' = j1\<lparr>gj_polls := n2\<rparr>"
    and d: "DeleteInputBlobFiles env ops job' lsm' db1 = (OK, db')" by blast
  have P: "list_all2 (output_as env opts) (gj_blob_file_builders job) R" "list_all2 (batch_for R cf) (filter (live ops cf lsm) xs) (gj_rewrite_batches job)"
    using xs(2) by (simp_all add: prepared_def)
  obtain FH fs' where F: "FH = map (\<lambda>(h, b). output_file j1 (the h) (the b)) (gj_blob_file_builders j1)" "list_all2 (complete ?R ?lm) FH R"
    "LogAndApply (io_log_add (we_io (ge_write env))) (io_log_sync (we_io (ge_write env))) (adds_edit cf (map fst FH)) (blob_file_set db) = (OK, fs')"
    "blob_file_set db1 = fs'" "gj_rewrite_batches j1 = gj_rewrite_batches job" "gj_cf_id j1 = cf" "gc_sampled_inputs (gj_blob_gc j1) = ins"
    using Install_spec [OF P(1) io(1) job(3) i built] job(1,2) by auto
  let ?s1 = "fst (ComputeGCScore (fold AddBlobFile (map fst FH) s))" and ?N = "map2 (disk_file ?R) FH R"
  note L = LogAndApply_adds [OF F(3)]
  have len: "length FH = length R" using F(2) by (rule list_all2_lengthD)
  have numbers: "map file_number (map fst FH) = map fst R" using finished_numbers [OF F(2)] .
  have s1: "the_storage cf db1 = Some ?s1" using L s(1) F(4) by (simp add: GetBlobStorage_def)
  have fresh: "FindFile s n = None" if "n \<in> set (map fst R)" for n
    using that numbers L s(1) by (metis (no_types, lifting) GetBlobStorage_def image_iff set_map)
  have dist: "distinct (map fst R)" using L numbers by metis
  have D0: "D n = None" if "n \<in> set (map fst R)" for n using fresh [OF that] disk_ok_known [OF s(3)] by (cases "D n") auto
  have inst: "installed s FH ?s1" by (rule installed_AddBlobFile) (simp_all only: numbers dist fresh)
  have "\<forall>fh \<in> set FH. served ?R fh" using served F(1) by (auto simp: j' list_all_iff output_file_def)
  then have disk1: "disk_ok ?R (D ++ map_of ?N) ?s1 None"
    by (intro installed_disk_ok [OF s(3,2) inst F(2) io(2) _ dist fresh refl]) (simp_all add: caches_ok_def cache_ok_def)
  have num1: "numbered ?s1" using s(2) inst by (auto simp: numbered_def installed_def readers_known_def number_files_def dest: map_of_SomeD split: option.splits)
  obtain s2 where s2: "the_storage cf db' = Some s2" "retired ins ?s1 s2" using DeleteInput_spec [OF d, of ?s1] s1 num1 F(6,7) by (auto simp: j')
  let ?D = "(D ++ map_of ?N) |` (- set ins)"
  have ins: "n \<notin> set (map fst R)" if "n \<in> set ins" for n using known [OF that] fresh [of n] by (cases "n \<in> set (map fst R)") simp_all
  have "D \<subseteq>\<^sub>m D ++ map_of ?N" by (rule installed_extends [OF len D0])
  then have le: "D |` (- set ins) \<subseteq>\<^sub>m ?D" by (auto simp: map_le_def restrict_map_def dom_def)
  have "map_of ?N n = ?D n" if "n \<in> dom (map_of ?N)" for n
  proof -
    have "n \<in> set (map fst R)" using that by (simp add: dom_map_of_conv_image_fst image_image flip: keys_disk_files [OF len, of ?R])
    then show ?thesis using that ins by (auto simp: restrict_map_def)
  qed
  then have new_le: "map_of ?N |` (- {}) \<subseteq>\<^sub>m ?D" by (simp add: map_le_def)
  have new: "denotes ?D e True w" if "means Map.empty R e True w" for e w
  proof -
    have "denotes (map_of ?N) e True w" using means_denotes [OF that dist len, of ?R] by simp
    then show ?thesis by (rule denotes_restrict [OF _ _ new_le]) simp
  qed
  note K = rewritten_keys [OF lsm xs(1) P(2) w]
  show ?thesis unfolding gc_collected_def
  proof (intro exI [of _ ?D] exI [of _ s2] conjI)
    show "\<forall>n \<in> set ins. ?D n = None \<and> (\<exists>f. FindFile s2 n = Some f \<and> is_obsolete f)"
      using s2(2) by (auto simp: retired_def transit_def is_obsolete_def)
    show "\<forall>cache. caches_ok ?D cache \<longrightarrow> disk_ok ?R ?D s2 cache" using retired_disk_ok [OF disk1 s2(2)] by blast
    show "\<forall>k v b w. lsm_Get ops cf k lsm = Inr (v, b) \<longrightarrow> denotes D v b w \<longrightarrow> (\<exists>v' b'. lsm_Get ops cf k lsm' = Inr (v', b') \<and> denotes ?D v' b' w)"
      by (intro allI impI) (rule collected_values [OF spec [OF conjunct2 [OF K]] s(3) le _ _ new])
    show "\<forall>k e. lsm_Get ops cf k lsm = Inl e \<longrightarrow> lsm_Get ops cf k lsm' = Inl e"
      using K by (metis Inl_Inr_False moved_def)
  qed (use s2(1) le K in blast)+
qed
section \<open>Properties\<close>

section \<open>Witnesses\<close>

text \<open>An LSM tree that is a list of entries.\<close>

type_synonym list_lsm = "((u32 \<times> bytes) \<times> bytes \<times> bool) list"

definition alist_ops :: "list_lsm lsm_ops" where
  "alist_ops = \<lparr>lsm_Get = (\<lambda>cf k l. case map_of l (cf, k) of None \<Rightarrow> Inl NotFound | Some e \<Rightarrow> Inr e),
     lsm_Write = (\<lambda>wb l. (OK, fold (\<lambda>(cf, k, e). AList.update (cf, k) (e, True)) wb l)),
     lsm_Put = (\<lambda>cf k v l. (OK, AList.update (cf, k) (v, False) l)), lsm_sequence = (\<lambda>_. 9)\<rparr>"

lemma alist_lsm_ok: "lsm_ok alist_ops"
  by (auto simp: lsm_ok_def alist_ops_def AList.update_conv' split: option.splits)

definition w_job_storage :: BlobStorage where
  "w_job_storage = AddBlobFile (new_BlobFileMeta\<lparr>file_number := 5, file_size := 67, smallest_key := [1], largest_key := [2]\<rparr>) w_storage0"

definition w_job_db :: TitanDB where
  "w_job_db = new_TitanDB ((new_BlobFileSet default_TitanDBOptions)\<lparr>column_families := [(0, w_job_storage)], manifest := Some []\<rparr>)"

definition w_job_gc :: BlobGC where
  "w_job_gc = \<lparr>gc_inputs = [5], gc_sampled_inputs = [], gc_outputs = [], gc_cf_options = w_cf, gc_cf_id = Some 0, gc_trigger_next = False\<rparr>"

text \<open>The first record of the input is referenced, the second one has been overwritten.\<close>

definition w_job_lsm :: list_lsm where
  "w_job_lsm = [((0, [2]), w_index, True), ((0, [1]), [3], False)]"

definition w_job_input :: bytes where
  "w_job_input = [20, 166, 224, 43, 1, 0, 0, 0, 0, 0, 0, 0, 5, 0, 0, 0, 0, 1, 2, 2, 7, 8, 0, 0, 0, 0, 4, 0, 0, 0, 0, 1, 1, 1, 9,
   0, 0, 0, 0, 0, 0, 0, 0, 0, 0, 0, 0, 0, 0, 0, 0, 0, 0, 0, 0, 198, 237, 57, 142, 20, 166, 224, 43, 0, 0, 0, 0]"

definition w_job_output :: bytes where
  "w_job_output = [20, 166, 224, 43, 1, 0, 0, 0, 0, 0, 0, 0, 5, 0, 0, 0, 0, 1, 2, 2, 7, 8,
   0, 0, 0, 0, 0, 0, 0, 0, 0, 0, 0, 0, 0, 0, 0, 0, 0, 0, 0, 0, 198, 237, 57, 142, 20, 166, 224, 43, 0, 0, 0, 0]"

definition w_job_read :: read_env where
  "w_job_read = \<lparr>env_libs = zero_libs, env_crc = \<lambda>a _. a,
     env_open = \<lambda>n. if n = 1 then Inr (pread w_job_output, [2]) else if n = 5 then Inr (pread w_job_input, [1]) else Inl IOError,
     env_building = \<lambda>_ _ _. Inl IOError\<rparr>"

definition w_job_env :: gc_env where
  "w_job_env = \<lparr>ge_write = \<lparr>we_read = w_job_read, we_append = w_append, we_flush = OK, we_io = w_manager_io\<rparr>,
     ge_open_building = \<lambda>_. OK, ge_hash = \<lambda>_. 0, ge_file = \<lambda>n. if n = 5 then Inr (pread w_job_input) else Inl IOError,
     ge_shutting_down = \<lambda>_. False, ge_dropped = \<lambda>_. False\<rparr>"

definition w_job_fb :: ForegroundBuilder where
  "w_job_fb = new_ForegroundBuilder 0 default_TitanDBOptions w_cf"

definition w_job_run :: "(Status \<times> BlobGCJob \<times> list_lsm \<times> TitanDB) option" where
  "w_job_run = BlobGCJob_Run w_job_env alist_ops (new_BlobGCJob w_job_gc default_TitanDBOptions 0 w_job_fb) w_job_lsm w_job_db"

definition w_job_done :: "Status \<times> BlobGCJob \<times> list_lsm \<times> TitanDB" where
  "w_job_done = (case the w_job_run of (_, job, lsm, db) \<Rightarrow> BlobGCJob_Finish w_job_env alist_ops job lsm db)"

declare gc_loop.simps [code]
declare grow_readahead.simps [code]

lemma w_job_input_file: "bb_file w_finished = w_job_input"
  by code_simp

lemma w_job_evaluates:
  "(case w_job_run of
      None \<Rightarrow> None
    | Some (s, job, lsm, db) \<Rightarrow>
        let d = BlobGCJob_Finish w_job_env alist_ops job lsm db
        in Some (s, fst (finish_builders (ge_write w_job_env) (gj_blob_file_builders job)), fst d,
             map (\<lambda>(h, b). (hd_number (the h), bb_file (the b))) (gj_blob_file_builders (fst (snd d)))))
   = Some (OK, OK, OK, [(1, w_job_output)])"
  by code_simp

lemma w_job_results:
  obtains job lsm1 db1 job' lsm' db' where "w_job_run = Some (OK, job, lsm1, db1)"
    "fst (finish_builders (ge_write w_job_env) (gj_blob_file_builders job)) = OK"
    "BlobGCJob_Finish w_job_env alist_ops job lsm1 db1 = (OK, job', lsm', db')"
    "map (\<lambda>(h, b). (hd_number (the h), bb_file (the b))) (gj_blob_file_builders job') = [(1, w_job_output)]"
proof -
  obtain s job lsm1 db1 where run: "w_job_run = Some (s, job, lsm1, db1)"
    using w_job_evaluates by (cases w_job_run) auto
  obtain s' job' lsm' db' where fin: "BlobGCJob_Finish w_job_env alist_ops job lsm1 db1 = (s', job', lsm', db')"
    by (metis prod_cases4)
  show thesis using w_job_evaluates by (intro that [of job lsm1 db1 job' lsm' db']) (simp_all add: run fin)
qed

lemma w_job_storage_files: "files w_job_storage = [(5, new_BlobFileMeta\<lparr>file_number := 5, file_size := 67, smallest_key := [1], largest_key := [2]\<rparr>)]"
    "file_cache w_job_storage = []" "cf_options w_job_storage = w_cf"
  by (simp_all add: w_job_storage_def AddBlobFile_def w_storage0_def new_BlobStorage_def emplace_def)

lemma w_job_disk: "disk_ok w_job_read w_disk w_job_storage None"
proof -
  have "file_ok w_job_read w_job_storage 5 (w_records, fst w_built, bb_file w_finished, [1])"
    using w_built_from w_finished_length
    by (auto simp: file_ok_def w_job_read_def w_job_storage_files FindFile_def new_BlobFileMeta_def keyless_def w_records_def w_job_input_file [symmetric])
  then show ?thesis
    using zero_libs_ok by (auto simp: disk_ok_def prefixes_apart_def caches_ok_def cache_ok_def w_disk_def w_job_read_def split: if_splits)
qed

lemma w_job_refers: "refers_ok alist_ops w_disk 0 [5] w_job_lsm"
proof -
  have "stored w_disk \<lparr>bi_file_number = 5, blob_handle = fst w_built ! 0\<rparr> (w_records ! 0)"
    by (auto simp: stored_def w_disk_def w_records_def intro!: exI [of _ 0])
  moreover have "BlobIndex_DecodeFrom w_index = Inr (\<lparr>bi_file_number = 5, blob_handle = fst w_built ! 0\<rparr>, [])"
    using BlobIndex_Decode_Encode [of _ "[]"] by (simp add: w_index_def)
  ultimately show ?thesis by (auto simp: refers_ok_def alist_ops_def w_job_lsm_def w_records_def split: option.splits if_splits)
qed


end
