(* ===== verification/Spec2Isabelle.thy ===== *)
theory Spec2Isabelle
  imports Gc_Scheduler Table_Safety Foreground_Reads Gc_Values
begin

text \<open>
  A verification of the DiffKV engine of this repository (\<^verbatim>\<open>src/diffkv\<close>), a key-value store that
  keeps large values outside the LSM tree of RocksDB, in blob files.

  \<^bold>\<open>Parts of the program.\<close> A blob file holds framed records; the LSM tree holds a blob index
  (file number, offset, size) in place of each separated value. \<^verbatim>\<open>BlobStorage\<close> keeps the metadata of
  the blob files of a column family, \<^verbatim>\<open>BlobFileSet\<close> the column families and the manifest, a log of
  version edits from which the metadata is recovered. Flush, compaction and garbage collection
  add and retire blob files through edits; a purge deletes retired files once no snapshot can
  read them.

  \<^bold>\<open>Theories.\<close>
  \<^item> \<open>Prelude\<close>: types of bytes and machine words, \<^verbatim>\<open>Status\<close>, association lists for
    \<^verbatim>\<open>std::unordered_map\<close>, insertion sort for \<^verbatim>\<open>std::sort\<close>, weighted sums.
  \<^item> \<open>Coding\<close> (\<^verbatim>\<open>util/coding.h/.cc\<close>): fixed-width and varint coding, length-prefixed slices. The
    locale \<open>codec\<close> states the contract of an encoder and decoder pair; it is interpreted
    on every format of the development.
  \<^item> \<open>Blob_Format\<close> (\<^verbatim>\<open>blob_format.h/.cc\<close>, \<^verbatim>\<open>util.cc\<close>, \<^verbatim>\<open>table/format.cc\<close>): records, framing, handles, indexes, header,
    footer, compression.
  \<^item> \<open>Titan_Stats\<close> (\<^verbatim>\<open>titan_stats.h/.cc\<close>), \<open>Titan_Options\<close> (\<^verbatim>\<open>options.h\<close>, \<^verbatim>\<open>options.cc\<close>).
  \<^item> \<open>Blob_File_Meta\<close> (\<^verbatim>\<open>BlobFileMeta\<close>): metadata, its encodings, the life-cycle state machine,
    discardable bytes.
  \<^item> \<open>Version_Edit\<close> (\<^verbatim>\<open>version_edit.h/.cc\<close>): edits and their encoding.
  \<^item> \<open>Blob_File\<close> (\<^verbatim>\<open>blob_file_builder\<close>, \<^verbatim>\<open>blob_file_reader\<close>, \<^verbatim>\<open>blob_file_cache\<close>): writing a blob file, reading
    records through the blob cache, readahead, the cache of open files.
  \<^item> \<open>Blob_Storage\<close> (\<^verbatim>\<open>blob_storage.h/.cc\<close>): the files of a column family, with the invariant
    \<open>storage_inv\<close>; the locale \<open>file_table\<close> is what the edit collector relies on.
    \<open>Storage_History\<close> has the histories of its operations and the properties.
  \<^item> \<open>Edit_Collector\<close> (\<^verbatim>\<open>edit_collector.h\<close>): batches of edits; \<open>apply_spec\<close> is the
    abstract description they refine.
  \<^item> \<open>Blob_File_Set\<close> (\<^verbatim>\<open>blob_file_set.h/.cc\<close>): manifest, recovery, dropping families, purging;
    \<open>Recovery\<close> has the properties that span collector, manifest and recovery.
  \<^item> \<open>Blob_GC\<close> (\<^verbatim>\<open>blob_gc\<close>, \<^verbatim>\<open>blob_gc_picker\<close>): the choice, marking and release of the files of a
    garbage collection.
  \<^item> \<open>Blob_Iterator\<close> (\<^verbatim>\<open>blob_file_iterator.h/.cc\<close>): reading a blob file record by record with readahead,
    positioning, and the merge of several files.
  \<^item> \<open>Size_Collector\<close> (\<^verbatim>\<open>blob_file_size_collector.h/.cc\<close>): the bytes per blob file that a table refers to.
  \<^item> \<open>Db_Read\<close> (\<^verbatim>\<open>Get\<close>, \<^verbatim>\<open>MultiGet\<close>, \<^verbatim>\<open>Scan\<close> of \<^verbatim>\<open>db_impl.cc\<close>, \<^verbatim>\<open>db_iter.h\<close>): point reads, the iterator and scans.
    \<open>disk_ok\<close> says that the files of the storage are on disk as they were written, \<open>denotes\<close> which
    value an entry of the LSM tree stands for.
  \<^item> \<open>Gc_Scheduler\<close> (\<^verbatim>\<open>db_impl.h\<close>, \<^verbatim>\<open>db_impl_gc.cc\<close>, \<^verbatim>\<open>DropColumnFamilies\<close> and \<^verbatim>\<open>CloseImpl\<close> of \<^verbatim>\<open>db_impl.cc\<close>): the queue
    of families and the background jobs as a state machine.
  \<^item> \<open>Internal_Key\<close> (\<^verbatim>\<open>db/dbformat.h/.cc\<close> of RocksDB): internal keys.
  \<^item> \<open>File_Manager\<close> (\<^verbatim>\<open>FileManager\<close> of \<^verbatim>\<open>db_impl.cc\<close>, \<^verbatim>\<open>db_impl_files.cc\<close>): creating, installing and
    deleting blob files, the background error.
  \<^item> \<open>Table_Builder\<close> (\<^verbatim>\<open>TitanTableBuilder\<close>, \<^verbatim>\<open>table_factory\<close>): the separation of values at flush and
    compaction. \<open>Value_Separation\<close> shows that no value is changed by it, \<open>Table_Safety\<close> the well-formedness of the
    builder and its error paths.
  \<^item> \<open>Foreground_Builder\<close> (\<^verbatim>\<open>ForegroundBuilder\<close>, \<^verbatim>\<open>Put\<close>, \<^verbatim>\<open>OnMemTableSealed\<close>): the separation of values before the
    memtable. \<open>Foreground_Reads\<close> shows what a read finds in a file that is being built.
  \<^item> \<open>Gc_Job\<close> (\<^verbatim>\<open>blob_gc_job.h/.cc\<close>, \<^verbatim>\<open>BackgroundGC\<close> of \<^verbatim>\<open>db_impl_gc.cc\<close>): a garbage collection from its inputs to their
    retirement. \<open>Gc_Values\<close> shows that it keeps the values.

  \<^bold>\<open>Conventions.\<close> The state of an object is a record, passed and returned by its methods. Integers
  have their width; doubles are exact rationals. A method runs under its mutex and is one step.
  Assertions are compiled out, as in a release build; where they matter they are a separate
  predicate (\<open>transit_assert\<close>). Undefined behaviour of C++ is the status \<open>Undefined\<close>. A
  file name is its number. The answers of the file system, of the log reader and writer, of the
  compression libraries, of the checksum function and of RocksDB are parameters.
  No definition has fuel. A loop of the source is structural recursion or has a termination proof, except for the
  loops of the blob file iterators and of the garbage collection job, which follow what a file contains:
  they are partial functions with the result \<open>None\<close> when they do not return, and the theorems on
  them prove that they return. In \<open>Foreground_Builder\<close> and \<open>Gc_Job\<close> the result \<open>None\<close> also stands for the end of the
  process.

  \<^bold>\<open>What the theorems show.\<close>
  \<^item> Formats: round trips of coding, records, indexes, metadata, edits, internal keys and whole blob files.
  \<^item> Metadata: the life cycle of a file and its accounting; the invariant of the storage over
    all histories; that purging respects snapshots; that a sealed batch of edits applies and refines its description;
    that logging is all or nothing in memory; that recovery restores exactly the live files after any run.
  \<^item> Values: what a table builder writes denotes what was added to it; a read, an iteration or a scan returns
    the value that an entry denotes; a garbage collection that succeeds with no other writer keeps the value of
    every key while its inputs become obsolete; a value separated before the memtable is found in the file
    being built once it has left the buffer of the writer.
  \<^item> Iteration and collection: a file and a merge of files are visited completely; the loops end; the picker
    takes only files that may be collected; the jobs stay within their limit, and the queue drains.
  \<^item> Errors: the theorems on corrupted manifests, record checksums, rebuilt options, failed blob files, failed
    drops, empty keys and empty values state defects of the code as it is.

  \<^bold>\<open>Not modelled.\<close> Logging, timers, statistics tickers and histograms, and the counters of a collection (observers
  only). The handlers of flush and compaction events, range deletion, option changes and properties in
  \<^verbatim>\<open>db_impl.cc\<close>, which are driven by table properties and events of RocksDB. The wait for space in \<^verbatim>\<open>Put\<close>, the queueing of a further
  collection at the end of \<^verbatim>\<open>BackgroundGC\<close>, and \<^verbatim>\<open>DoSample\<close>, which nothing calls. The entry points that only forward. RocksDB
  underneath (LSM tree, table builder, iterators) is a parameter. The other engines of the repository, the workload
  generator, the benchmark drivers and the scripts are outside the engine.
\<close>

end
